(* ===== verification/AP4_Prelude.thy ===== *)
theory AP4_Prelude
  imports Main "HOL-Library.Word"
begin

text \<open>
  Shared vocabulary of the development.

  \<^item> Machine integers: \<open>uint8_t\<close> .. \<open>uint64_t\<close> are \<open>u8\<close> .. \<open>u64\<close>.  C \<open>int\<close>s that
    take part in signed arithmetic are \<open>int\<close>; C \<open>int\<close>s that only count are \<open>nat\<close>.
  \<^item> Arrays and raw memory: a C array is a function from indices (\<open>'a arr\<close>), a packet
    buffer is a function from byte offsets (\<open>buffer\<close>).  Such a function has no upper end, so
    that reading stale bytes behind a packet is modelled; where the C code would leave the
    declared array, the operation returns \<open>OutOfBounds\<close> or a theorem bounds the offsets.
  \<^item> Failures: \<open>assert\<close>, \<open>rte_exit\<close> and out-of-range accesses are values of \<open>c_error\<close>, on the
    left of the result sum.
  \<^item> Byte order: the programs run on x86 (README), so \<open>load16\<close>/\<open>store16\<close> are little-endian
    and \<open>htons\<close>/\<open>htonl\<close> swap bytes.
\<close>

unbundle bit_operations_syntax

named_theorems buffer_simps "how loads see stores in packet buffers"
named_theorems c_defs "definitions of small C helpers, unfolded on demand"

type_synonym u8 = "8 word"
type_synonym u16 = "16 word"
type_synonym u32 = "32 word"
type_synonym u64 = "64 word"
type_synonym 'a arr = "nat \<Rightarrow> 'a"
type_synonym buffer = "nat \<Rightarrow> u8"

datatype c_error =
    AssertFail
  | OutOfBounds
  | NullDeref
  | DivByZero
  | ExitFailure
  | Overflow
  | NoReturn

type_synonym 'a c_result = "c_error + 'a"

subsection \<open>Results\<close>

fun bind_result :: "'a c_result \<Rightarrow> ('a \<Rightarrow> 'b c_result) \<Rightarrow> 'b c_result" where
  "bind_result (Inl e) f = Inl e"
| "bind_result (Inr x) f = f x"

fun is_ok :: "'a c_result \<Rightarrow> bool" where
  "is_ok (Inl e) = False"
| "is_ok (Inr x) = True"

lemma bind_result_Inr_iff:
  "bind_result r f = Inr y \<longleftrightarrow> (\<exists>x. r = Inr x \<and> f x = Inr y)"
  by (cases r) auto

lemma bind_result_InrE: "bind_result r f = Inr y \<Longrightarrow> (\<And>x. f x = Inr y \<Longrightarrow> P) \<Longrightarrow> P"
  by (auto simp: bind_result_Inr_iff)

lemma bind_result_Inl_iff:
  "bind_result r f = Inl e \<longleftrightarrow> r = Inl e \<or> (\<exists>x. r = Inr x \<and> f x = Inl e)"
  by (cases r) auto

lemma bind_result_Inr [simp]: "bind_result r Inr = r"
  by (cases r) simp_all

lemma bind_result_assoc: "bind_result (bind_result r f) g = bind_result r (\<lambda>x. bind_result (f x) g)"
  by (cases r) simp_all

lemma bind_result_cong_Inr:
  "(\<And>x. r = Inr x \<Longrightarrow> f x = g x) \<Longrightarrow> bind_result r f = bind_result r g"
  by (cases r) simp_all

subsection \<open>C integer conversions\<close>

text \<open>
  A comparison of an \<open>int\<close> with a \<open>sizeof\<close> expression happens in \<open>size_t\<close>: the signed operand
  is first reduced modulo \<open>2^64\<close>.
\<close>

definition to_size :: "int \<Rightarrow> u64" where
  "to_size x = word_of_int x"

definition size_less :: "int \<Rightarrow> nat \<Rightarrow> bool" where
  "size_less x n \<longleftrightarrow> to_size x < of_nat n"

lemma size_less_nonneg:
  assumes "0 \<le> x" "x < 2 ^ 64" "n < 2 ^ 64"
  shows "size_less x n \<longleftrightarrow> x < int n"
  using assms
  by (simp add: size_less_def to_size_def word_less_def uint_word_of_int unsigned_of_nat
      take_bit_nat_eq_self take_bit_int_eq_self)

lemma size_less_neg:
  assumes "x < 0" "- (2 ^ 63) \<le> x" "n < 2 ^ 63"
  shows "\<not> size_less x n"
proof -
  have m: "x mod 2 ^ 64 = x + 2 ^ 64"
    using assms mod_add_self2 [of x "2 ^ 64"] mod_pos_pos_trivial [of "x + 2 ^ 64" "2 ^ 64"] by simp
  have n: "int n mod 2 ^ 64 = int n"
    using assms(3) by (intro mod_pos_pos_trivial) auto
  have "\<not> x + 2 ^ 64 < int n"
    using assms by simp
  then show ?thesis
    using m n by (simp add: size_less_def to_size_def word_less_def uint_word_of_int
        unsigned_of_nat take_bit_eq_mod of_nat_mod)
qed

subsection \<open>Byte order and buffer access\<close>

definition htons :: "u16 \<Rightarrow> u16" where
  "htons x = push_bit 8 x OR drop_bit 8 x"

definition htonl :: "u32 \<Rightarrow> u32" where
  "htonl x = push_bit 24 x OR push_bit 16 (take_bit 8 (drop_bit 8 x))
     OR push_bit 8 (take_bit 8 (drop_bit 16 x)) OR drop_bit 24 x"

abbreviation ntohs :: "u16 \<Rightarrow> u16" where "ntohs \<equiv> htons"
abbreviation ntohl :: "u32 \<Rightarrow> u32" where "ntohl \<equiv> htonl"

definition load8 :: "buffer \<Rightarrow> nat \<Rightarrow> u8" where
  "load8 b i = b i"

definition load16 :: "buffer \<Rightarrow> nat \<Rightarrow> u16" where
  "load16 b i = ucast (b i) OR push_bit 8 (ucast (b (i + 1)))"

definition load32 :: "buffer \<Rightarrow> nat \<Rightarrow> u32" where
  "load32 b i = ucast (b i) OR push_bit 8 (ucast (b (i + 1)))
     OR push_bit 16 (ucast (b (i + 2))) OR push_bit 24 (ucast (b (i + 3)))"

definition store8 :: "nat \<Rightarrow> u8 \<Rightarrow> buffer \<Rightarrow> buffer" where
  "store8 i v b = b(i := v)"

definition store16 :: "nat \<Rightarrow> u16 \<Rightarrow> buffer \<Rightarrow> buffer" where
  "store16 i v b = b(i := ucast v, i + 1 := ucast (drop_bit 8 v))"

definition store32 :: "nat \<Rightarrow> u32 \<Rightarrow> buffer \<Rightarrow> buffer" where
  "store32 i v b = b(i := ucast v, i + 1 := ucast (drop_bit 8 v),
     i + 2 := ucast (drop_bit 16 v), i + 3 := ucast (drop_bit 24 v))"

text \<open>\<open>memcpy\<close> of a byte list to an offset.\<close>

definition store_bytes :: "nat \<Rightarrow> u8 list \<Rightarrow> buffer \<Rightarrow> buffer" where
  "store_bytes i bs b = (\<lambda>k. if i \<le> k \<and> k < i + length bs then bs ! (k - i) else b k)"

definition load_bytes :: "buffer \<Rightarrow> nat \<Rightarrow> nat \<Rightarrow> u8 list" where
  "load_bytes b i n = map (\<lambda>k. b (i + k)) [0..<n]"

lemma length_load_bytes [simp]: "length (load_bytes b i n) = n"
  by (simp add: load_bytes_def)

lemma htons_htons [simp]: "htons (htons x) = x"
  by (rule bit_word_eqI) (auto simp: htons_def bit_simps)

lemma bit_htonl:
  "bit (htonl x) n \<longleftrightarrow> n < 32 \<and> bit x (if n < 8 then n + 24 else if n < 16 then n + 8
     else if n < 24 then n - 8 else n - 24)"
proof -
  consider "n < 8" | "8 \<le> n" "n < 16" | "16 \<le> n" "n < 24" | "24 \<le> n" "n < 32" | "32 \<le> n"
    by linarith
  then show ?thesis
  proof cases
    case 1
    then show ?thesis by (simp add: htonl_def bit_simps add.commute)
  next
    case 2
    then show ?thesis
      by (auto simp: htonl_def bit_simps add.commute less_diff_conv2 dest: bit_imp_le_length)
  next
    case 3
    then show ?thesis by (auto simp: htonl_def bit_simps less_diff_conv2 dest: bit_imp_le_length)
  next
    case 4
    then show ?thesis by (auto simp: htonl_def bit_simps less_diff_conv2 dest: bit_imp_le_length)
  next
    case 5
    then show ?thesis by (auto simp: htonl_def bit_simps less_diff_conv2 dest: bit_imp_le_length)
  qed
qed

lemma htonl_htonl [simp]: "htonl (htonl x) = x"
proof (rule bit_word_eqI)
  fix n
  assume "n < LENGTH(32)"
  then consider "n < 8" | "8 \<le> n" "n < 16" | "16 \<le> n" "n < 24" | "24 \<le> n" "n < 32"
    by fastforce
  then show "bit (htonl (htonl x)) n = bit x n"
    by cases (simp_all add: bit_htonl less_diff_conv2)
qed

lemma htons_eq_iff [simp]: "htons x = htons y \<longleftrightarrow> x = y"
  by (metis htons_htons)

lemma htonl_eq_iff [simp]: "htonl x = htonl y \<longleftrightarrow> x = y"
  by (metis htonl_htonl)

lemma load8_store8 [buffer_simps]: "load8 (store8 i v b) j = (if i = j then v else load8 b j)"
  by (simp add: load8_def store8_def)

lemma load8_store16 [buffer_simps]:
  "j < i \<or> i + 2 \<le> j \<Longrightarrow> load8 (store16 i v b) j = load8 b j"
  by (auto simp: load8_def store16_def)

lemma load8_store32 [buffer_simps]:
  "j < i \<or> i + 4 \<le> j \<Longrightarrow> load8 (store32 i v b) j = load8 b j"
  by (auto simp: load8_def store32_def)

lemma load16_store16 [buffer_simps]: "load16 (store16 i v b) i = v"
  by (rule bit_word_eqI) (auto simp: load16_def store16_def bit_simps)

lemma load16_store16_other [buffer_simps]:
  "j + 2 \<le> i \<or> i + 2 \<le> j \<Longrightarrow> load16 (store16 i v b) j = load16 b j"
  by (auto simp: load16_def store16_def)

lemma load16_store8_other [buffer_simps]:
  "j + 2 \<le> i \<or> i + 1 \<le> j \<Longrightarrow> load16 (store8 i v b) j = load16 b j"
  by (auto simp: load16_def store8_def)

lemma load16_store32_other [buffer_simps]:
  "j + 2 \<le> i \<or> i + 4 \<le> j \<Longrightarrow> load16 (store32 i v b) j = load16 b j"
  by (auto simp: load16_def store32_def)

lemma load32_store32 [buffer_simps]: "load32 (store32 i v b) i = v"
proof (rule bit_word_eqI)
  fix n
  assume "n < LENGTH(32)"
  then consider "n < 8" | "8 \<le> n" "n < 16" | "16 \<le> n" "n < 24" | "24 \<le> n" "n < 32"
    by fastforce
  then show "bit (load32 (store32 i v b) i) n = bit v n"
    by cases (auto simp: load32_def store32_def bit_simps less_diff_conv2)
qed

lemma load32_store32_other [buffer_simps]:
  "j + 4 \<le> i \<or> i + 4 \<le> j \<Longrightarrow> load32 (store32 i v b) j = load32 b j"
  by (auto simp: load32_def store32_def)

lemma load32_store16_other [buffer_simps]:
  "j + 4 \<le> i \<or> i + 2 \<le> j \<Longrightarrow> load32 (store16 i v b) j = load32 b j"
  by (auto simp: load32_def store16_def)

lemma load32_store8_other [buffer_simps]:
  "j + 4 \<le> i \<or> i + 1 \<le> j \<Longrightarrow> load32 (store8 i v b) j = load32 b j"
  by (auto simp: load32_def store8_def)

lemma store_bytes_in [buffer_simps]:
  "k < length bs \<Longrightarrow> store_bytes i bs b (i + k) = bs ! k"
  by (simp add: store_bytes_def)

lemma store_bytes_other [buffer_simps]:
  "k < i \<or> i + length bs \<le> k \<Longrightarrow> store_bytes i bs b k = b k"
  by (auto simp: store_bytes_def)

lemma load_store_bytes [buffer_simps]: "load_bytes (store_bytes i bs b) i (length bs) = bs"
  by (rule nth_equalityI) (simp_all add: load_bytes_def store_bytes_def)

lemma load16_store_bytes_other [buffer_simps]:
  "j + 2 \<le> i \<or> i + length bs \<le> j \<Longrightarrow> load16 (store_bytes i bs b) j = load16 b j"
  by (auto simp: load16_def store_bytes_def)

lemma load32_store_bytes_other [buffer_simps]:
  "j + 4 \<le> i \<or> i + length bs \<le> j \<Longrightarrow> load32 (store_bytes i bs b) j = load32 b j"
  by (auto simp: load32_def store_bytes_def)

lemma load8_store_bytes_other [buffer_simps]:
  "j < i \<or> i + length bs \<le> j \<Longrightarrow> load8 (store_bytes i bs b) j = load8 b j"
  by (auto simp: load8_def store_bytes_def)

text \<open>A frame: the bytes from \<open>n\<close> on are untouched by stores below \<open>n\<close>.\<close>

definition agree_from :: "nat \<Rightarrow> buffer \<Rightarrow> buffer \<Rightarrow> bool" where
  "agree_from n b c \<longleftrightarrow> (\<forall>k\<ge>n. b k = c k)"

lemma agree_from_refl [simp]: "agree_from n b b"
  by (simp add: agree_from_def)

lemma agree_from_stores [simp]:
  "i < n \<Longrightarrow> agree_from n (store8 i v8 b) c \<longleftrightarrow> agree_from n b c"
  "i + 2 \<le> n \<Longrightarrow> agree_from n (store16 i v16 b) c \<longleftrightarrow> agree_from n b c"
  "i + 4 \<le> n \<Longrightarrow> agree_from n (store32 i v32 b) c \<longleftrightarrow> agree_from n b c"
  "i + length bs \<le> n \<Longrightarrow> agree_from n (store_bytes i bs b) c \<longleftrightarrow> agree_from n b c"
  by (auto simp: agree_from_def store8_def store16_def store32_def store_bytes_def)

end
