(* ===== verification/AP4_Queue.thy ===== *)
theory AP4_Queue
  imports AP4_Prelude
begin

text \<open>
  The two packet queues: \<open>tx_queue_t\<close> of \<open>activep4_netutils.h\<close>, drained by \<open>tx_loop\<close>, and
  \<open>active_queue_t\<close> of \<open>activep4_pktgen.h\<close>.  Both keep a head and a tail index in a fixed array,
  \<open>-1\<close> marking the empty queue.

  The contract of a bounded queue is the locale \<open>bounded_queue\<close>; it is interpreted on both
  implementations, which gives first-in first-out delivery for every sequence of operations.
  The last section shows what \<open>tx_loop\<close> makes of the return value of \<open>dequeue_pkt\<close>.
\<close>

subsection \<open>The queue of netutils\<close>

abbreviation (input) TXQUEUELEN :: nat where "TXQUEUELEN \<equiv> 1024"
abbreviation (input) PKTGEN_QUEUELEN :: nat where "PKTGEN_QUEUELEN \<equiv> 8192"

record 'p tx_queue_t =
  qhead :: int
  qtail :: int
  packets :: "'p arr"

definition init_queue :: "'p tx_queue_t \<Rightarrow> 'p tx_queue_t" where
  "init_queue queue = queue\<lparr>qhead := -1, qtail := -1\<rparr>"

definition is_queue_empty :: "'p tx_queue_t \<Rightarrow> bool" where
  "is_queue_empty queue \<longleftrightarrow> qhead queue = -1"

definition enqueue_pkt :: "'p tx_queue_t \<Rightarrow> 'p \<Rightarrow> int \<times> 'p tx_queue_t" where
  "enqueue_pkt queue pkt =
     (if (qhead queue \<ge> 0 \<and> qtail queue = int TXQUEUELEN - 1) \<or> qhead queue = qtail queue + 1
      then (-1, queue)
      else let h = (if qhead queue = -1 then 0 else qhead queue);
               t = (qtail queue + 1) mod int TXQUEUELEN
           in (t, queue\<lparr>qhead := h, qtail := t, packets := (packets queue)(nat t := pkt)\<rparr>))"

text \<open>The result carries the return value and the packet stored through \<open>pkt\<close>, if any.\<close>

definition dequeue_pkt :: "'p tx_queue_t \<Rightarrow> int \<times> 'p option \<times> 'p tx_queue_t" where
  "dequeue_pkt queue =
     (if qhead queue = -1 then (-1, None, queue)
      else let pkt = packets queue (nat (qhead queue));
               queue' = (if qhead queue = qtail queue then queue\<lparr>qhead := -1, qtail := -1\<rparr>
                         else queue\<lparr>qhead := (qhead queue + 1) mod int TXQUEUELEN\<rparr>)
           in (qhead queue', Some pkt, queue'))"

text \<open>
  One iteration of \<open>tx_loop\<close>: the packet handed to \<open>sendto\<close>, if any.  The loop repeats it for ever.
\<close>

definition tx_loop_step :: "'p tx_queue_t \<Rightarrow> 'p option \<times> 'p tx_queue_t" where
  "tx_loop_step queue = (case dequeue_pkt queue of (r, pkt, queue') \<Rightarrow>
     if r < 0 then (None, queue') else (pkt, queue'))"

fun tx_loop :: "nat \<Rightarrow> 'p tx_queue_t \<Rightarrow> 'p list \<times> 'p tx_queue_t" where
  "tx_loop 0 queue = ([], queue)"
| "tx_loop (Suc n) queue = (case tx_loop_step queue of (out, queue') \<Rightarrow>
     case tx_loop n queue' of (outs, queue'') \<Rightarrow>
       ((case out of None \<Rightarrow> outs | Some pkt \<Rightarrow> pkt # outs), queue''))"

subsection \<open>The queue of pktgen\<close>

record 'p active_queue_t =
  aq_head :: int
  aq_tail :: int
  aq_program :: "'p arr"

definition init_active_queue :: "'p active_queue_t \<Rightarrow> 'p active_queue_t" where
  "init_active_queue queue = queue\<lparr>aq_head := -1, aq_tail := -1\<rparr>"

definition is_active_queue_empty :: "'p active_queue_t \<Rightarrow> bool" where
  "is_active_queue_empty queue \<longleftrightarrow> aq_head queue = -1"

definition enqueue_program :: "'p active_queue_t \<Rightarrow> 'p \<Rightarrow> int \<times> 'p active_queue_t" where
  "enqueue_program queue program =
     (if (aq_head queue \<ge> 0 \<and> aq_tail queue = int PKTGEN_QUEUELEN - 1) \<or> aq_head queue = aq_tail queue + 1
      then (-1, queue)
      else let h = (if aq_head queue = -1 then 0 else aq_head queue);
               t = (aq_tail queue + 1) mod int PKTGEN_QUEUELEN
           in (t, queue\<lparr>aq_head := h, aq_tail := t, aq_program := (aq_program queue)(nat t := program)\<rparr>))"

definition dequeue_program :: "'p active_queue_t \<Rightarrow> 'p option \<times> 'p active_queue_t" where
  "dequeue_program queue =
     (if aq_head queue = -1 then (None, queue)
      else (Some (aq_program queue (nat (aq_head queue))),
            if aq_head queue = aq_tail queue then queue\<lparr>aq_head := -1, aq_tail := -1\<rparr>
            else queue\<lparr>aq_head := (aq_head queue + 1) mod int PKTGEN_QUEUELEN\<rparr>))"

subsection \<open>Slots between head and tail\<close>

definition ring_slots :: "int \<Rightarrow> int \<Rightarrow> 'p arr \<Rightarrow> 'p list" where
  "ring_slots h t a = (if h = -1 then [] else map (\<lambda>i. a (nat i)) [h..t])"

definition indices_ok :: "nat \<Rightarrow> int \<Rightarrow> int \<Rightarrow> bool" where
  "indices_ok len h t \<longleftrightarrow> h = -1 \<and> t = -1 \<or> 0 \<le> h \<and> h \<le> t \<and> t < int len"

lemma slots_append:
  assumes "indices_ok len h t"
  shows "ring_slots (if h = -1 then 0 else h) (t + 1) (a(nat (t + 1) := x)) = ring_slots h t a @ [x]"
proof -
  have *: "[h..t + 1] = [h..t] @ [t + 1]" if "0 \<le> h" "h \<le> t"
    using that upto_rec2 [of h "t + 1"] by simp
  show ?thesis
  proof (cases "h = -1")
    case True
    with assms show ?thesis by (simp add: ring_slots_def indices_ok_def)
  next
    case False
    with assms have "0 \<le> h" "h \<le> t" by (auto simp: indices_ok_def)
    moreover from this have "map (\<lambda>i. (a(nat (t + 1) := x)) (nat i)) [h..t] = map (\<lambda>i. a (nat i)) [h..t]"
      by (auto simp: nat_eq_iff)
    ultimately show ?thesis by (simp add: ring_slots_def *)
  qed
qed

lemma slots_hd:
  assumes "indices_ok len h t" "h \<noteq> -1"
  shows "ring_slots h t a = a (nat h) # (if h = t then [] else ring_slots (h + 1) t a)"
  using assms by (auto simp: ring_slots_def indices_ok_def upto_rec1 [of h t])

lemma slots_empty: "indices_ok len h t \<Longrightarrow> ring_slots h t a = [] \<longleftrightarrow> h = -1"
  by (auto simp: ring_slots_def indices_ok_def)

lemma length_slots: "indices_ok len h t \<Longrightarrow> length (ring_slots h t a) \<le> len"
  by (auto simp: ring_slots_def indices_ok_def nat_le_iff)

subsection \<open>The contract of a bounded queue\<close>

locale bounded_queue =
  fixes empty :: "'q \<Rightarrow> bool"
    and enq :: "'q \<Rightarrow> 'p \<Rightarrow> int \<times> 'q"
    and deq :: "'q \<Rightarrow> 'p option \<times> 'q"
    and content :: "'q \<Rightarrow> 'p list"
    and inv :: "'q \<Rightarrow> bool"
    and room :: "'q \<Rightarrow> bool"
    and cap :: nat
  assumes empty_law: "inv q \<Longrightarrow> empty q \<longleftrightarrow> content q = []"
    and enq_inv: "inv q \<Longrightarrow> inv (snd (enq q x))"
    and enq_room: "inv q \<Longrightarrow> room q \<Longrightarrow> 0 \<le> fst (enq q x) \<and> content (snd (enq q x)) = content q @ [x]"
    and enq_full: "inv q \<Longrightarrow> \<not> room q \<Longrightarrow> enq q x = (-1, q)"
    and deq_inv: "inv q \<Longrightarrow> inv (snd (deq q))"
    and deq_empty: "inv q \<Longrightarrow> content q = [] \<Longrightarrow> deq q = (None, q)"
    and deq_next: "inv q \<Longrightarrow> content q = x # xs \<Longrightarrow> fst (deq q) = Some x \<and> content (snd (deq q)) = xs"
    and capacity: "inv q \<Longrightarrow> length (content q) \<le> cap"

datatype 'p q_op = Enq 'p | Deq

text \<open>A run of operations: the packets accepted, the packets delivered, the final queue.\<close>

fun q_run :: "('q \<Rightarrow> 'p \<Rightarrow> int \<times> 'q) \<Rightarrow> ('q \<Rightarrow> 'p option \<times> 'q) \<Rightarrow> 'p q_op list \<Rightarrow> 'q \<Rightarrow> 'p list \<times> 'p list \<times> 'q" where
  "q_run enq deq [] q = ([], [], q)"
| "q_run enq deq (Enq x # ops) q = (case enq q x of (r, q') \<Rightarrow>
     case q_run enq deq ops q' of (acc, del, q'') \<Rightarrow> (if r < 0 then acc else x # acc, del, q''))"
| "q_run enq deq (Deq # ops) q = (case deq q of (out, q') \<Rightarrow>
     case q_run enq deq ops q' of (acc, del, q'') \<Rightarrow>
       (acc, (case out of None \<Rightarrow> del | Some x \<Rightarrow> x # del), q''))"

context bounded_queue begin

lemma run_inv:
  "inv q \<Longrightarrow> q_run enq deq ops q = (acc, del, q') \<Longrightarrow> inv q'"
proof (induction ops arbitrary: q acc del)
  case (Cons op ops)
  show ?case
  proof (cases op)
    case (Enq x)
    with Cons.prems(2) obtain acc1 del1 where "q_run enq deq ops (snd (enq q x)) = (acc1, del1, q')"
      by (auto split: prod.splits)
    with Cons.IH enq_inv [OF Cons.prems(1)] show ?thesis by blast
  next
    case Deq
    with Cons.prems(2) obtain acc1 del1 where "q_run enq deq ops (snd (deq q)) = (acc1, del1, q')"
      by (auto split: prod.splits)
    with Cons.IH deq_inv [OF Cons.prems(1)] show ?thesis by blast
  qed
qed simp

lemma run_fifo:
  "inv q \<Longrightarrow> q_run enq deq ops q = (acc, del, q') \<Longrightarrow> content q @ acc = del @ content q'"
proof (induction ops arbitrary: q acc del)
  case (Cons op ops)
  show ?case
  proof (cases op)
    case (Enq x)
    obtain r q1 where e: "enq q x = (r, q1)" by force
    obtain acc1 del1 where run: "q_run enq deq ops q1 = (acc1, del1, q')"
      and acc: "acc = (if r < 0 then acc1 else x # acc1)" "del = del1"
      using Cons.prems(2) e Enq by (auto split: prod.splits)
    have IH: "content q1 @ acc1 = del1 @ content q'"
      using Cons.IH [OF _ run] enq_inv [OF Cons.prems(1), of x] e by simp
    show ?thesis
      using IH acc e enq_room [OF Cons.prems(1), of x] enq_full [OF Cons.prems(1), of x]
      by (cases "room q") auto
  next
    case Deq
    obtain out q1 where d: "deq q = (out, q1)" by force
    obtain acc1 del1 where run: "q_run enq deq ops q1 = (acc1, del1, q')"
      and acc: "acc = acc1" "del = (case out of None \<Rightarrow> del1 | Some x \<Rightarrow> x # del1)"
      using Cons.prems(2) d Deq by (auto split: prod.splits)
    have IH: "content q1 @ acc1 = del1 @ content q'"
      using Cons.IH [OF _ run] deq_inv [OF Cons.prems(1)] d by simp
    show ?thesis
      using IH acc d deq_empty [OF Cons.prems(1)] deq_next [OF Cons.prems(1)]
      by (cases "content q") auto
  qed
qed simp

lemma run_capacity:
  "inv q \<Longrightarrow> q_run enq deq ops q = (acc, del, q') \<Longrightarrow> length (content q') \<le> cap"
  using run_inv capacity by blast

end

subsection \<open>Both queues satisfy it\<close>

definition tx_content :: "'p tx_queue_t \<Rightarrow> 'p list" where
  "tx_content q = ring_slots (qhead q) (qtail q) (packets q)"

definition tx_inv :: "'p tx_queue_t \<Rightarrow> bool" where
  "tx_inv q \<longleftrightarrow> indices_ok TXQUEUELEN (qhead q) (qtail q)"

definition tx_room :: "'p tx_queue_t \<Rightarrow> bool" where
  "tx_room q \<longleftrightarrow> qtail q < int TXQUEUELEN - 1"

definition aq_content :: "'p active_queue_t \<Rightarrow> 'p list" where
  "aq_content q = ring_slots (aq_head q) (aq_tail q) (aq_program q)"

definition aq_inv :: "'p active_queue_t \<Rightarrow> bool" where
  "aq_inv q \<longleftrightarrow> indices_ok PKTGEN_QUEUELEN (aq_head q) (aq_tail q)"

definition aq_room :: "'p active_queue_t \<Rightarrow> bool" where
  "aq_room q \<longleftrightarrow> aq_tail q < int PKTGEN_QUEUELEN - 1"

definition dequeued_pkt :: "'p tx_queue_t \<Rightarrow> 'p option \<times> 'p tx_queue_t" where
  "dequeued_pkt q = snd (dequeue_pkt q)"

lemma indices_ok_next: "indices_ok len h t \<Longrightarrow> h \<noteq> -1 \<Longrightarrow> h \<noteq> t \<Longrightarrow>
    (h + 1) mod int len = h + 1 \<and> indices_ok len (h + 1) t"
  by (auto simp: indices_ok_def)

lemma indices_ok_grow: "indices_ok len h t \<Longrightarrow> t < int len - 1 \<Longrightarrow>
    (t + 1) mod int len = t + 1 \<and> h \<noteq> t + 1 \<and> indices_ok len (if h = -1 then 0 else h) (t + 1)"
  by (auto simp: indices_ok_def)

lemma enqueue_pkt_room:
  assumes "tx_inv q" "tx_room q"
  shows "enqueue_pkt q x = (qtail q + 1, q\<lparr>qhead := (if qhead q = -1 then 0 else qhead q), qtail := qtail q + 1,
    packets := (packets q)(nat (qtail q + 1) := x)\<rparr>)"
  using assms indices_ok_grow [of TXQUEUELEN "qhead q" "qtail q"]
  by (simp add: enqueue_pkt_def tx_inv_def tx_room_def Let_def)

lemma enqueue_pkt_full:
  "tx_inv q \<Longrightarrow> \<not> tx_room q \<Longrightarrow> enqueue_pkt q x = (-1, q)"
  by (auto simp: enqueue_pkt_def tx_inv_def tx_room_def indices_ok_def)

lemma enqueue_program_room:
  assumes "aq_inv q" "aq_room q"
  shows "enqueue_program q x = (aq_tail q + 1, q\<lparr>aq_head := (if aq_head q = -1 then 0 else aq_head q),
    aq_tail := aq_tail q + 1, aq_program := (aq_program q)(nat (aq_tail q + 1) := x)\<rparr>)"
  using assms indices_ok_grow [of PKTGEN_QUEUELEN "aq_head q" "aq_tail q"]
  by (simp add: enqueue_program_def aq_inv_def aq_room_def Let_def)

lemma enqueue_program_full:
  "aq_inv q \<Longrightarrow> \<not> aq_room q \<Longrightarrow> enqueue_program q x = (-1, q)"
  by (auto simp: enqueue_program_def aq_inv_def aq_room_def indices_ok_def)

interpretation txq: bounded_queue is_queue_empty enqueue_pkt dequeued_pkt tx_content tx_inv tx_room TXQUEUELEN
proof
  fix q :: "'a tx_queue_t" and x :: 'a and xs
  assume inv: "tx_inv q"
  then have ok: "indices_ok TXQUEUELEN (qhead q) (qtail q)" by (simp add: tx_inv_def)
  show "is_queue_empty q \<longleftrightarrow> tx_content q = []"
    by (simp add: slots_empty [OF ok] is_queue_empty_def tx_content_def)
  show "tx_inv (snd (enqueue_pkt q x))"
    using inv indices_ok_grow [OF ok] by (cases "tx_room q")
      (simp_all add: enqueue_pkt_room enqueue_pkt_full, auto simp: tx_inv_def tx_room_def split: if_splits)
  show "0 \<le> fst (enqueue_pkt q x) \<and> tx_content (snd (enqueue_pkt q x)) = tx_content q @ [x]" if "tx_room q"
    using that inv ok slots_append [OF ok, of "packets q" x]
    by (simp add: enqueue_pkt_room tx_content_def) (auto simp: indices_ok_def)
  show "enqueue_pkt q x = (-1, q)" if "\<not> tx_room q"
    using inv that by (rule enqueue_pkt_full)
  show "tx_inv (snd (dequeued_pkt q))"
    using ok indices_ok_next [OF ok]
    by (auto simp: dequeued_pkt_def dequeue_pkt_def tx_inv_def Let_def) (simp add: indices_ok_def)
  show "dequeued_pkt q = (None, q)" if "tx_content q = []"
    using that by (simp add: slots_empty [OF ok] tx_content_def dequeued_pkt_def dequeue_pkt_def)
  show "fst (dequeued_pkt q) = Some x \<and> tx_content (snd (dequeued_pkt q)) = xs" if "tx_content q = x # xs"
  proof -
    have h: "qhead q \<noteq> -1" using that by (auto simp: tx_content_def ring_slots_def)
    then show ?thesis
      using that slots_hd [OF ok h, of "packets q"] indices_ok_next [OF ok h]
      by (auto simp: dequeued_pkt_def dequeue_pkt_def tx_content_def Let_def) (simp_all add: ring_slots_def)
  qed
  show "length (tx_content q) \<le> TXQUEUELEN"
    by (simp add: length_slots [OF ok, simplified] tx_content_def)
qed

interpretation aq: bounded_queue is_active_queue_empty enqueue_program dequeue_program aq_content aq_inv aq_room
  PKTGEN_QUEUELEN
proof
  fix q :: "'a active_queue_t" and x :: 'a and xs
  assume inv: "aq_inv q"
  then have ok: "indices_ok PKTGEN_QUEUELEN (aq_head q) (aq_tail q)" by (simp add: aq_inv_def)
  show "is_active_queue_empty q \<longleftrightarrow> aq_content q = []"
    by (simp add: slots_empty [OF ok] is_active_queue_empty_def aq_content_def)
  show "aq_inv (snd (enqueue_program q x))"
    using inv indices_ok_grow [OF ok] by (cases "aq_room q")
      (simp_all add: enqueue_program_room enqueue_program_full, auto simp: aq_inv_def aq_room_def split: if_splits)
  show "0 \<le> fst (enqueue_program q x) \<and> aq_content (snd (enqueue_program q x)) = aq_content q @ [x]" if "aq_room q"
    using that inv ok slots_append [OF ok, of "aq_program q" x]
    by (simp add: enqueue_program_room aq_content_def) (auto simp: indices_ok_def)
  show "enqueue_program q x = (-1, q)" if "\<not> aq_room q"
    using inv that by (rule enqueue_program_full)
  show "aq_inv (snd (dequeue_program q))"
    using ok indices_ok_next [OF ok]
    by (auto simp: dequeue_program_def aq_inv_def) (simp add: indices_ok_def)
  show "dequeue_program q = (None, q)" if "aq_content q = []"
    using that by (simp add: slots_empty [OF ok] aq_content_def dequeue_program_def)
  show "fst (dequeue_program q) = Some x \<and> aq_content (snd (dequeue_program q)) = xs" if "aq_content q = x # xs"
  proof -
    have h: "aq_head q \<noteq> -1" using that by (auto simp: aq_content_def ring_slots_def)
    then show ?thesis
      using that slots_hd [OF ok h, of "aq_program q"] indices_ok_next [OF ok h]
      by (auto simp: dequeue_program_def aq_content_def) (simp_all add: ring_slots_def)
  qed
  show "length (aq_content q) \<le> PKTGEN_QUEUELEN"
    by (simp add: length_slots [OF ok, simplified] aq_content_def)
qed

lemma init_queue_ok: "tx_inv (init_queue q)" "tx_content (init_queue q) = []"
  by (simp_all add: tx_inv_def tx_content_def init_queue_def indices_ok_def ring_slots_def)

lemma init_active_queue_ok: "aq_inv (init_active_queue q)" "aq_content (init_active_queue q) = []"
  by (simp_all add: aq_inv_def aq_content_def init_active_queue_def indices_ok_def ring_slots_def)



text \<open>
  The program queue of the packet generator has the same contract with its own capacity.
\<close>

theorem active_queue_fifo:
  assumes "q_run enqueue_program dequeue_program ops (init_active_queue q) = (accepted, delivered, q')"
  shows "accepted = delivered @ aq_content q' \<and> length (aq_content q') \<le> PKTGEN_QUEUELEN"
  using aq.run_fifo [OF init_active_queue_ok(1) assms] aq.run_capacity [OF init_active_queue_ok(1) assms]
  by (simp add: init_active_queue_ok(2))

theorem active_queue_fifo_witness:
  "\<exists>q'. q_run enqueue_program dequeue_program [Enq 7, Deq, Deq, Enq (8::nat)]
      (init_active_queue \<lparr>aq_head = 0, aq_tail = 0, aq_program = (\<lambda>_. 0)\<rparr>)
      = ([7, 8], [7], q') \<and> [7, 8] = [7] @ aq_content q'"
proof -
  let ?r = "q_run enqueue_program dequeue_program [Enq 7, Deq, Deq, Enq (8::nat)]
      (init_active_queue \<lparr>aq_head = 0, aq_tail = 0, aq_program = (\<lambda>_. 0)\<rparr>)"
  have "?r = ([7, 8], [7], snd (snd ?r))"
    by (simp add: init_active_queue_def enqueue_program_def dequeue_program_def Let_def)
  then show ?thesis using active_queue_fifo by metis
qed

subsection \<open>The transmit loop\<close>

lemma tx_loop_step_content:
  assumes "tx_inv q" "tx_content q = x # xs"
  shows "tx_loop_step q = (if xs = [] then None else Some x, snd (dequeued_pkt q))"
    "tx_content (snd (dequeued_pkt q)) = xs" "tx_inv (snd (dequeued_pkt q))"
proof -
  have ok: "indices_ok TXQUEUELEN (qhead q) (qtail q)" using assms(1) by (simp add: tx_inv_def)
  have h: "qhead q \<noteq> -1" using assms(2) by (auto simp: tx_content_def ring_slots_def)
  show c: "tx_content (snd (dequeued_pkt q)) = xs" and i: "tx_inv (snd (dequeued_pkt q))"
    using txq.deq_next [OF assms] txq.deq_inv [OF assms(1)] by simp_all
  have "xs = [] \<longleftrightarrow> qhead (snd (dequeued_pkt q)) = -1"
    using txq.empty_law [OF i] c by (simp add: is_queue_empty_def)
  moreover have "fst (dequeued_pkt q) = Some x"
    using txq.deq_next [OF assms] by simp
  moreover have "fst (dequeue_pkt q) = qhead (snd (dequeued_pkt q))"
    using h by (simp add: dequeued_pkt_def dequeue_pkt_def Let_def)
  moreover have "qhead (snd (dequeued_pkt q)) = -1 \<or> 0 \<le> qhead (snd (dequeued_pkt q))"
    using i by (auto simp: tx_inv_def indices_ok_def)
  ultimately show "tx_loop_step q = (if xs = [] then None else Some x, snd (dequeued_pkt q))"
    by (auto simp: tx_loop_step_def dequeued_pkt_def split: prod.splits)
qed

text \<open>
  C27: \<open>dequeue_pkt\<close> returns the new head index, which is \<open>-1\<close> when it has just removed the last
  packet; \<open>tx_loop\<close> takes that for an underflow.  Draining a queue therefore transmits every packet
  except the last one, which is removed from the queue and never sent.
\<close>

theorem tx_loop_drops_last:
  assumes "tx_inv q"
  shows "\<exists>q'. tx_loop (length (tx_content q)) q = (butlast (tx_content q), q') \<and> tx_content q' = []"
  using assms
proof (induction "tx_content q" arbitrary: q)
  case Nil
  then show ?case by simp
next
  case (Cons x xs)
  note step = tx_loop_step_content [OF Cons.prems Cons.hyps(2) [symmetric]]
  obtain q' where "tx_loop (length xs) (snd (dequeued_pkt q)) = (butlast xs, q')" "tx_content q' = []"
    using Cons.hyps(1) [OF step(2) [symmetric] step(3)] step(2) by auto
  then show ?case
    using step(1) Cons.hyps(2) [symmetric] by (cases "xs = []") (auto split: prod.splits)
qed

theorem tx_loop_drops_last_witness:
  "\<exists>q'. tx_loop 2 \<lparr>qhead = 0, qtail = 1, packets = (\<lambda>i. i + 10)\<rparr> = ([10], q') \<and> tx_content q' = []"
proof -
  let ?q = "\<lparr>qhead = 0, qtail = 1, packets = (\<lambda>i. i + 10)\<rparr>"
  have "tx_content ?q = [10, 11]" "tx_inv ?q"
    by (simp_all add: tx_content_def ring_slots_def upto_rec1 tx_inv_def indices_ok_def)
  then show ?thesis using tx_loop_drops_last [of ?q] by (simp add: numeral_2_eq_2)
qed

end
