(* ===== verification/AP4_Types.thy ===== *)
theory AP4_Types
  imports AP4_Prelude
begin

text \<open>
  The data of \<open>include/c/common/activep4.h\<close> and \<open>include/c/dpdk/types.h\<close>: wire headers, switch
  memory images, active programs, the instruction set, the per-application context and the
  function-pointer table an application installs in it.

  Field names carry a short prefix where two C structs share a name.  The function pointers of
  \<open>activep4_context_t\<close> form the record \<open>app_ops\<close>; the context stores a tag \<open>handlers\<close> that
  says which table is installed, because a program may replace its handlers at run time.
\<close>

subsection \<open>Constants\<close>

abbreviation (input) MAXINSTRSET :: nat where "MAXINSTRSET \<equiv> 256"
abbreviation (input) MAXPROGLEN :: nat where "MAXPROGLEN \<equiv> 50"
abbreviation (input) MNEMONIC_MAXLEN :: nat where "MNEMONIC_MAXLEN \<equiv> 50"
abbreviation (input) BUFLEN :: nat where "BUFLEN \<equiv> 128"
abbreviation (input) MAXFILESIZE :: nat where "MAXFILESIZE \<equiv> 1024"
abbreviation (input) ACTIVEP4SIG :: u32 where "ACTIVEP4SIG \<equiv> 0x12345678"
abbreviation (input) AP4_DATA_LEN :: nat where "AP4_DATA_LEN \<equiv> 4"
abbreviation (input) MAX_MEMACCESS :: nat where "MAX_MEMACCESS \<equiv> 8"
abbreviation (input) NUM_STAGES_IG :: nat where "NUM_STAGES_IG \<equiv> 10"
abbreviation (input) NUM_STAGES_EG :: nat where "NUM_STAGES_EG \<equiv> 10"
abbreviation (input) NUM_STAGES :: nat where "NUM_STAGES \<equiv> 20"
abbreviation (input) MAX_DATA :: nat where "MAX_DATA \<equiv> 94208"
abbreviation (input) DEFAULT_TI_US :: int where "DEFAULT_TI_US \<equiv> 1000000"
abbreviation (input) AP4_ETHER_TYPE_AP4 :: u16 where "AP4_ETHER_TYPE_AP4 \<equiv> 0x83B2"
abbreviation (input) RTE_ETHER_TYPE_IPV4 :: u16 where "RTE_ETHER_TYPE_IPV4 \<equiv> 0x0800"
abbreviation (input) IPPROTO_TCP :: u8 where "IPPROTO_TCP \<equiv> 6"
abbreviation (input) IPPROTO_UDP :: u8 where "IPPROTO_UDP \<equiv> 17"

abbreviation (input) AP4FLAGMASK_OPT_ARGS :: u16 where "AP4FLAGMASK_OPT_ARGS \<equiv> 0x8000"
abbreviation (input) AP4FLAGMASK_FLAG_EOE :: u16 where "AP4FLAGMASK_FLAG_EOE \<equiv> 0x0100"
abbreviation (input) AP4FLAGMASK_FLAG_MARKED :: u16 where "AP4FLAGMASK_FLAG_MARKED \<equiv> 0x0800"
abbreviation (input) AP4FLAGMASK_FLAG_REMAPPED :: u16 where "AP4FLAGMASK_FLAG_REMAPPED \<equiv> 0x0040"
abbreviation (input) AP4FLAGMASK_FLAG_ACK :: u16 where "AP4FLAGMASK_FLAG_ACK \<equiv> 0x0200"
abbreviation (input) AP4FLAGMASK_FLAG_INITIATED :: u16 where "AP4FLAGMASK_FLAG_INITIATED \<equiv> 0x0400"
abbreviation (input) AP4FLAGMASK_FLAG_REQALLOC :: u16 where "AP4FLAGMASK_FLAG_REQALLOC \<equiv> 0x0010"
abbreviation (input) AP4FLAGMASK_FLAG_GETALLOC :: u16 where "AP4FLAGMASK_FLAG_GETALLOC \<equiv> 0x0020"
abbreviation (input) AP4FLAGMASK_FLAG_ALLOCATED :: u16 where "AP4FLAGMASK_FLAG_ALLOCATED \<equiv> 0x0008"
abbreviation (input) AP4FLAGMASK_FLAG_PRELOAD :: u16 where "AP4FLAGMASK_FLAG_PRELOAD \<equiv> 0x0001"
abbreviation (input) OPCODE_FLAG_MEMACCESS :: u16 where "OPCODE_FLAG_MEMACCESS \<equiv> 0x0001"

abbreviation (input) ACTIVE_DEFAULT_ARG_MAR :: nat where "ACTIVE_DEFAULT_ARG_MAR \<equiv> 0"
abbreviation (input) ACTIVE_DEFAULT_ARG_MBR :: nat where "ACTIVE_DEFAULT_ARG_MBR \<equiv> 1"
abbreviation (input) ACTIVE_DEFAULT_ARG_MBR2 :: nat where "ACTIVE_DEFAULT_ARG_MBR2 \<equiv> 2"
abbreviation (input) ACTIVE_DEFAULT_ARG_RESULT :: nat where "ACTIVE_DEFAULT_ARG_RESULT \<equiv> 3"

text \<open>The control states, in the order of their numbers.\<close>

datatype active_state =
    TRANSMITTING
  | ALLOCATING
  | INITIALIZING
  | SNAPSHOTTING
  | SNAPCOMPLETING
  | REMAPPING
  | REALLOCATING
  | UPDATING
  | DEALLOCATING
  | DEALLOCWAIT

subsection \<open>Wire headers\<close>

record activep4_ih =
  ih_SIG :: u32
  ih_flags :: u16
  ih_fid :: u16
  ih_seq :: u16

type_synonym activep4_data_t = "u32 arr"

record activep4_instr =
  instr_flags :: u8
  instr_opcode :: u8

record activep4_malloc_req_t =
  req_proglen :: u16
  req_iglim :: u8
  req_mem :: "u8 arr"
  req_dem :: "u8 arr"

record activep4_malloc_block_t =
  blk_start :: u32
  blk_end :: u32

record activep4_malloc_res_t =
  mem_range :: "activep4_malloc_block_t arr"

text \<open>Sizes of the packed structs.\<close>

abbreviation (input) sizeof_eth :: nat where "sizeof_eth \<equiv> 14"
abbreviation (input) sizeof_ih :: nat where "sizeof_ih \<equiv> 10"
abbreviation (input) sizeof_data :: nat where "sizeof_data \<equiv> 16"
abbreviation (input) sizeof_instr :: nat where "sizeof_instr \<equiv> 2"
abbreviation (input) sizeof_malloc_req :: nat where "sizeof_malloc_req \<equiv> 19"
abbreviation (input) sizeof_malloc_res :: nat where "sizeof_malloc_res \<equiv> 160"
abbreviation (input) sizeof_ipv4 :: nat where "sizeof_ipv4 \<equiv> 20"
abbreviation (input) sizeof_udp :: nat where "sizeof_udp \<equiv> 8"
abbreviation (input) sizeof_tcp :: nat where "sizeof_tcp \<equiv> 20"

subsection \<open>Switch memory images\<close>

record memory_stage_t =
  ms_data :: "u32 arr"
  ms_valid :: "u8 arr"
  mem_start :: u32
  mem_end :: u32

record memory_t =
  mem_invalid :: u8
  sync_data :: "memory_stage_t arr"
  valid_stages :: "u8 arr"
  syncmap :: "u8 arr"
  mem_fid :: u16
  mem_version :: u16
  sync_version :: u16
  sync_start_time :: u64
  sync_end_time :: u64
  hash_function :: "nat option"

text \<open>\<open>memset(&mem, 0, sizeof(memory_t))\<close>.\<close>

definition zero_stage :: memory_stage_t where
  "zero_stage = \<lparr>ms_data = (\<lambda>_. 0), ms_valid = (\<lambda>_. 0), mem_start = 0, mem_end = 0\<rparr>"

definition zero_memory :: memory_t where
  "zero_memory = \<lparr>mem_invalid = 0, sync_data = (\<lambda>_. zero_stage), valid_stages = (\<lambda>_. 0),
     syncmap = (\<lambda>_. 0), mem_fid = 0, mem_version = 0, sync_version = 0,
     sync_start_time = 0, sync_end_time = 0, hash_function = None\<rparr>"

subsection \<open>Active programs and the instruction set\<close>

record active_mutant_t =
  mut_code :: "activep4_instr arr"
  mut_proglen :: int

record activep4_def_t =
  pid :: u16
  prog_name :: string
  code :: "activep4_instr arr"
  num_accesses :: nat
  access_idx :: "int arr"
  demand :: "int arr"
  proglen :: nat
  iglim :: int
  mutant :: active_mutant_t

definition zero_instr :: activep4_instr where
  "zero_instr = \<lparr>instr_flags = 0, instr_opcode = 0\<rparr>"

definition zero_def :: activep4_def_t where
  "zero_def = \<lparr>pid = 0, prog_name = [], code = (\<lambda>_. zero_instr), num_accesses = 0,
     access_idx = (\<lambda>_. 0), demand = (\<lambda>_. 0), proglen = 0, iglim = 0,
     mutant = \<lparr>mut_code = (\<lambda>_. zero_instr), mut_proglen = 0\<rparr>\<rparr>"

record opcode_action_map_t =
  mnemonic :: string
  action :: string
  options :: int
  opc_flags :: u16

record pnemonic_opcode_t =
  opc_map :: "opcode_action_map_t arr"
  num_instr :: nat

definition zero_opcode :: opcode_action_map_t where
  "zero_opcode = \<lparr>mnemonic = [], action = [], options = 0, opc_flags = 0\<rparr>"

definition zero_instr_set :: pnemonic_opcode_t where
  "zero_instr_set = \<lparr>opc_map = (\<lambda>_. zero_opcode), num_instr = 0\<rparr>"

subsection \<open>Application contexts\<close>

record active_telemetry_t =
  is_initializing :: bool
  allocation_is_active :: bool
  memwrite_is_active :: bool
  allocation_request_start_ts :: u64
  allocation_request_stop_ts :: u64
  mem_write_start_ts :: u64
  mem_write_stop_ts :: u64

record ('a, 'h) activep4_context_t =
  ctx_id :: nat
  ctx_fid :: int
  active_tx_enabled :: bool
  active_heartbeat_enabled :: bool
  is_active :: bool
  status :: active_state
  active_timer_enabled :: bool
  ctrl_ts_lastsent :: u64
  ctrl_timer_lasttick :: u64
  telemetry :: active_telemetry_t
  instr_set :: pnemonic_opcode_t
  programs :: "activep4_def_t arr"
  num_programs :: nat
  current_pid :: nat
  allocation :: memory_t
  membuf :: memory_t
  is_elastic :: bool
  ctx_data :: activep4_data_t
  ipv4_srcaddr :: u32
  app_context :: 'a
  timer_interval_us :: int
  handlers :: 'h

text \<open>
  The parsed inner packet an application sees: offsets of the headers in the buffer.
\<close>

record inet_pkt_t =
  hdr_ipv4 :: "nat option"
  hdr_udp :: "nat option"
  hdr_tcp :: "nat option"
  payload :: "nat option"
  payload_length :: int

text \<open>
  The function-pointer table.  Every operation that reads the cycle counter receives its value.
  \<open>None\<close> is a null pointer where the runtime tests for one.
\<close>

record ('a, 'h) app_ops =
  op_tx_mux :: "buffer \<Rightarrow> 'a \<Rightarrow> nat \<Rightarrow> 'a \<times> nat"
  op_tx_handler :: "buffer \<Rightarrow> nat \<Rightarrow> activep4_data_t \<Rightarrow> memory_t \<Rightarrow> 'a \<Rightarrow> (activep4_data_t \<times> 'a) c_result"
  op_rx_handler :: "u64 \<Rightarrow> activep4_ih \<Rightarrow> activep4_data_t option \<Rightarrow> inet_pkt_t \<Rightarrow> buffer \<Rightarrow> 'a
     \<Rightarrow> (buffer \<times> 'a) c_result"
  op_memory_consume :: "(u64 \<Rightarrow> memory_t \<Rightarrow> 'a \<Rightarrow> 'a c_result) option"
  op_memory_invalidate :: "memory_t \<Rightarrow> memory_t \<times> bool"
  op_memory_reset :: "(memory_t \<Rightarrow> 'a \<Rightarrow> 'a \<times> bool) option"
  op_timer :: "(u64 \<Rightarrow> ('a, 'h) activep4_context_t \<Rightarrow> ('a, 'h) activep4_context_t c_result) option"
  op_on_allocation :: "(('a, 'h) activep4_context_t \<Rightarrow> ('a, 'h) activep4_context_t) option"

subsection \<open>Runtime configuration (types.h)\<close>

record active_app_stats_t =
  tx_active :: "u32 arr"
  tx_total :: "u32 arr"
  st_ts :: "u64 arr"
  st_ts_ref :: u64
  st_ts_last :: u64
  st_num_samples :: nat

record active_control_state_t =
  snapshotting_in_progress :: int
  remapping_in_progress :: int
  invalidating_in_progress :: int
  current_stage :: int
  current_index :: int
  counter :: u32

record ('a, 'h) active_apps_t =
  num_apps :: nat
  apps_ctxt :: "('a, 'h) activep4_context_t arr"
  apps_stats :: "active_app_stats_t arr"
  apps_app_id :: "u32 arr"

definition TEST_FLAG :: "u16 \<Rightarrow> u16 \<Rightarrow> bool" where
  "TEST_FLAG x y \<longleftrightarrow> (x AND y) > 0"

lemma TEST_FLAG_iff: "TEST_FLAG x y \<longleftrightarrow> x AND y \<noteq> 0"
  by (simp add: TEST_FLAG_def word_gt_0)

text \<open>\<open>memset\<close> of the data and valid arrays of every stage.\<close>

definition clear_stage :: "memory_stage_t \<Rightarrow> memory_stage_t" where
  "clear_stage s = s\<lparr>ms_data := (\<lambda>j. if j < MAX_DATA then 0 else ms_data s j),
     ms_valid := (\<lambda>j. if j < MAX_DATA then 0 else ms_valid s j)\<rparr>"

definition clear_memory_regions :: "memory_t \<Rightarrow> memory_t" where
  "clear_memory_regions m =
     m\<lparr>sync_data := (\<lambda>i. if i < NUM_STAGES then clear_stage (sync_data m i) else sync_data m i)\<rparr>"

text \<open>Zero-initialised telemetry and statistics.\<close>

definition zero_telemetry :: active_telemetry_t where
  "zero_telemetry = \<lparr>is_initializing = False, allocation_is_active = False, memwrite_is_active = False,
     allocation_request_start_ts = 0, allocation_request_stop_ts = 0, mem_write_start_ts = 0, mem_write_stop_ts = 0\<rparr>"

definition zero_app_stats :: active_app_stats_t where
  "zero_app_stats = \<lparr>tx_active = (\<lambda>_. 0), tx_total = (\<lambda>_. 0), st_ts = (\<lambda>_. 0), st_ts_ref = 0, st_ts_last = 0, st_num_samples = 0\<rparr>"

end
