(* ===== verification/AP4_Isa.thy ===== *)
theory AP4_Isa
  imports AP4_Types
begin

text \<open>
  The instruction set and the programs built from it (\<open>activep4.h\<close>): the loaders of the opcode
  map, of compiled programs and of their memory-access index, and the constructors of the
  control-plane programs (\<open>memsync\<close>, \<open>memset\<close>, \<open>nop\<close>, \<open>dummy\<close>).

  The lemmas give each constructed program as a list of mnemonics and locate the memory access
  in it: instruction \<open>i\<close> of a program runs in stage \<open>i\<close> of the switch pipeline.
\<close>

subsection \<open>The C library functions the loaders call\<close>

definition is_space :: "char \<Rightarrow> bool" where
  "is_space c \<longleftrightarrow> c \<in> set [CHR '' '', CHR 0x09, CHR 0x0A, CHR 0x0B, CHR 0x0C, CHR 0x0D]"

definition is_digit :: "char \<Rightarrow> bool" where
  "is_digit c \<longleftrightarrow> 48 \<le> (of_char c :: nat) \<and> (of_char c :: nat) < 58"

fun digits_val :: "int \<Rightarrow> string \<Rightarrow> int" where
  "digits_val acc [] = acc"
| "digits_val acc (c # cs) = (if is_digit c then digits_val (10 * acc + (of_char c - 48)) cs else acc)"

definition atoi :: "string \<Rightarrow> int" where
  "atoi s = (case dropWhile is_space s of
       [] \<Rightarrow> 0
     | c # cs \<Rightarrow> (if c = CHR ''-'' then - digits_val 0 cs
                else if c = CHR ''+'' then digits_val 0 cs
                else digits_val 0 (c # cs)))"

text \<open>One \<open>fgets(buf, m + 1, fp)\<close>: at most \<open>m\<close> characters, up to and including a newline.\<close>

definition fgets_len :: "nat \<Rightarrow> string \<Rightarrow> nat" where
  "fgets_len m s = min m (let k = length (takeWhile (\<lambda>c. c \<noteq> CHR 0x0A) s)
     in if k < length s then Suc k else k)"

function fgets_all :: "nat \<Rightarrow> string \<Rightarrow> string list" where
  "fgets_all m s = (if s = [] \<or> m = 0 then []
     else take (fgets_len m s) s # fgets_all m (drop (fgets_len m s) s))"
  by pat_completeness auto
termination
  by (relation "measure (\<lambda>(m, s). length s)")
    (auto simp: fgets_len_def Let_def min_def neq_Nil_conv split: if_splits)

declare fgets_all.simps [simp del]

text \<open>Repeated \<open>strtok\<close> with one delimiter set.\<close>

function strtok_all :: "char list \<Rightarrow> string \<Rightarrow> string list" where
  "strtok_all ds s = (let s' = dropWhile (\<lambda>c. c \<in> set ds) s in
     if s' = [] then [] else takeWhile (\<lambda>c. c \<notin> set ds) s' #
       strtok_all ds (dropWhile (\<lambda>c. c \<notin> set ds) s'))"
  by pat_completeness auto
termination
proof (relation "measure (\<lambda>(ds, s). length s)", simp)
  fix ds s s'
  assume s': "s' = dropWhile (\<lambda>c. c \<in> set ds) s" "s' \<noteq> []"
  then have "hd s' \<notin> set ds"
    using hd_dropWhile [of "\<lambda>c. c \<in> set ds" s] by simp
  with s'(2) have "length (dropWhile (\<lambda>c. c \<notin> set ds) s') < length s'"
    by (cases s') (auto intro: le_imp_less_Suc length_dropWhile_le)
  also have "length s' \<le> length s"
    using s'(1) by (simp add: length_dropWhile_le)
  finally show "((ds, dropWhile (\<lambda>c. c \<notin> set ds) s'), ds, s) \<in> measure (\<lambda>(ds, s). length s)"
    by simp
qed

declare strtok_all.simps [simp del]

text \<open>A first call with \<open>strtok(buf, ds)\<close>, the following ones with \<open>strtok(NULL, es)\<close>.\<close>

definition strtok_first :: "char list \<Rightarrow> char list \<Rightarrow> string \<Rightarrow> string list" where
  "strtok_first ds es s = (let s' = dropWhile (\<lambda>c. c \<in> set ds) s in
     if s' = [] then [] else takeWhile (\<lambda>c. c \<notin> set ds) s' #
       strtok_all es (drop 1 (dropWhile (\<lambda>c. c \<notin> set ds) s')))"

subsection \<open>Instruction set\<close>

fun pnemonic_search :: "pnemonic_opcode_t \<Rightarrow> string \<Rightarrow> nat list \<Rightarrow> int" where
  "pnemonic_search iset p [] = -1"
| "pnemonic_search iset p (i # is) =
     (if mnemonic (opc_map iset i) = p then int i else pnemonic_search iset p is)"

definition pnemonic_to_opcode :: "pnemonic_opcode_t \<Rightarrow> string \<Rightarrow> int" where
  "pnemonic_to_opcode iset p = pnemonic_search iset p [0..<num_instr iset]"

definition is_memaccess :: "pnemonic_opcode_t \<Rightarrow> u8 \<Rightarrow> bool" where
  "is_memaccess iset opc \<longleftrightarrow> (opc_flags (opc_map iset (unat opc)) AND OPCODE_FLAG_MEMACCESS) \<noteq> 0"

text \<open>The token loop of \<open>read_opcode_action_map\<close> on one line.\<close>

fun opcode_tokens :: "nat \<Rightarrow> string list \<Rightarrow> opcode_action_map_t \<Rightarrow> opcode_action_map_t c_result" where
  "opcode_tokens tokidx [] e = Inr e"
| "opcode_tokens tokidx (tok # toks) e =
     (if is_space (hd tok) then opcode_tokens tokidx toks e
      else if tokidx = 0 then
        (if length tok < MNEMONIC_MAXLEN then opcode_tokens 1 toks (e\<lparr>mnemonic := tok\<rparr>) else Inl OutOfBounds)
      else if tokidx = 1 then
        (if length tok < MNEMONIC_MAXLEN then opcode_tokens 2 toks (e\<lparr>action := tok\<rparr>) else Inl OutOfBounds)
      else opcode_tokens (Suc tokidx) toks (e\<lparr>options := atoi tok\<rparr>))"

definition opcode_line :: "string \<Rightarrow> opcode_action_map_t \<Rightarrow> opcode_action_map_t c_result" where
  "opcode_line line e =
     bind_result (opcode_tokens 0 (strtok_all [CHR '','', CHR 0x0A] line) e)
       (\<lambda>e'. Inr (if take 3 (mnemonic e') = ''MEM''
          then e'\<lparr>opc_flags := opc_flags e' OR OPCODE_FLAG_MEMACCESS\<rparr> else e'))"

fun opcode_lines :: "nat \<Rightarrow> string list \<Rightarrow> pnemonic_opcode_t \<Rightarrow> pnemonic_opcode_t c_result" where
  "opcode_lines i [] iset = Inr (iset\<lparr>num_instr := i\<rparr>)"
| "opcode_lines i (l # ls) iset =
     (if MAXINSTRSET \<le> i then Inl OutOfBounds
      else bind_result (opcode_line l (opc_map iset i))
        (\<lambda>e. opcode_lines (Suc i) ls (iset\<lparr>opc_map := (opc_map iset)(i := e)\<rparr>)))"

definition read_opcode_action_map :: "string option \<Rightarrow> pnemonic_opcode_t \<Rightarrow> pnemonic_opcode_t c_result" where
  "read_opcode_action_map file iset = (case file of
       None \<Rightarrow> Inl AssertFail
     | Some content \<Rightarrow> opcode_lines 0 (fgets_all (BUFLEN - 1) content) iset)"

subsection \<open>Loading compiled programs\<close>

text \<open>
  \<open>stale\<close> is the content of the local buffer \<open>fbuf\<close> before the file is read: an odd file size
  makes the loop read one byte behind the file.
\<close>

function load_code :: "buffer \<Rightarrow> nat \<Rightarrow> nat \<Rightarrow> nat \<Rightarrow> activep4_instr arr \<Rightarrow> activep4_instr arr \<times> nat" where
  "load_code fbuf ap4_size i j c =
     (if i < MAXPROGLEN \<and> j < ap4_size
      then load_code fbuf ap4_size (Suc i) (j + sizeof_instr)
             (c(i := \<lparr>instr_flags = fbuf j, instr_opcode = fbuf (j + 1)\<rparr>))
      else (c, i))"
  by pat_completeness auto
termination
  by (relation "measure (\<lambda>(fbuf, n, i, j, c). MAXPROGLEN - i)") auto

declare load_code.simps [simp del]

definition read_active_program ::
  "activep4_def_t \<Rightarrow> u8 list option \<Rightarrow> buffer \<Rightarrow> (activep4_def_t \<times> nat) c_result" where
  "read_active_program ap4 file stale = (case file of
       None \<Rightarrow> Inl AssertFail
     | Some bytes \<Rightarrow>
         (if bytes = [] then Inl AssertFail
          else if MAXFILESIZE < length bytes then Inl OutOfBounds
          else let (c, n) = load_code (store_bytes 0 bytes stale) (length bytes) 0 0 (code ap4)
               in Inr (ap4\<lparr>code := c, proglen := n\<rparr>, n)))"

definition read_active_memaccess :: "activep4_def_t \<Rightarrow> string option \<Rightarrow> activep4_def_t c_result" where
  "read_active_memaccess ap4 file = (case file of
       None \<Rightarrow> Inl AssertFail
     | Some content \<Rightarrow>
         (let lines = fgets_all 49 content;
              memidx = (case lines of [] \<Rightarrow> [] | l # _ \<Rightarrow>
                 map atoi (strtok_first [CHR '',''] [CHR '','', CHR 0x0A] l));
              lim = (case lines of _ # l # _ \<Rightarrow> atoi l | _ \<Rightarrow> -1);
              n = length memidx
          in if NUM_STAGES < n then Inl OutOfBounds
             else Inr (ap4\<lparr>num_accesses := n, iglim := lim,
                access_idx := (\<lambda>i. if i < n then memidx ! i else access_idx ap4 i),
                demand := (\<lambda>i. if i < n then 1 else demand ap4 i)\<rparr>)))"

text \<open>
  \<open>bin\<close> and \<open>txt\<close> give the content of a file by its path.  The two paths are built in buffers of 100
  characters.
\<close>

definition read_active_function ::
  "(string \<Rightarrow> u8 list option) \<Rightarrow> (string \<Rightarrow> string option) \<Rightarrow> buffer \<Rightarrow> activep4_def_t \<Rightarrow> string \<Rightarrow> string
     \<Rightarrow> activep4_def_t c_result" where
  "read_active_function bin txt stale ap4 active_program_dir active_program_name =
     (let program_path = active_program_dir @ ''/'' @ active_program_name @ ''.apo'';
          memidx_path = active_program_dir @ ''/'' @ active_program_name @ ''.memidx.csv'' in
      if 100 \<le> length memidx_path then Inl OutOfBounds
      else bind_result (read_active_program ap4 (bin program_path) stale)
        (\<lambda>(ap4', n). read_active_memaccess ap4' (txt memidx_path)))"

subsection \<open>Constructing programs\<close>

definition add_instruction ::
  "activep4_def_t \<Rightarrow> pnemonic_opcode_t \<Rightarrow> string \<Rightarrow> activep4_def_t c_result" where
  "add_instruction program iset instr =
     (let opc = pnemonic_to_opcode iset instr in
      if opc < 0 then Inl AssertFail
      else if MAXPROGLEN \<le> proglen program then Inl OutOfBounds
      else Inr (program\<lparr>code := (code program)(proglen program :=
                  \<lparr>instr_flags = 0, instr_opcode = word_of_int opc\<rparr>),
                proglen := Suc (proglen program)\<rparr>))"

text \<open>The loop of \<open>construct_memsync_program\<close>; the result carries \<open>i\<close> and \<open>rts_inserted\<close>.\<close>

function memsync_loop ::
  "pnemonic_opcode_t \<Rightarrow> nat \<Rightarrow> nat \<Rightarrow> bool \<Rightarrow> activep4_def_t \<Rightarrow> (nat \<times> bool \<times> activep4_def_t) c_result" where
  "memsync_loop iset stageId i rts_inserted p =
     (if i < NUM_STAGES - 1 then
        (if stageId \<le> i then
           bind_result (add_instruction p iset ''MEM_READ'')
             (\<lambda>p. bind_result (add_instruction p iset ''MBR_STORE'')
               (\<lambda>p. Inr (i + 2, rts_inserted, p)))
         else if \<not> rts_inserted then
           (case add_instruction p iset ''RTS'' of Inl e \<Rightarrow> Inl e
              | Inr p \<Rightarrow> memsync_loop iset stageId (Suc i) True p)
         else
           (case add_instruction p iset ''NOP'' of Inl e \<Rightarrow> Inl e
              | Inr p \<Rightarrow> memsync_loop iset stageId (Suc i) rts_inserted p))
      else Inr (i, rts_inserted, p))"
  by pat_completeness auto
termination
  by (relation "measure (\<lambda>(iset, s, i, r, p). NUM_STAGES - i)") auto

declare memsync_loop.simps [simp del]

text \<open>
  The result is the updated cache and the index of the program in it (\<open>None\<close> for a null
  pointer).  The guard admits \<open>stageId = NUM_STAGES\<close>, which is outside the cache.
\<close>

definition construct_memsync_program ::
  "int \<Rightarrow> pnemonic_opcode_t \<Rightarrow> activep4_def_t arr \<Rightarrow> (nat option \<times> activep4_def_t arr) c_result" where
  "construct_memsync_program stageId iset cache =
     (if stageId > int NUM_STAGES then Inr (None, cache)
      else if stageId < 0 \<or> stageId = int NUM_STAGES then Inl OutOfBounds
      else let s = nat stageId in
        if proglen (cache s) > 0 then Inr (Some s, cache)
        else bind_result (memsync_loop iset s 0 False (cache s))
          (\<lambda>(i, rts_inserted, p).
            bind_result (if rts_inserted then Inr (i, p)
                else bind_result (add_instruction p iset ''RTS'') (\<lambda>p. Inr (Suc i, p)))
              (\<lambda>(i, p). bind_result (add_instruction p iset ''RETURN'')
                (\<lambda>p. bind_result (add_instruction p iset ''EOF'')
                  (\<lambda>p. Inr (Some s, cache(s := p\<lparr>proglen := i + 2\<rparr>)))))))"

function memset_loop ::
  "pnemonic_opcode_t \<Rightarrow> nat \<Rightarrow> nat \<Rightarrow> activep4_def_t \<Rightarrow> (nat \<times> activep4_def_t) c_result" where
  "memset_loop iset stageId i p =
     (if i < NUM_STAGES - 1 then
        (if i = stageId then
           bind_result (add_instruction p iset ''MEM_WRITE'') (\<lambda>p. Inr (Suc i, p))
         else
           (case add_instruction p iset ''NOP'' of Inl e \<Rightarrow> Inl e
              | Inr p \<Rightarrow> memset_loop iset stageId (Suc i) p))
      else Inr (i, p))"
  by pat_completeness auto
termination
  by (relation "measure (\<lambda>(iset, s, i, p). NUM_STAGES - i)") auto

declare memset_loop.simps [simp del]

definition construct_memset_program ::
  "int \<Rightarrow> pnemonic_opcode_t \<Rightarrow> activep4_def_t arr \<Rightarrow> (nat option \<times> activep4_def_t arr) c_result" where
  "construct_memset_program stageId iset cache =
     (if stageId > int NUM_STAGES then Inr (None, cache)
      else if stageId < 0 \<or> stageId = int NUM_STAGES then Inl OutOfBounds
      else let s = nat stageId in
        if proglen (cache s) > 0 then Inr (Some s, cache)
        else bind_result (memset_loop iset s 0 (cache s))
          (\<lambda>(i, p). bind_result (add_instruction p iset ''RETURN'')
            (\<lambda>p. bind_result (add_instruction p iset ''EOF'')
              (\<lambda>p. Inr (Some s, cache(s := p\<lparr>proglen := i + 2\<rparr>))))))"

definition construct_dummy_program ::
  "activep4_def_t \<Rightarrow> pnemonic_opcode_t \<Rightarrow> activep4_def_t c_result" where
  "construct_dummy_program program iset =
     bind_result (add_instruction program iset ''RTS'')
       (\<lambda>p. bind_result (add_instruction p iset ''RETURN'')
         (\<lambda>p. add_instruction p iset ''EOF''))"

fun nop_loop :: "nat \<Rightarrow> activep4_def_t \<Rightarrow> pnemonic_opcode_t \<Rightarrow> activep4_def_t c_result" where
  "nop_loop 0 p iset = Inr p"
| "nop_loop (Suc n) p iset = bind_result (add_instruction p iset ''NOP'') (\<lambda>p. nop_loop n p iset)"

definition construct_nop_program ::
  "activep4_def_t \<Rightarrow> pnemonic_opcode_t \<Rightarrow> int \<Rightarrow> activep4_def_t c_result" where
  "construct_nop_program program iset len =
     (let len = (if len < 2 then 2 else len) in
      bind_result (nop_loop (nat (len - 2)) program iset)
        (\<lambda>p. bind_result (add_instruction p iset ''RETURN'')
          (\<lambda>p. add_instruction p iset ''EOF'')))"


subsection \<open>Programs as lists of mnemonics\<close>

text \<open>Appending a list of instructions: the specification of the constructors.\<close>

fun add_instructions :: "activep4_def_t \<Rightarrow> pnemonic_opcode_t \<Rightarrow> string list \<Rightarrow> activep4_def_t c_result" where
  "add_instructions p iset [] = Inr p"
| "add_instructions p iset (m # ms) = bind_result (add_instruction p iset m) (\<lambda>p. add_instructions p iset ms)"

definition assembled :: "pnemonic_opcode_t \<Rightarrow> string \<Rightarrow> activep4_instr" where
  "assembled iset m = \<lparr>instr_flags = 0, instr_opcode = word_of_int (pnemonic_to_opcode iset m)\<rparr>"

definition knows :: "pnemonic_opcode_t \<Rightarrow> string list \<Rightarrow> bool" where
  "knows iset ms \<longleftrightarrow> (\<forall>m\<in>set ms. 0 \<le> pnemonic_to_opcode iset m)"

definition code_list :: "activep4_def_t \<Rightarrow> activep4_instr list" where
  "code_list p = map (code p) [0..<proglen p]"

lemma knows_simps [simp]:
  "knows iset []"
  "knows iset (m # ms) \<longleftrightarrow> 0 \<le> pnemonic_to_opcode iset m \<and> knows iset ms"
  "knows iset (ms @ ns) \<longleftrightarrow> knows iset ms \<and> knows iset ns"
  "knows iset (replicate n m) \<longleftrightarrow> n = 0 \<or> 0 \<le> pnemonic_to_opcode iset m"
  by (auto simp: knows_def)

lemma add_instructions_append:
  "add_instructions p iset (ms @ ns) =
     bind_result (add_instructions p iset ms) (\<lambda>p. add_instructions p iset ns)"
  by (induction ms arbitrary: p) (simp_all add: bind_result_assoc)

lemma code_list_add:
  assumes "add_instruction p iset m = Inr q"
  shows "code_list q = code_list p @ [assembled iset m]" "proglen q = Suc (proglen p)"
  using assms
  by (auto simp: add_instruction_def code_list_def assembled_def Let_def split: if_splits)

lemma code_list_add_instructions:
  "add_instructions p iset ms = Inr q \<Longrightarrow>
     code_list q = code_list p @ map (assembled iset) ms \<and> proglen q = proglen p + length ms"
proof (induction ms arbitrary: p)
  case (Cons m ms)
  then obtain p' where "add_instruction p iset m = Inr p'" "add_instructions p' iset ms = Inr q"
    by (auto simp: bind_result_Inr_iff)
  with Cons.IH [of p'] code_list_add [of p iset m p'] show ?case by simp
qed simp

lemma add_instructions_ok:
  "knows iset ms \<Longrightarrow> proglen p + length ms \<le> MAXPROGLEN \<Longrightarrow> \<exists>q. add_instructions p iset ms = Inr q"
proof (induction ms arbitrary: p)
  case (Cons m ms)
  then obtain p' where p': "add_instruction p iset m = Inr p'"
    by (auto simp: add_instruction_def Let_def)
  moreover have "proglen p' = Suc (proglen p)"
    using p' by (rule code_list_add(2))
  ultimately show ?case
    using Cons by auto
qed simp

definition memsync_tail :: "nat \<Rightarrow> string list" where
  "memsync_tail s = (if s < 19 then [''MEM_READ'', ''MBR_STORE''] else [])"

definition memsync_mnemonics :: "nat \<Rightarrow> string list" where
  "memsync_mnemonics s =
     (if s = 0 then [''MEM_READ'', ''MBR_STORE'', ''RTS'']
      else ''RTS'' # replicate (min s (19) - 1) ''NOP'' @ memsync_tail s)
     @ [''RETURN'', ''EOF'']"

definition memset_mnemonics :: "nat \<Rightarrow> string list" where
  "memset_mnemonics s = replicate (min s (19)) ''NOP''
     @ (if s < 19 then [''MEM_WRITE''] else []) @ [''RETURN'', ''EOF'']"

lemma memsync_loop_after_rts:
  "i \<le> min s (19) \<Longrightarrow>
   memsync_loop iset s i True p =
     bind_result (add_instructions p iset (replicate (min s (19) - i) ''NOP'' @ memsync_tail s))
       (\<lambda>p. Inr (min s (19) + length (memsync_tail s), True, p))"
proof (induction "min s (19) - i" arbitrary: i p)
  case 0
  then show ?case
    by (auto simp: memsync_loop.simps [of iset s i] memsync_tail_def bind_result_assoc)
next
  case (Suc n)
  then have i: "i < 19" "\<not> s \<le> i" "n = min s (19) - Suc i"
    and r: "replicate (min s (19) - i) ''NOP'' = ''NOP'' # replicate (min s (19) - Suc i) ''NOP''"
    by (auto simp flip: replicate_Suc intro: arg_cong2 [where f = replicate])
  show ?case
    using Suc.hyps(1) [OF i(3)] Suc.prems i(1,2)
    by (cases "add_instruction p iset ''NOP''")
      (simp_all add: memsync_loop.simps [of iset s i] r del: replicate.simps)
qed

lemma memset_loop_spec:
  "i \<le> min s (19) \<Longrightarrow>
   memset_loop iset s i p =
     bind_result (add_instructions p iset (replicate (min s (19) - i) ''NOP''
         @ (if s < 19 then [''MEM_WRITE''] else [])))
       (\<lambda>p. Inr (min s (19) + (if s < 19 then 1 else 0), p))"
proof (induction "min s (19) - i" arbitrary: i p)
  case 0
  then show ?case
    by (auto simp: memset_loop.simps [of iset s i] bind_result_assoc)
next
  case (Suc n)
  then have i: "i < 19" "i \<noteq> s" "n = min s (19) - Suc i"
    and r: "replicate (min s (19) - i) ''NOP'' = ''NOP'' # replicate (min s (19) - Suc i) ''NOP''"
    by (auto simp flip: replicate_Suc intro: arg_cong2 [where f = replicate])
  show ?case
    using Suc.hyps(1) [OF i(3)] Suc.prems i(1,2)
    by (cases "add_instruction p iset ''NOP''")
      (simp_all add: memset_loop.simps [of iset s i] r del: replicate.simps)
qed

text \<open>Assigning the loop counter to \<open>proglen\<close> at the end changes nothing.\<close>

lemma proglen_update_redundant:
  assumes "proglen p = 0" "n = length ms"
  shows "bind_result (add_instructions p iset ms) (\<lambda>q. f (q\<lparr>proglen := n\<rparr>)) =
    bind_result (add_instructions p iset ms) f"
proof (rule bind_result_cong_Inr)
  fix q
  assume "add_instructions p iset ms = Inr q"
  with assms have "proglen q = n" by (auto dest: code_list_add_instructions)
  then have "q\<lparr>proglen := n\<rparr> = q" by simp
  then show "f (q\<lparr>proglen := n\<rparr>) = f q" by simp
qed

lemma construct_memset_spec:
  assumes "s < NUM_STAGES" "proglen (cache s) = 0"
  shows "construct_memset_program (int s) iset cache =
    bind_result (add_instructions (cache s) iset (memset_mnemonics s)) (\<lambda>p. Inr (Some s, cache(s := p)))"
proof -
  have "construct_memset_program (int s) iset cache =
    bind_result (add_instructions (cache s) iset (memset_mnemonics s))
      (\<lambda>p. Inr (Some s, cache(s := p\<lparr>proglen := length (memset_mnemonics s)\<rparr>)))"
    using assms
    by (simp add: construct_memset_program_def Let_def memset_loop_spec [where i = 0] memset_mnemonics_def
        bind_result_assoc add_instructions_append)
  then show ?thesis
    using proglen_update_redundant [OF assms(2) refl, of iset "memset_mnemonics s" "\<lambda>p. Inr (Some s, cache(s := p))"]
    by simp
qed

lemma construct_memsync_spec:
  assumes "s < NUM_STAGES" "proglen (cache s) = 0"
  shows "construct_memsync_program (int s) iset cache =
    bind_result (add_instructions (cache s) iset (memsync_mnemonics s)) (\<lambda>p. Inr (Some s, cache(s := p)))"
proof -
  have loop: "memsync_loop iset s 0 False p = bind_result (add_instruction p iset ''RTS'')
      (\<lambda>p. memsync_loop iset s 1 True p)" if "0 < s" for p
    using that by (cases "add_instruction p iset ''RTS''") (simp_all add: memsync_loop.simps [of iset s 0])
  have "construct_memsync_program (int s) iset cache =
    bind_result (add_instructions (cache s) iset (memsync_mnemonics s))
      (\<lambda>p. Inr (Some s, cache(s := p\<lparr>proglen := length (memsync_mnemonics s)\<rparr>)))"
  proof (cases "s = 0")
    case True
    with assms show ?thesis
      by (simp add: construct_memsync_program_def Let_def memsync_mnemonics_def bind_result_assoc
          add_instructions_append memsync_loop.simps [of iset 0 0] eval_nat_numeral)
  next
    case False
    then have loop_end: "min s 19 + length (memsync_tail s) + 2 = length (memsync_mnemonics s)"
      by (simp add: memsync_mnemonics_def)
    with False assms show ?thesis
      by (simp add: construct_memsync_program_def Let_def loop memsync_loop_after_rts
          memsync_mnemonics_def bind_result_assoc add_instructions_append)
  qed
  then show ?thesis
    using proglen_update_redundant [OF assms(2) refl, of iset "memsync_mnemonics s" "\<lambda>p. Inr (Some s, cache(s := p))"]
    by simp
qed

lemma add_instructions_from_empty:
  assumes "proglen p = 0" "knows iset ms" "length ms \<le> MAXPROGLEN"
  shows "\<exists>q. add_instructions p iset ms = Inr q \<and> code_list q = map (assembled iset) ms
    \<and> proglen q = length ms"
proof -
  obtain q where q: "add_instructions p iset ms = Inr q"
    using add_instructions_ok [of iset ms p] assms by auto
  moreover have "code_list p = []"
    using assms(1) by (simp add: code_list_def)
  ultimately show ?thesis
    using assms(1) code_list_add_instructions [OF q] by auto
qed

lemma nop_loop_add: "nop_loop n p iset = add_instructions p iset (replicate n ''NOP'')"
  by (induction n arbitrary: p) (auto intro: bind_result_cong_Inr)

lemma construct_nop_spec:
  "construct_nop_program p iset len =
     add_instructions p iset (replicate (nat (len - 2)) ''NOP'' @ [''RETURN'', ''EOF''])"
  by (auto simp: construct_nop_program_def nop_loop_add add_instructions_append Let_def
      bind_result_assoc intro!: bind_result_cong_Inr)

lemma construct_dummy_spec:
  "construct_dummy_program p iset = add_instructions p iset [''RTS'', ''RETURN'', ''EOF'']"
  by (auto simp: construct_dummy_program_def intro!: bind_result_cong_Inr)

subsection \<open>Opcodes are positions in the table\<close>

lemma pnemonic_search_cases:
  "pnemonic_search iset p is = -1 \<and> (\<forall>i\<in>set is. mnemonic (opc_map iset i) \<noteq> p)
   \<or> (\<exists>i\<in>set is. pnemonic_search iset p is = int i \<and> mnemonic (opc_map iset i) = p)"
  by (induction "is") auto

lemma pnemonic_to_opcode_nonneg:
  assumes "0 \<le> pnemonic_to_opcode iset p"
  obtains i where "i < num_instr iset" "pnemonic_to_opcode iset p = int i" "mnemonic (opc_map iset i) = p"
  using assms pnemonic_search_cases [of iset p "[0..<num_instr iset]"]
  by (auto simp: pnemonic_to_opcode_def)

lemma assembled_inj:
  assumes "num_instr iset \<le> MAXINSTRSET" "knows iset [m, n]"
  shows "assembled iset m = assembled iset n \<longleftrightarrow> m = n"
proof
  assume eq: "assembled iset m = assembled iset n"
  obtain i j where ij: "i < num_instr iset" "pnemonic_to_opcode iset m = int i" "mnemonic (opc_map iset i) = m"
    "j < num_instr iset" "pnemonic_to_opcode iset n = int j" "mnemonic (opc_map iset j) = n"
    using assms(2) by (auto elim!: pnemonic_to_opcode_nonneg)
  then have "(of_nat i :: u8) = of_nat j"
    using eq by (simp add: assembled_def)
  then have "i = j"
    using ij assms(1) by (simp add: of_nat_eq_iff unat_of_nat take_bit_nat_eq_self word_of_nat_eq_iff)
  with ij show "m = n" by simp
qed simp

subsection \<open>Reading the opcode table back\<close>

definition opcode_csv_line :: "string \<times> string \<Rightarrow> string" where
  "opcode_csv_line e = fst e @ [CHR '',''] @ snd e @ [CHR 0x0A]"

definition csv_field :: "string \<Rightarrow> bool" where
  "csv_field t \<longleftrightarrow> t \<noteq> [] \<and> length t < MNEMONIC_MAXLEN \<and> \<not> is_space (hd t)
     \<and> CHR '','' \<notin> set t \<and> CHR 0x0A \<notin> set t"

definition opcode_entry :: "string \<times> string \<Rightarrow> opcode_action_map_t" where
  "opcode_entry e = \<lparr>mnemonic = fst e, action = snd e, options = 0,
     opc_flags = (if take 3 (fst e) = ''MEM'' then OPCODE_FLAG_MEMACCESS else 0)\<rparr>"

lemma fgets_len_line:
  assumes "CHR 0x0A \<notin> set b" "length b < m"
  shows "fgets_len m (b @ CHR 0x0A # rest) = Suc (length b)"
proof -
  have "takeWhile (\<lambda>c. c \<noteq> CHR 0x0A) (b @ CHR 0x0A # rest) = b"
    using assms(1) by (induction b) auto
  then show ?thesis
    using assms(2) by (simp add: fgets_len_def Let_def)
qed

lemma fgets_all_lines:
  "\<forall>b\<in>set bs. CHR 0x0A \<notin> set b \<and> length b < m \<Longrightarrow>
   fgets_all m (concat (map (\<lambda>b. b @ [CHR 0x0A]) bs)) = map (\<lambda>b. b @ [CHR 0x0A]) bs"
proof (induction bs)
  case Nil
  show ?case by (simp add: fgets_all.simps)
next
  case (Cons b bs)
  then have "fgets_len m (b @ CHR 0x0A # concat (map (\<lambda>b. b @ [CHR 0x0A]) bs)) = Suc (length b)"
    by (intro fgets_len_line) auto
  moreover have "0 < m" using Cons.prems by auto
  ultimately show ?case
    using Cons by (simp add: fgets_all.simps [of m "b @ _"])
qed

lemma strtok_field:
  assumes "t \<noteq> []" "\<forall>c\<in>set t. c \<notin> set ds" "d \<in> set ds"
  shows "strtok_all ds (t @ d # rest) = t # strtok_all ds rest"
proof -
  have "dropWhile (\<lambda>c. c \<in> set ds) (t @ d # rest) = t @ d # rest"
    using assms by (cases t) auto
  moreover have "takeWhile (\<lambda>c. c \<notin> set ds) (t @ d # rest) = t"
    using assms by (simp add: takeWhile_append2)
  moreover have "dropWhile (\<lambda>c. c \<notin> set ds) (t @ d # rest) = d # rest"
    using assms by (simp add: dropWhile_append2)
  moreover have "strtok_all ds (d # rest) = strtok_all ds rest"
    using assms(3) by (simp add: strtok_all.simps [of ds "d # rest"] strtok_all.simps [of ds rest])
  ultimately show ?thesis
    by (subst strtok_all.simps) (simp add: Let_def)
qed

lemma csv_field_sep: "csv_field t \<Longrightarrow> \<forall>c\<in>set t. c \<notin> set [CHR '','', CHR 0x0A]"
  by (auto simp: csv_field_def)

lemma opcode_line_csv:
  assumes "csv_field m" "csv_field a"
  shows "opcode_line (opcode_csv_line (m, a)) zero_opcode = Inr (opcode_entry (m, a))"
proof -
  have "strtok_all [CHR '','', CHR 0x0A] (opcode_csv_line (m, a)) = [m, a]"
    using strtok_field [OF _ csv_field_sep [OF assms(1)], of "CHR '',''" "a @ [CHR 0x0A]"]
      strtok_field [OF _ csv_field_sep [OF assms(2)], of "CHR 0x0A" "[]"] assms
    by (simp add: opcode_csv_line_def csv_field_def strtok_all.simps [of _ "[]"])
  then show ?thesis
    using assms by (auto simp: opcode_line_def csv_field_def opcode_entry_def zero_opcode_def)
qed

lemma opcode_lines_csv:
  assumes "\<forall>e\<in>set es. csv_field (fst e) \<and> csv_field (snd e)" "i + length es \<le> MAXINSTRSET"
    "\<forall>k\<ge>i. opc_map iset k = zero_opcode"
  shows "opcode_lines i (map opcode_csv_line es) iset =
    Inr (iset\<lparr>opc_map := (\<lambda>k. if i \<le> k \<and> k < i + length es then opcode_entry (es ! (k - i)) else opc_map iset k),
      num_instr := i + length es\<rparr>)"
  using assms
proof (induction es arbitrary: i iset)
  case Nil
  have "(\<lambda>k. if i \<le> k \<and> k < i + length [] then opcode_entry ([] ! (k - i)) else opc_map iset k) = opc_map iset"
    by (auto simp: fun_eq_iff)
  then show ?case by simp
next
  case (Cons e es)
  obtain m a where e: "e = (m, a)" by (cases e)
  let ?iset = "iset\<lparr>opc_map := (opc_map iset)(i := opcode_entry e)\<rparr>"
  have "opcode_lines i (map opcode_csv_line (e # es)) iset = opcode_lines (Suc i) (map opcode_csv_line es) ?iset"
    using Cons.prems e by (simp add: opcode_line_csv)
  also have "\<dots> = Inr (?iset\<lparr>opc_map := (\<lambda>k. if Suc i \<le> k \<and> k < Suc i + length es
      then opcode_entry (es ! (k - Suc i)) else opc_map ?iset k), num_instr := Suc i + length es\<rparr>)"
    using Cons.prems by (intro Cons.IH) auto
  also have "(\<lambda>k. if Suc i \<le> k \<and> k < Suc i + length es then opcode_entry (es ! (k - Suc i)) else opc_map ?iset k)
    = (\<lambda>k. if i \<le> k \<and> k < i + length (e # es) then opcode_entry ((e # es) ! (k - i)) else opc_map iset k)"
    by (auto simp: fun_eq_iff nth_Cons' Suc_diff_Suc)
  finally show ?case by simp
qed

lemma read_opcode_csv:
  assumes "\<forall>e\<in>set es. csv_field (fst e) \<and> csv_field (snd e)" "length es \<le> MAXINSTRSET"
  shows "read_opcode_action_map (Some (concat (map opcode_csv_line es))) zero_instr_set =
    Inr \<lparr>opc_map = (\<lambda>i. if i < length es then opcode_entry (es ! i) else zero_opcode), num_instr = length es\<rparr>"
proof -
  let ?bs = "map (\<lambda>e. fst e @ [CHR '',''] @ snd e) es"
  have lines: "map opcode_csv_line es = map (\<lambda>b. b @ [CHR 0x0A]) ?bs"
    by (simp add: opcode_csv_line_def)
  have "\<forall>b\<in>set ?bs. CHR 0x0A \<notin> set b \<and> length b < BUFLEN - 1"
    using assms(1) by (fastforce simp: csv_field_def)
  then have "fgets_all (BUFLEN - 1) (concat (map opcode_csv_line es)) = map opcode_csv_line es"
    unfolding lines by (rule fgets_all_lines)
  then show ?thesis
    using opcode_lines_csv [OF assms(1), of 0 zero_instr_set] assms(2)
    by (simp add: read_opcode_action_map_def zero_instr_set_def fun_eq_iff)
qed

lemma pnemonic_search_unique:
  assumes "k \<in> set is" "distinct is" "\<forall>j\<in>set is. mnemonic (opc_map iset j) = p \<longleftrightarrow> j = k"
  shows "pnemonic_search iset p is = int k"
  using assms by (induction "is") auto

lemma pnemonic_to_opcode_unique:
  assumes "k < num_instr iset" "\<forall>j<num_instr iset. mnemonic (opc_map iset j) = p \<longleftrightarrow> j = k"
  shows "pnemonic_to_opcode iset p = int k"
  using assms pnemonic_search_unique [of k "[0..<num_instr iset]" iset p]
  by (simp add: pnemonic_to_opcode_def)

subsection \<open>Compiled programs read back\<close>

definition instr_bytes :: "activep4_instr \<Rightarrow> u8 list" where
  "instr_bytes i = [instr_flags i, instr_opcode i]"

lemma load_code_spec:
  assumes "j = 2 * i" "\<forall>k<length is. fbuf (2 * (i + k)) = instr_flags (is ! k) \<and> fbuf (2 * (i + k) + 1) = instr_opcode (is ! k)"
    "n = 2 * (i + length is)"
  shows "load_code fbuf n i j c =
    ((\<lambda>k. if i \<le> k \<and> k < i + length is \<and> k < MAXPROGLEN then is ! (k - i) else c k), max i (min MAXPROGLEN (i + length is)))"
  using assms
proof (induction "is" arbitrary: i j c)
  case Nil
  then show ?case
    by (auto simp: load_code.simps [of _ _ i] fun_eq_iff)
next
  case (Cons x xs)
  have x: "\<lparr>instr_flags = fbuf (2 * i), instr_opcode = fbuf (2 * i + 1)\<rparr> = x"
    using Cons.prems(2) [rule_format, of 0] by simp
  have xs: "\<forall>k<length xs. fbuf (2 * (Suc i + k)) = instr_flags (xs ! k) \<and> fbuf (2 * (Suc i + k) + 1) = instr_opcode (xs ! k)"
    using Cons.prems(2) by (metis Suc_less_eq add_Suc_shift length_Cons nth_Cons_Suc)
  show ?case
  proof (cases "i < MAXPROGLEN")
    case True
    have "load_code fbuf n i j c = load_code fbuf n (Suc i) (2 * Suc i) (c(i := x))"
      using Cons.prems(1,3) True x by (simp add: load_code.simps [of _ _ i])
    also have "\<dots> = ((\<lambda>k. if Suc i \<le> k \<and> k < Suc i + length xs \<and> k < MAXPROGLEN then xs ! (k - Suc i) else (c(i := x)) k),
        max (Suc i) (min MAXPROGLEN (Suc i + length xs)))"
      using Cons.prems(3) by (intro Cons.IH [OF _ xs]) auto
    also have "\<dots> = ((\<lambda>k. if i \<le> k \<and> k < i + length (x # xs) \<and> k < MAXPROGLEN then (x # xs) ! (k - i) else c k),
        max i (min MAXPROGLEN (i + length (x # xs))))"
      using True by (auto simp: fun_eq_iff nth_Cons' Suc_diff_Suc)
    finally show ?thesis .
  next
    case False
    then show ?thesis by (auto simp: load_code.simps [of _ _ i] fun_eq_iff)
  qed
qed

lemma nth_instr_bytes:
  "k < length is \<Longrightarrow> concat (map instr_bytes is) ! (2 * k) = instr_flags (is ! k)
     \<and> concat (map instr_bytes is) ! (Suc (2 * k)) = instr_opcode (is ! k)"
proof (induction "is" arbitrary: k)
  case (Cons x xs)
  then show ?case by (cases k) (simp_all add: instr_bytes_def)
qed simp

lemma length_instr_bytes [simp]: "length (concat (map instr_bytes is)) = 2 * length is"
  by (induction "is") (simp_all add: instr_bytes_def)

lemma load_code_bytes:
  "load_code (store_bytes 0 (concat (map instr_bytes is)) stale) (2 * length is) 0 0 c =
     ((\<lambda>k. if k < length is \<and> k < MAXPROGLEN then is ! k else c k), min MAXPROGLEN (length is))"
proof -
  have "\<forall>k<length is. store_bytes 0 (concat (map instr_bytes is)) stale (2 * (0 + k)) = instr_flags (is ! k)
      \<and> store_bytes 0 (concat (map instr_bytes is)) stale (2 * (0 + k) + 1) = instr_opcode (is ! k)"
    by (auto simp: store_bytes_def nth_instr_bytes)
  then show ?thesis
    using load_code_spec [of 0 0 "is" _ "2 * length is" c] by (simp cong: if_cong)
qed

text \<open>
  Loading a compiled program (pairs of flag and opcode bytes, as the assembler writes them)
  yields exactly its instructions, cut at \<open>MAXPROGLEN\<close>; the length returned is the length stored,
  and everything else of the definition is kept, whatever the local buffer held before.
\<close>

theorem read_active_program_roundtrip:
  assumes "is \<noteq> []" "2 * length is \<le> MAXFILESIZE"
  shows "\<exists>ap4'. read_active_program ap4 (Some (concat (map instr_bytes is))) stale
      = Inr (ap4', proglen ap4') \<and> code_list ap4' = take MAXPROGLEN is
    \<and> ap4' = ap4\<lparr>code := code ap4', proglen := proglen ap4'\<rparr>"
proof -
  have ne: "concat (map instr_bytes is) \<noteq> []"
    using assms(1) by (cases "is") (auto simp: instr_bytes_def)
  let ?c = "\<lambda>k. if k < length is \<and> k < MAXPROGLEN then is ! k else code ap4 k"
  let ?n = "min MAXPROGLEN (length is)"
  have "map ?c [0..<?n] = take MAXPROGLEN is"
    by (rule nth_equalityI) auto
  then show ?thesis
    using assms(2) ne unfolding read_active_program_def
    by (intro exI [of _ "ap4\<lparr>code := ?c, proglen := ?n\<rparr>"])
      (simp add: load_code_bytes code_list_def del: length_concat)
qed

subsection \<open>A small instruction set for the examples\<close>

definition demo_mnemonics :: "string list" where
  "demo_mnemonics = [''EOF'', ''NOP'', ''RETURN'', ''RTS'', ''MEM_READ'', ''MEM_WRITE'', ''MBR_STORE'']"

definition demo_iset :: pnemonic_opcode_t where
  "demo_iset = \<lparr>opc_map = (\<lambda>i. if i < length demo_mnemonics then opcode_entry (demo_mnemonics ! i, ''act'')
     else zero_opcode), num_instr = length demo_mnemonics\<rparr>"

lemma demo_iset_opcodes [simp]:
  "pnemonic_to_opcode demo_iset ''EOF'' = 0"
  "pnemonic_to_opcode demo_iset ''NOP'' = 1"
  "pnemonic_to_opcode demo_iset ''RETURN'' = 2"
  "pnemonic_to_opcode demo_iset ''RTS'' = 3"
  "pnemonic_to_opcode demo_iset ''MEM_READ'' = 4"
  "pnemonic_to_opcode demo_iset ''MEM_WRITE'' = 5"
  "pnemonic_to_opcode demo_iset ''MBR_STORE'' = 6"
  "num_instr demo_iset = 7"
  by (simp_all add: demo_iset_def demo_mnemonics_def pnemonic_to_opcode_def opcode_entry_def
      upt_rec nth_Cons' eval_nat_numeral)

theorem read_active_program_roundtrip_witness:
  "\<exists>ap4'. read_active_program zero_def (Some [0, 4, 1, 0]) (\<lambda>_. 7) = Inr (ap4', proglen ap4')
     \<and> code_list ap4' = [\<lparr>instr_flags = 0, instr_opcode = 4\<rparr>, \<lparr>instr_flags = 1, instr_opcode = 0\<rparr>]
     \<and> ap4' = zero_def\<lparr>code := code ap4', proglen := proglen ap4'\<rparr>"
  using read_active_program_roundtrip [of "[\<lparr>instr_flags = 0, instr_opcode = 4\<rparr>, \<lparr>instr_flags = 1, instr_opcode = 0\<rparr>]"
      zero_def "\<lambda>_. 7"] by (simp add: instr_bytes_def)

subsection \<open>The control-plane programs\<close>

lemma assembled_at:
  assumes "num_instr iset \<le> MAXINSTRSET" "knows iset (m # ms)" "code_list p = map (assembled iset) ms" "i < proglen p"
  shows "code p i = assembled iset m \<longleftrightarrow> ms ! i = m"
proof -
  have "length ms = proglen p"
    using assms(3) by (metis code_list_def length_map length_upt diff_zero)
  then have "code p i = assembled iset (ms ! i)" "ms ! i \<in> set ms"
    using assms(3,4) by (auto simp: code_list_def list_eq_iff_nth_eq)
  then show ?thesis
    using assms(1,2) assembled_inj [of iset "ms ! i" m] by (auto simp: knows_def)
qed

lemma memsync_read_position:
  "s < NUM_STAGES \<Longrightarrow> i < length (memsync_mnemonics s) \<Longrightarrow>
     memsync_mnemonics s ! i = ''MEM_READ'' \<longleftrightarrow> i = s \<and> s < 19"
  by (auto simp: memsync_mnemonics_def memsync_tail_def nth_append nth_Cons' less_Suc_eq split: if_splits)

lemma memset_write_position:
  "s < NUM_STAGES \<Longrightarrow> i < length (memset_mnemonics s) \<Longrightarrow>
     memset_mnemonics s ! i = ''MEM_WRITE'' \<longleftrightarrow> i = s \<and> s < 19"
  by (auto simp: memset_mnemonics_def nth_append nth_Cons' less_Suc_eq split: if_splits)

definition sync_mnemonics :: "string list" where
  "sync_mnemonics = [''MEM_READ'', ''MEM_WRITE'', ''MBR_STORE'', ''RTS'', ''NOP'', ''RETURN'', ''EOF'']"

lemma knows_sync:
  "knows iset sync_mnemonics \<Longrightarrow> knows iset (''MEM_READ'' # memsync_mnemonics s)"
  "knows iset sync_mnemonics \<Longrightarrow> knows iset (''MEM_WRITE'' # memset_mnemonics s)"
  by (auto simp: sync_mnemonics_def memsync_mnemonics_def memset_mnemonics_def memsync_tail_def)

lemma length_sync_mnemonics:
  "s < NUM_STAGES \<Longrightarrow> length (memsync_mnemonics s) \<le> 24"
  "s < NUM_STAGES \<Longrightarrow> length (memset_mnemonics s) \<le> 24"
  by (auto simp: memsync_mnemonics_def memset_mnemonics_def memsync_tail_def)

lemma construct_memsync_ok:
  assumes "s < NUM_STAGES" "proglen (cache s) = 0" "num_instr iset \<le> MAXINSTRSET" "knows iset sync_mnemonics"
  shows "\<exists>p. construct_memsync_program (int s) iset cache = Inr (Some s, cache(s := p))
    \<and> proglen p \<le> MAXPROGLEN \<and> code_list p = map (assembled iset) (memsync_mnemonics s)
    \<and> 0 < proglen p \<and> proglen p = length (memsync_mnemonics s)"
proof -
  obtain p where p: "add_instructions (cache s) iset (memsync_mnemonics s) = Inr p"
    "code_list p = map (assembled iset) (memsync_mnemonics s)" "proglen p = length (memsync_mnemonics s)"
    using add_instructions_from_empty [of "cache s" iset "memsync_mnemonics s"] assms(1,2)
      knows_sync(1) [OF assms(4), of s] length_sync_mnemonics(1) [of s] by auto
  then show ?thesis
    using construct_memsync_spec [of s cache iset] assms length_sync_mnemonics(1) [of s]
    by (intro exI [of _ p]) (simp add: memsync_mnemonics_def)
qed

lemma construct_memset_ok:
  assumes "s < NUM_STAGES" "proglen (cache s) = 0" "num_instr iset \<le> MAXINSTRSET" "knows iset sync_mnemonics"
  shows "\<exists>p. construct_memset_program (int s) iset cache = Inr (Some s, cache(s := p))
    \<and> proglen p \<le> MAXPROGLEN \<and> code_list p = map (assembled iset) (memset_mnemonics s)
    \<and> 0 < proglen p \<and> proglen p = length (memset_mnemonics s)"
proof -
  obtain p where p: "add_instructions (cache s) iset (memset_mnemonics s) = Inr p"
    "code_list p = map (assembled iset) (memset_mnemonics s)" "proglen p = length (memset_mnemonics s)"
    using add_instructions_from_empty [of "cache s" iset "memset_mnemonics s"] assms(1,2)
      knows_sync(2) [OF assms(4), of s] length_sync_mnemonics(2) [of s] by auto
  then show ?thesis
    using construct_memset_spec [of s cache iset] assms length_sync_mnemonics(2) [of s]
    by (intro exI [of _ p]) (simp add: memset_mnemonics_def)
qed

text \<open>
  For every stage the memory-read program is built without running off the program buffer;
  its read instruction is at the index of the stage and nowhere else, so it executes in that stage
  of the pipeline.  The exception is stage 19, whose program contains no read at all.  A second
  request returns the cached program unchanged.
\<close>

theorem memsync_program_correct:
  assumes "s < NUM_STAGES" "proglen (cache s) = 0" "num_instr iset \<le> MAXINSTRSET" "knows iset sync_mnemonics"
  shows "\<exists>p. construct_memsync_program (int s) iset cache = Inr (Some s, cache(s := p))
    \<and> proglen p \<le> MAXPROGLEN
    \<and> code_list p = map (assembled iset) (memsync_mnemonics s)
    \<and> (\<forall>i<proglen p. code p i = assembled iset ''MEM_READ'' \<longleftrightarrow> i = s \<and> s < NUM_STAGES - 1)
    \<and> construct_memsync_program (int s) iset (cache(s := p)) = Inr (Some s, cache(s := p))"
proof -
  obtain p where p: "construct_memsync_program (int s) iset cache = Inr (Some s, cache(s := p))"
    "proglen p \<le> MAXPROGLEN" "code_list p = map (assembled iset) (memsync_mnemonics s)" "0 < proglen p"
    "proglen p = length (memsync_mnemonics s)"
    using construct_memsync_ok [where s = s and cache = cache, OF assms] by blast
  moreover have "\<forall>i<proglen p. code p i = assembled iset ''MEM_READ'' \<longleftrightarrow> i = s \<and> s < NUM_STAGES - 1"
    using assembled_at [OF assms(3) knows_sync(1) [OF assms(4)] p(3)] memsync_read_position [OF assms(1)] p(5) by simp
  ultimately show ?thesis
    using assms(1) by (intro exI [of _ p]) (simp add: construct_memsync_program_def)
qed

theorem memsync_program_correct_witness:
  "\<exists>p. construct_memsync_program 3 demo_iset (\<lambda>_. zero_def) = Inr (Some 3, (\<lambda>_. zero_def)(3 := p))
    \<and> proglen p \<le> MAXPROGLEN
    \<and> code_list p = map (assembled demo_iset) [''RTS'', ''NOP'', ''NOP'', ''MEM_READ'', ''MBR_STORE'', ''RETURN'', ''EOF'']"
proof -
  have "memsync_mnemonics 3 = [''RTS'', ''NOP'', ''NOP'', ''MEM_READ'', ''MBR_STORE'', ''RETURN'', ''EOF'']"
    by (simp add: memsync_mnemonics_def memsync_tail_def eval_nat_numeral)
  then show ?thesis
    using memsync_program_correct [of 3 "\<lambda>_. zero_def" demo_iset]
    by (auto simp: zero_def_def sync_mnemonics_def)
qed

text \<open>
  The memory-write program of a stage has its write at the index of the stage and nowhere
  else (again except stage 19), fits the program buffer, and is cached.
\<close>

theorem memset_program_correct:
  assumes "s < NUM_STAGES" "proglen (cache s) = 0" "num_instr iset \<le> MAXINSTRSET" "knows iset sync_mnemonics"
  shows "\<exists>p. construct_memset_program (int s) iset cache = Inr (Some s, cache(s := p))
    \<and> proglen p \<le> MAXPROGLEN
    \<and> code_list p = map (assembled iset) (memset_mnemonics s)
    \<and> (\<forall>i<proglen p. code p i = assembled iset ''MEM_WRITE'' \<longleftrightarrow> i = s \<and> s < NUM_STAGES - 1)
    \<and> construct_memset_program (int s) iset (cache(s := p)) = Inr (Some s, cache(s := p))"
proof -
  obtain p where p: "construct_memset_program (int s) iset cache = Inr (Some s, cache(s := p))"
    "proglen p \<le> MAXPROGLEN" "code_list p = map (assembled iset) (memset_mnemonics s)" "0 < proglen p"
    "proglen p = length (memset_mnemonics s)"
    using construct_memset_ok [where s = s and cache = cache, OF assms] by blast
  moreover have "\<forall>i<proglen p. code p i = assembled iset ''MEM_WRITE'' \<longleftrightarrow> i = s \<and> s < NUM_STAGES - 1"
    using assembled_at [OF assms(3) knows_sync(2) [OF assms(4)] p(3)] memset_write_position [OF assms(1)] p(5) by simp
  ultimately show ?thesis
    using assms(1) by (intro exI [of _ p]) (simp add: construct_memset_program_def)
qed

theorem memset_program_correct_witness:
  "\<exists>p. construct_memset_program 2 demo_iset (\<lambda>_. zero_def) = Inr (Some 2, (\<lambda>_. zero_def)(2 := p))
    \<and> proglen p \<le> MAXPROGLEN
    \<and> code_list p = map (assembled demo_iset) [''NOP'', ''NOP'', ''MEM_WRITE'', ''RETURN'', ''EOF'']"
proof -
  have "memset_mnemonics 2 = [''NOP'', ''NOP'', ''MEM_WRITE'', ''RETURN'', ''EOF'']"
    by (simp add: memset_mnemonics_def eval_nat_numeral)
  then show ?thesis
    using memset_program_correct [of 2 "\<lambda>_. zero_def" demo_iset]
    by (auto simp: zero_def_def sync_mnemonics_def)
qed

text \<open>
  Reading the opcode map written as \<open>mnemonic,action\<close> lines gives one entry per line in file
  order, marks exactly the mnemonics that start with \<open>MEM\<close> as memory accesses, and makes the line
  number of a mnemonic its opcode when mnemonics are distinct.
\<close>

theorem read_opcode_action_map_roundtrip:
  assumes "\<forall>e\<in>set es. csv_field (fst e) \<and> csv_field (snd e)" "length es \<le> MAXINSTRSET" "distinct (map fst es)"
  shows "\<exists>iset. read_opcode_action_map (Some (concat (map opcode_csv_line es))) zero_instr_set = Inr iset
    \<and> num_instr iset = length es
    \<and> (\<forall>i<length es. opc_map iset i = opcode_entry (es ! i)
         \<and> pnemonic_to_opcode iset (fst (es ! i)) = int i
         \<and> (is_memaccess iset (of_nat i) \<longleftrightarrow> take 3 (fst (es ! i)) = ''MEM''))"
proof -
  let ?iset = "\<lparr>opc_map = (\<lambda>i. if i < length es then opcode_entry (es ! i) else zero_opcode), num_instr = length es\<rparr>"
  have "pnemonic_to_opcode ?iset (fst (es ! i)) = int i" if "i < length es" for i
    using that assms(3) by (intro pnemonic_to_opcode_unique) (auto simp: opcode_entry_def distinct_conv_nth)
  moreover have "is_memaccess ?iset (of_nat i) \<longleftrightarrow> take 3 (fst (es ! i)) = ''MEM''" if "i < length es" for i
  proof -
    have "unat (of_nat i :: u8) = i"
      using that assms(2) by (simp add: unat_of_nat take_bit_nat_eq_self)
    then show ?thesis using that by (simp add: is_memaccess_def opcode_entry_def)
  qed
  ultimately show ?thesis
    using read_opcode_csv [OF assms(1,2)] by auto
qed

theorem read_opcode_action_map_roundtrip_witness:
  "\<exists>iset. read_opcode_action_map (Some (''EOF,skip'' @ [CHR 0x0A] @ ''MEM_READ,mem_read'' @ [CHR 0x0A])) zero_instr_set = Inr iset
    \<and> num_instr iset = 2 \<and> pnemonic_to_opcode iset ''MEM_READ'' = 1
    \<and> is_memaccess iset 1 \<and> \<not> is_memaccess iset 0"
proof -
  have "\<forall>e\<in>set [(''EOF'', ''skip''), (''MEM_READ'', ''mem_read'')]. csv_field (fst e) \<and> csv_field (snd e)"
    by (simp add: csv_field_def is_space_def)
  from read_opcode_action_map_roundtrip [OF this] show ?thesis
    by (auto simp: opcode_csv_line_def nth_Cons' less_Suc_eq_0_disj all_conj_distrib dest!: spec [of _ 1] spec [of _ 0])
qed

end
