(* ===== verification/AP4_Mutate.thy ===== *)
theory AP4_Mutate
  imports AP4_Isa
begin

text \<open>
  Program mutation (\<open>activep4.h\<close>): a program is compiled once, with its memory accesses at fixed
  instruction indices; when the switch grants memory in other stages, \<open>mutate_active_program\<close>
  shifts the instructions right, filling the gaps with \<open>NOP\<close>, so that every access lands in a
  granted stage.  The theory also holds the demand setters of a context.
\<close>

subsection \<open>Model\<close>

definition get_memory_stage_id :: "int \<Rightarrow> int" where
  "get_memory_stage_id idx =
     (if idx < int NUM_STAGES then idx
      else (idx - int NUM_STAGES_IG) mod int NUM_STAGES_EG + int NUM_STAGES_IG)"

definition normalized_stage :: "int \<Rightarrow> int" where
  "normalized_stage idx =
     (if idx < int NUM_STAGES_IG then idx else idx mod int NUM_STAGES_EG + int NUM_STAGES_IG)"

definition mutation_not_required :: "activep4_def_t \<Rightarrow> memory_t \<Rightarrow> bool" where
  "mutation_not_required ap4 memcfg \<longleftrightarrow>
     (\<forall>i\<in>set [0..<num_accesses ap4]. valid_stages memcfg (nat (normalized_stage (access_idx ap4 i))) \<noteq> 0)"

definition allocated_stages :: "memory_t \<Rightarrow> nat list" where
  "allocated_stages memcfg = filter (\<lambda>i. valid_stages memcfg i = 1) [0..<NUM_STAGES]"

definition access_idx_allocated :: "memory_t \<Rightarrow> nat \<Rightarrow> int" where
  "access_idx_allocated memcfg j =
     (if j < length (allocated_stages memcfg) then int (allocated_stages memcfg ! j) else 0)"

text \<open>The loop that computes \<open>increase\<close>; its last argument lists the instruction indices to visit.\<close>

fun mutation_increase ::
  "pnemonic_opcode_t \<Rightarrow> activep4_def_t \<Rightarrow> memory_t \<Rightarrow> nat \<Rightarrow> int \<Rightarrow> nat list \<Rightarrow> int" where
  "mutation_increase iset ap4 memcfg allocIdx increase [] = increase"
| "mutation_increase iset ap4 memcfg allocIdx increase (i # is) =
     (if num_accesses ap4 \<le> allocIdx then increase
      else if is_memaccess iset (instr_opcode (code ap4 i)) then
        (let delta = access_idx_allocated memcfg allocIdx - get_memory_stage_id (int i) - increase;
             delta = (if delta < 0 then delta + int (NUM_STAGES - NUM_STAGES_IG) else delta)
         in mutation_increase iset ap4 memcfg (Suc allocIdx) (increase + delta) is)
      else mutation_increase iset ap4 memcfg allocIdx increase is)"

text \<open>Copying single instructions to their shifted position, in the order given.\<close>

fun copy_code ::
  "activep4_def_t \<Rightarrow> int \<Rightarrow> int list \<Rightarrow> activep4_instr arr \<Rightarrow> activep4_instr arr c_result" where
  "copy_code ap4 offset [] c = Inr c"
| "copy_code ap4 offset (i # is) c =
     (if 0 \<le> i \<and> i < int MAXPROGLEN \<and> 0 \<le> i + offset \<and> i + offset < int MAXPROGLEN
      then copy_code ap4 offset is (c(nat (i + offset) := code ap4 (nat i)))
      else Inl OutOfBounds)"

definition access_offset :: "activep4_def_t \<Rightarrow> memory_t \<Rightarrow> nat \<Rightarrow> int" where
  "access_offset ap4 memcfg j =
     (let offset = access_idx_allocated memcfg j - get_memory_stage_id (access_idx ap4 j)
      in if offset < 0 then offset + int (NUM_STAGES - NUM_STAGES_IG) else offset)"

fun place_blocks ::
  "activep4_def_t \<Rightarrow> memory_t \<Rightarrow> nat \<Rightarrow> int \<Rightarrow> activep4_instr arr \<Rightarrow> activep4_instr arr c_result" where
  "place_blocks ap4 memcfg 0 block_end c = Inr c"
| "place_blocks ap4 memcfg (Suc j) block_end c =
     bind_result (copy_code ap4 (access_offset ap4 memcfg j) (rev [access_idx ap4 j..block_end]) c)
       (place_blocks ap4 memcfg j (access_idx ap4 j - 1))"

definition nop_filled :: "int \<Rightarrow> u8 \<Rightarrow> activep4_instr arr" where
  "nop_filled len nop = (\<lambda>i. if int i < len then \<lparr>instr_flags = 0, instr_opcode = nop\<rparr> else zero_instr)"

text \<open>
  The build without \<open>RECIRC_ENABLED\<close> (the default).  The write-only array \<open>allocation_map\<close> is
  left out.
\<close>

definition mutate_active_program ::
  "activep4_def_t \<Rightarrow> memory_t \<Rightarrow> u8 \<Rightarrow> pnemonic_opcode_t \<Rightarrow> activep4_def_t c_result" where
  "mutate_active_program ap4 memcfg NOP_OPCODE iset =
     (if NUM_STAGES < num_accesses ap4 \<or> (\<exists>i\<in>set [0..<num_accesses ap4]. access_idx ap4 i < 0)
      then Inl OutOfBounds
      else if mutation_not_required ap4 memcfg then Inr ap4
      else let j = length (allocated_stages memcfg) in
        if j \<noteq> num_accesses ap4 then Inl AssertFail
        else if MAXPROGLEN < proglen ap4 then Inl OutOfBounds
        else let len = int (proglen ap4) + mutation_increase iset ap4 memcfg 0 0 [0..<proglen ap4] in
          if int MAXPROGLEN < len then Inl AssertFail
          else bind_result (place_blocks ap4 memcfg j (int (proglen ap4) - 1) (nop_filled len NOP_OPCODE))
            (\<lambda>c. bind_result (copy_code ap4 0 [0..access_idx ap4 0 - 1] c)
              (\<lambda>c. Inr (ap4\<lparr>mutant := \<lparr>mut_code = c, mut_proglen = len\<rparr>\<rparr>))))"

text \<open>\<open>programs[current_pid]\<close> is updated in place.\<close>

definition update_current_program ::
  "('a, 'h) activep4_context_t \<Rightarrow> (activep4_def_t \<Rightarrow> activep4_def_t) \<Rightarrow> ('a, 'h) activep4_context_t" where
  "update_current_program ctxt f =
     ctxt\<lparr>programs := (programs ctxt)(current_pid ctxt := f (programs ctxt (current_pid ctxt)))\<rparr>"

abbreviation current_program :: "('a, 'h) activep4_context_t \<Rightarrow> activep4_def_t" where
  "current_program ctxt \<equiv> programs ctxt (current_pid ctxt)"

definition set_memory_demand ::
  "('a, 'h) activep4_context_t \<Rightarrow> int \<Rightarrow> ('a, 'h) activep4_context_t" where
  "set_memory_demand ctxt dem =
     update_current_program (ctxt\<lparr>is_elastic := \<not> dem > 1\<rparr>)
       (\<lambda>p. p\<lparr>demand := (\<lambda>i. if i < num_accesses p then dem else demand p i)\<rparr>)"

definition set_memory_demand_per_stage ::
  "('a, 'h) activep4_context_t \<Rightarrow> int arr \<Rightarrow> ('a, 'h) activep4_context_t" where
  "set_memory_demand_per_stage ctxt dem =
     (update_current_program ctxt
       (\<lambda>p. p\<lparr>demand := (\<lambda>i. if i < num_accesses p then dem i else demand p i)\<rparr>))
     \<lparr>is_elastic := \<not> (\<exists>i\<in>set [0..<num_accesses (current_program ctxt)]. dem i > 1)\<rparr>"

definition set_memory_allocation ::
  "('a, 'h) activep4_context_t \<Rightarrow> memory_t \<Rightarrow> ('a, 'h) activep4_context_t" where
  "set_memory_allocation ctxt alloc = ctxt\<lparr>allocation := alloc\<rparr>"

subsection \<open>Stages\<close>

lemma normalized_stage_eq: "0 \<le> idx \<Longrightarrow> normalized_stage idx = get_memory_stage_id idx"
  by (simp add: normalized_stage_def get_memory_stage_id_def) presburger

lemma get_memory_stage_id_range: "0 \<le> idx \<Longrightarrow> 0 \<le> get_memory_stage_id idx \<and> get_memory_stage_id idx < int NUM_STAGES"
  by (auto simp: get_memory_stage_id_def)

text \<open>The shift by \<open>access_offset\<close> brings an access to the granted stage.\<close>

lemma shifted_stage:
  assumes "0 \<le> idx" "0 \<le> st" "st < int NUM_STAGES" "get_memory_stage_id idx \<le> st \<or> int NUM_STAGES_IG \<le> st"
    "off = st - get_memory_stage_id idx + (if st < get_memory_stage_id idx then 10 else 0)"
  shows "get_memory_stage_id (idx + off) = st"
proof (cases "idx < 20")
  case True
  have "st mod 10 + 10 = st" if "10 \<le> st"
    using that assms(3) by presburger
  with True show ?thesis
    using assms by (auto simp: get_memory_stage_id_def split: if_splits)
next
  case False
  then have "get_memory_stage_id (idx + off) = (idx + off - 10) mod 10 + 10"
    using assms by (auto simp: get_memory_stage_id_def)
  moreover have "10 \<le> st"
    using False assms(4) by (auto simp: get_memory_stage_id_def)
  moreover have "(idx + off - 10) mod 10 = st - 10"
  proof -
    define q where "q = (idx - 10) div 10 + (if st < get_memory_stage_id idx then 1 else 0)"
    have "get_memory_stage_id idx = idx - 10 * ((idx - 10) div 10)"
      using False by (simp add: get_memory_stage_id_def minus_mult_div_eq_mod [symmetric])
    then have "idx + off - 10 = (st - 10) + 10 * q"
      using assms(5) by (simp add: q_def)
    then have "(idx + off - 10) mod 10 = (st - 10) mod 10" by simp
    also have "\<dots> = st - 10" using \<open>10 \<le> st\<close> assms(3) by (intro mod_pos_pos_trivial) auto
    finally show ?thesis .
  qed
  ultimately show ?thesis by simp
qed

lemma allocated_stages_lt:
  assumes "k < length (allocated_stages memcfg)"
  shows "0 \<le> access_idx_allocated memcfg k" "access_idx_allocated memcfg k < int NUM_STAGES"
    "valid_stages memcfg (nat (access_idx_allocated memcfg k)) = 1"
proof -
  have "allocated_stages memcfg ! k \<in> set (allocated_stages memcfg)"
    using assms by (rule nth_mem)
  then show "0 \<le> access_idx_allocated memcfg k" "access_idx_allocated memcfg k < int NUM_STAGES"
    "valid_stages memcfg (nat (access_idx_allocated memcfg k)) = 1"
    using assms by (simp_all only: access_idx_allocated_def if_True nat_int of_nat_less_iff)
      (auto simp: allocated_stages_def)
qed

subsection \<open>Copying\<close>

lemma copy_code_spec:
  assumes "\<forall>i\<in>set is. 0 \<le> i \<and> i < int MAXPROGLEN \<and> 0 \<le> i + off \<and> i + off < int MAXPROGLEN"
  shows "copy_code ap4 off is c =
    Inr (\<lambda>p. if int p - off \<in> set is then code ap4 (nat (int p - off)) else c p)"
  using assms by (induction "is" arbitrary: c) (auto simp: fun_eq_iff)

text \<open>How far instruction \<open>i\<close> moves: by the offset of the last access at or before it.\<close>

fun shift :: "activep4_def_t \<Rightarrow> memory_t \<Rightarrow> nat \<Rightarrow> int \<Rightarrow> int" where
  "shift ap4 memcfg 0 i = 0"
| "shift ap4 memcfg (Suc j) i =
     (if access_idx ap4 j \<le> i then access_offset ap4 memcfg j else shift ap4 memcfg j i)"

lemma shift_le:
  assumes "\<forall>k<j. access_offset ap4 memcfg k \<le> b" "0 \<le> b"
  shows "shift ap4 memcfg j i \<le> b"
  using assms by (induction j) (simp_all add: less_Suc_eq)

lemma shift_before:
  "\<forall>k<j. i < access_idx ap4 k \<Longrightarrow> shift ap4 memcfg j i = 0"
  by (induction j) (auto simp: less_Suc_eq)

lemma place_blocks_spec:
  assumes "\<forall>k<j. 0 \<le> access_idx ap4 k \<and> 0 \<le> access_offset ap4 memcfg k"
    "\<forall>l<j. \<forall>k\<le>l. access_offset ap4 memcfg k \<le> access_offset ap4 memcfg l"
    "\<forall>l<j. \<forall>k<l. access_idx ap4 k < access_idx ap4 l"
    "be < int MAXPROGLEN" "\<forall>k<j. access_idx ap4 k \<le> be + 1 \<and> be + access_offset ap4 memcfg k < int MAXPROGLEN"
  shows "\<exists>c'. place_blocks ap4 memcfg j be c = Inr c'
    \<and> (\<forall>i. (\<exists>k<j. access_idx ap4 k \<le> i) \<and> i \<le> be \<longrightarrow> c' (nat (i + shift ap4 memcfg j i)) = code ap4 (nat i))
    \<and> (\<forall>p. (\<forall>i. (\<exists>k<j. access_idx ap4 k \<le> i) \<and> i \<le> be \<longrightarrow> int p \<noteq> i + shift ap4 memcfg j i) \<longrightarrow> c' p = c p)"
  using assms
proof (induction j arbitrary: be c)
  case 0
  then show ?case by simp
next
  case (Suc j)
  let ?x = "access_idx ap4" and ?o = "access_offset ap4 memcfg" and ?s = "shift ap4 memcfg"
  define c1 where "c1 = (\<lambda>p. if int p - ?o j \<in> set (rev [?x j..be]) then code ap4 (nat (int p - ?o j)) else c p)"
  have copy: "copy_code ap4 (?o j) (rev [?x j..be]) c = Inr c1"
  proof -
    have "0 \<le> ?x j" "0 \<le> ?o j" "be + ?o j < int MAXPROGLEN"
      using Suc.prems(1,5) by auto
    then show ?thesis
      unfolding c1_def using Suc.prems(4) by (intro copy_code_spec) auto
  qed
  have "\<exists>c'. place_blocks ap4 memcfg j (?x j - 1) c1 = Inr c'
    \<and> (\<forall>i. (\<exists>k<j. ?x k \<le> i) \<and> i \<le> ?x j - 1 \<longrightarrow> c' (nat (i + ?s j i)) = code ap4 (nat i))
    \<and> (\<forall>p. (\<forall>i. (\<exists>k<j. ?x k \<le> i) \<and> i \<le> ?x j - 1 \<longrightarrow> int p \<noteq> i + ?s j i) \<longrightarrow> c' p = c1 p)"
  proof (intro Suc.IH)
    show "\<forall>k<j. 0 \<le> ?x k \<and> 0 \<le> ?o k" "\<forall>l<j. \<forall>k\<le>l. ?o k \<le> ?o l" "\<forall>l<j. \<forall>k<l. ?x k < ?x l"
      using Suc.prems(1-3) by simp_all
    have "?x j \<le> be + 1" using Suc.prems(5) by simp
    then show "?x j - 1 < int MAXPROGLEN" using Suc.prems(4) by simp
    show "\<forall>k<j. ?x k \<le> ?x j - 1 + 1 \<and> ?x j - 1 + ?o k < int MAXPROGLEN"
    proof (intro allI impI)
      fix k assume "k < j"
      then have "?x k < ?x j" "be + ?o k < int MAXPROGLEN"
        using Suc.prems(3,5) by simp_all
      with \<open>?x j \<le> be + 1\<close> show "?x k \<le> ?x j - 1 + 1 \<and> ?x j - 1 + ?o k < int MAXPROGLEN"
        by linarith
    qed
  qed
  then obtain c' where c': "place_blocks ap4 memcfg j (?x j - 1) c1 = Inr c'"
    "\<And>i k. k < j \<Longrightarrow> ?x k \<le> i \<Longrightarrow> i \<le> ?x j - 1 \<Longrightarrow> c' (nat (i + ?s j i)) = code ap4 (nat i)"
    "\<And>p. (\<And>i k. k < j \<Longrightarrow> ?x k \<le> i \<Longrightarrow> i \<le> ?x j - 1 \<Longrightarrow> int p \<noteq> i + ?s j i) \<Longrightarrow> c' p = c1 p"
    by metis
  have s_le: "?s j i \<le> ?o j" for i
    using Suc.prems(1,2) by (intro shift_le) auto
  have hit: "c' (nat (i + ?o j)) = code ap4 (nat i)" if "?x j \<le> i" "i \<le> be" for i
  proof -
    have nn: "0 \<le> i + ?o j" using that Suc.prems(1) by fastforce
    have "c' (nat (i + ?o j)) = c1 (nat (i + ?o j))"
    proof (rule c'(3))
      fix i' k assume "i' \<le> ?x j - 1"
      then show "int (nat (i + ?o j)) \<noteq> i' + ?s j i'"
        using s_le [of i'] that nn by simp
    qed
    then show ?thesis using that nn by (simp add: c1_def)
  qed
  have low: "c' (nat (i + ?s j i)) = code ap4 (nat i)" if "k < Suc j" "?x k \<le> i" "i < ?x j" for i k
    using that c'(2) [of k i] by (auto simp: less_Suc_eq)
  have miss: "c' p = c p" if p: "\<forall>i. (\<exists>k<Suc j. ?x k \<le> i) \<and> i \<le> be \<longrightarrow> int p \<noteq> i + ?s (Suc j) i" for p
  proof -
    have "c' p = c1 p"
    proof (rule c'(3))
      fix i k assume i: "k < j" "?x k \<le> i" "i \<le> ?x j - 1"
      moreover have "i \<le> be"
        using i(3) Suc.prems(5) [rule_format, of j] by simp
      moreover have "\<exists>k<Suc j. ?x k \<le> i"
        using i by (meson less_SucI)
      ultimately show "int p \<noteq> i + ?s j i"
        using p [rule_format, of i] by simp
    qed
    also have "\<dots> = c p"
    proof (cases "?x j \<le> int p - ?o j \<and> int p - ?o j \<le> be")
      case True
      then show ?thesis using p [rule_format, of "int p - ?o j"] by (simp add: exI [of _ j])
    qed (auto simp: c1_def)
    finally show ?thesis .
  qed
  show ?case
    using copy c'(1) hit low miss by (intro exI [of _ c']) auto
qed

subsection \<open>Feasible allocations\<close>

text \<open>
  What the allocator must grant for the mutation to succeed: one stage per access, in order, each
  reachable from the compiled position by a shift that does not decrease along the program.
\<close>

definition feasible_mutation :: "pnemonic_opcode_t \<Rightarrow> activep4_def_t \<Rightarrow> memory_t \<Rightarrow> bool" where
  "feasible_mutation iset ap4 memcfg \<longleftrightarrow>
     (let n = num_accesses ap4 in
      0 < n \<and> n \<le> NUM_STAGES \<and> length (allocated_stages memcfg) = n
      \<and> (\<forall>k\<in>set [0..<n]. 0 \<le> access_idx ap4 k \<and> access_idx ap4 k < int (proglen ap4))
      \<and> (\<forall>l\<in>set [0..<n]. \<forall>k\<in>set [0..<l]. access_idx ap4 k < access_idx ap4 l
            \<and> access_offset ap4 memcfg k \<le> access_offset ap4 memcfg l)
      \<and> (\<forall>i\<in>set [0..<proglen ap4]. int i \<le> access_idx ap4 (n - 1) \<longrightarrow>
            (is_memaccess iset (instr_opcode (code ap4 i)) \<longleftrightarrow> int i \<in> access_idx ap4 ` set [0..<n]))
      \<and> (\<forall>k\<in>set [0..<n]. 0 \<le> access_offset ap4 memcfg k
            \<and> (get_memory_stage_id (access_idx ap4 k) \<le> access_idx_allocated memcfg k
               \<or> int NUM_STAGES_IG \<le> access_idx_allocated memcfg k))
      \<and> int (proglen ap4) + access_offset ap4 memcfg (n - 1) \<le> int MAXPROGLEN)"

lemma feasibleD:
  assumes "feasible_mutation iset ap4 memcfg"
  shows "0 < num_accesses ap4" "num_accesses ap4 \<le> NUM_STAGES"
    "length (allocated_stages memcfg) = num_accesses ap4"
    "\<And>k. k < num_accesses ap4 \<Longrightarrow> 0 \<le> access_idx ap4 k \<and> access_idx ap4 k < int (proglen ap4)"
    "\<And>k l. k < l \<Longrightarrow> l < num_accesses ap4 \<Longrightarrow> access_idx ap4 k < access_idx ap4 l"
    "\<And>k l. k \<le> l \<Longrightarrow> l < num_accesses ap4 \<Longrightarrow> access_offset ap4 memcfg k \<le> access_offset ap4 memcfg l"
    "\<And>i. i < proglen ap4 \<Longrightarrow> int i \<le> access_idx ap4 (num_accesses ap4 - 1) \<Longrightarrow>
       is_memaccess iset (instr_opcode (code ap4 i)) \<longleftrightarrow> (\<exists>k<num_accesses ap4. int i = access_idx ap4 k)"
    "\<And>k. k < num_accesses ap4 \<Longrightarrow> 0 \<le> access_offset ap4 memcfg k"
    "\<And>k. k < num_accesses ap4 \<Longrightarrow> get_memory_stage_id (access_idx ap4 k) \<le> access_idx_allocated memcfg k
       \<or> int NUM_STAGES_IG \<le> access_idx_allocated memcfg k"
    "int (proglen ap4) + access_offset ap4 memcfg (num_accesses ap4 - 1) \<le> int MAXPROGLEN"
proof -
  note f = assms [unfolded feasible_mutation_def Let_def set_upt atLeast0LessThan lessThan_iff Ball_def]
  show "0 < num_accesses ap4" "num_accesses ap4 \<le> NUM_STAGES"
    "length (allocated_stages memcfg) = num_accesses ap4"
    "int (proglen ap4) + access_offset ap4 memcfg (num_accesses ap4 - 1) \<le> int MAXPROGLEN"
    using f by blast+
  show "0 \<le> access_idx ap4 k \<and> access_idx ap4 k < int (proglen ap4)" "0 \<le> access_offset ap4 memcfg k"
    "get_memory_stage_id (access_idx ap4 k) \<le> access_idx_allocated memcfg k
       \<or> int NUM_STAGES_IG \<le> access_idx_allocated memcfg k" if "k < num_accesses ap4" for k
    using f that by blast+
  show "access_idx ap4 k < access_idx ap4 l" if "k < l" "l < num_accesses ap4" for k l
    using f that by blast
  show "access_offset ap4 memcfg k \<le> access_offset ap4 memcfg l" if "k \<le> l" "l < num_accesses ap4" for k l
    using f that by (cases "k = l") (simp, meson nat_less_le)
  show "is_memaccess iset (instr_opcode (code ap4 i)) \<longleftrightarrow> (\<exists>k<num_accesses ap4. int i = access_idx ap4 k)"
    if "i < proglen ap4" "int i \<le> access_idx ap4 (num_accesses ap4 - 1)" for i
  proof -
    have "is_memaccess iset (instr_opcode (code ap4 i)) \<longleftrightarrow> int i \<in> access_idx ap4 ` {..<num_accesses ap4}"
      using f that by blast
    then show ?thesis by auto
  qed
qed

lemma mutation_increase_access:
  assumes "is_memaccess iset (instr_opcode (code ap4 i))" "k < num_accesses ap4" "int i = access_idx ap4 k"
    "increase \<le> access_offset ap4 memcfg k" "0 \<le> increase"
  shows "mutation_increase iset ap4 memcfg k increase (i # is) =
    mutation_increase iset ap4 memcfg (Suc k) (access_offset ap4 memcfg k) is"
  using assms by (auto simp: access_offset_def Let_def algebra_simps split: if_splits)

text \<open>The increase computed by the scan is the offset of the last access.\<close>

lemma mutation_increase_spec:
  assumes f: "feasible_mutation iset ap4 memcfg"
    and "i \<le> proglen ap4" "k \<le> num_accesses ap4"
    and "\<forall>l<k. access_idx ap4 l < int i" "\<forall>l. k \<le> l \<and> l < num_accesses ap4 \<longrightarrow> int i \<le> access_idx ap4 l"
  shows "mutation_increase iset ap4 memcfg k (if k = 0 then 0 else access_offset ap4 memcfg (k - 1)) [i..<proglen ap4]
    = access_offset ap4 memcfg (num_accesses ap4 - 1)"
  using assms(2-)
proof (induction "proglen ap4 - i" arbitrary: i k)
  case 0
  then have "k = num_accesses ap4"
    using feasibleD(4) [OF f, of k] by (cases "k < num_accesses ap4") auto
  with 0 feasibleD(1) [OF f] show ?case by simp
next
  case (Suc d)
  let ?n = "num_accesses ap4" and ?o = "access_offset ap4 memcfg" and ?x = "access_idx ap4"
  let ?inc = "if k = 0 then 0 else ?o (k - 1)"
  have cons: "[i..<proglen ap4] = i # [Suc i..<proglen ap4]" and d: "d = proglen ap4 - Suc i"
    using Suc.hyps(2) by (simp_all add: upt_rec)
  show ?case
  proof (cases "k = ?n")
    case True
    then show ?thesis using feasibleD(1) [OF f] cons by simp
  next
    case False
    then have k: "k < ?n" and xk: "int i \<le> ?x k" using Suc.prems by auto
    have "?x k \<le> ?x (?n - 1)"
    proof (cases "k < ?n - 1")
      case False
      then have "k = ?n - 1" using k by simp
      then show ?thesis by simp
    qed (use feasibleD(5) [OF f, of k "?n - 1"] k in simp)
    with xk have le: "int i \<le> ?x (?n - 1)" by simp
    have mem: "is_memaccess iset (instr_opcode (code ap4 i)) \<longleftrightarrow> int i = ?x k"
    proof -
      have "l = k" if "l < ?n" "int i = ?x l" for l
        using that Suc.prems(3) xk feasibleD(5) [OF f, of k l] k
        by (metis leD linorder_neqE_nat order_less_irrefl)
      then show ?thesis
        using feasibleD(7) [OF f, of i] le Suc.hyps(2) k by auto
    qed
    show ?thesis
    proof (cases "int i = ?x k")
      case True
      have inc: "?inc \<le> ?o k" "0 \<le> ?inc"
        using feasibleD(6) [OF f, of "k - 1" k] feasibleD(8) [OF f, of k] feasibleD(8) [OF f, of "k - 1"] k by auto
      then have "mutation_increase iset ap4 memcfg k ?inc [i..<proglen ap4]
        = mutation_increase iset ap4 memcfg (Suc k) (?o k) [Suc i..<proglen ap4]"
        unfolding cons using mem True k by (intro mutation_increase_access) auto
      also have "\<dots> = ?o (?n - 1)"
      proof -
        have "\<forall>l<Suc k. ?x l < int (Suc i)"
          using Suc.prems(3) True by (auto simp: less_Suc_eq)
        moreover have "\<forall>l. Suc k \<le> l \<and> l < ?n \<longrightarrow> int (Suc i) \<le> ?x l"
        proof (intro allI impI)
          fix l assume "Suc k \<le> l \<and> l < ?n"
          then have "?x k < ?x l" using feasibleD(5) [OF f, of k l] by simp
          with True show "int (Suc i) \<le> ?x l" by simp
        qed
        ultimately show ?thesis
          using Suc.hyps(1) [OF d, of "Suc k"] k Suc.hyps(2) by simp
      qed
      finally show ?thesis .
    next
      case False
      then have "mutation_increase iset ap4 memcfg k ?inc [i..<proglen ap4]
        = mutation_increase iset ap4 memcfg k ?inc [Suc i..<proglen ap4]"
        using cons mem k by simp
      also have "\<dots> = ?o (?n - 1)"
      proof (rule Suc.hyps(1) [OF d])
        show "\<forall>l. k \<le> l \<and> l < ?n \<longrightarrow> int (Suc i) \<le> ?x l"
        proof (intro allI impI)
          fix l assume l: "k \<le> l \<and> l < ?n"
          have "?x k \<le> ?x l"
            using feasibleD(5) [OF f, of k l] l by (cases "k = l") auto
          with False xk show "int (Suc i) \<le> ?x l" by simp
        qed
      qed (use Suc.prems Suc.hyps(2) in auto)
      finally show ?thesis .
    qed
  qed
qed

lemma shift_mono:
  assumes "\<forall>l<j. \<forall>k\<le>l. access_offset ap4 memcfg k \<le> access_offset ap4 memcfg l"
    "\<forall>k<j. 0 \<le> access_offset ap4 memcfg k" "i \<le> i'"
  shows "shift ap4 memcfg j i \<le> shift ap4 memcfg j i'"
  using assms by (induction j) (auto intro!: shift_le)

lemma shift_nonneg:
  "\<forall>k<j. 0 \<le> access_offset ap4 memcfg k \<Longrightarrow> 0 \<le> shift ap4 memcfg j i"
  by (induction j) auto

lemma shift_access:
  assumes "\<forall>l<j. \<forall>k<l. access_idx ap4 k < access_idx ap4 l" "k < j"
  shows "shift ap4 memcfg j (access_idx ap4 k) = access_offset ap4 memcfg k"
  using assms
proof (induction j)
  case (Suc j)
  show ?case
  proof (cases "k = j")
    case False
    then have "access_idx ap4 k < access_idx ap4 j" "shift ap4 memcfg j (access_idx ap4 k) = access_offset ap4 memcfg k"
      using Suc by simp_all
    then show ?thesis by simp
  qed simp
qed simp

lemma access_lands:
  assumes f: "feasible_mutation iset ap4 memcfg" and k: "k < num_accesses ap4"
  shows "get_memory_stage_id (access_idx ap4 k + access_offset ap4 memcfg k) = access_idx_allocated memcfg k"
  using feasibleD(4,9) [OF f k] allocated_stages_lt [of k memcfg] k feasibleD(3) [OF f]
  by (intro shifted_stage) (auto simp: access_offset_def Let_def)

lemma mutate_succeeds:
  assumes f: "feasible_mutation iset ap4 memcfg" and m: "\<not> mutation_not_required ap4 memcfg"
  defines "n \<equiv> num_accesses ap4"
  defines "len \<equiv> int (proglen ap4) + access_offset ap4 memcfg (n - 1)"
  shows "\<exists>c. mutate_active_program ap4 memcfg nop iset = Inr (ap4\<lparr>mutant := \<lparr>mut_code = c, mut_proglen = len\<rparr>\<rparr>)
    \<and> (\<forall>i. 0 \<le> i \<and> i < int (proglen ap4) \<longrightarrow> c (nat (i + shift ap4 memcfg n i)) = code ap4 (nat i))
    \<and> (\<forall>p. (\<forall>i. 0 \<le> i \<and> i < int (proglen ap4) \<longrightarrow> int p \<noteq> i + shift ap4 memcfg n i) \<longrightarrow> c p = nop_filled len nop p)"
proof -
  let ?x = "access_idx ap4" and ?o = "access_offset ap4 memcfg" and ?s = "shift ap4 memcfg n"
  note F = feasibleD [OF f, folded n_def]
  have nn: "\<forall>k<n. 0 \<le> ?o k" using F(8) by simp
  have len: "mutation_increase iset ap4 memcfg 0 0 [0..<proglen ap4] = ?o (n - 1)"
    using mutation_increase_spec [OF f, of 0 0] F(4) by (simp add: n_def)
  have pl: "proglen ap4 \<le> 50" using F(1,10) nn [rule_format, of "n - 1"] by simp
  have x0: "?x 0 \<le> ?x k" if "k < n" for k
    using F(5) [of 0 k] that by (cases k) auto
  have **: "\<exists>c'. place_blocks ap4 memcfg n (int (proglen ap4) - 1) (nop_filled len nop) = Inr c'
    \<and> (\<forall>i. (\<exists>k<n. ?x k \<le> i) \<and> i \<le> int (proglen ap4) - 1 \<longrightarrow> c' (nat (i + ?s i)) = code ap4 (nat i))
    \<and> (\<forall>p. (\<forall>i. (\<exists>k<n. ?x k \<le> i) \<and> i \<le> int (proglen ap4) - 1 \<longrightarrow> int p \<noteq> i + ?s i) \<longrightarrow> c' p = nop_filled len nop p)"
  proof (rule place_blocks_spec)
    show "\<forall>k<n. ?x k \<le> int (proglen ap4) - 1 + 1 \<and> int (proglen ap4) - 1 + ?o k < int MAXPROGLEN"
    proof (intro allI impI)
      fix k assume k: "k < n"
      then have "?o k \<le> ?o (n - 1)" using F(6) [of k "n - 1"] by simp
      then show "?x k \<le> int (proglen ap4) - 1 + 1 \<and> int (proglen ap4) - 1 + ?o k < int MAXPROGLEN"
        using F(4) [OF k] F(10) by linarith
    qed
  qed (use F pl in auto)
  have ex0: "(\<exists>k<n. ?x k \<le> i) \<longleftrightarrow> ?x 0 \<le> i" for i
    using x0 F(1) order_trans by blast
  from ** [unfolded ex0] obtain c' where c': "place_blocks ap4 memcfg n (int (proglen ap4) - 1) (nop_filled len nop) = Inr c'"
    "\<And>i. ?x 0 \<le> i \<Longrightarrow> i < int (proglen ap4) \<Longrightarrow> c' (nat (i + ?s i)) = code ap4 (nat i)"
    "\<And>p. (\<forall>i. ?x 0 \<le> i \<and> i < int (proglen ap4) \<longrightarrow> int p \<noteq> i + ?s i) \<Longrightarrow> c' p = nop_filled len nop p"
    unfolding zle_diff1_eq by blast
  define c where "c = (\<lambda>p. if int p < ?x 0 then code ap4 p else c' p)"
  have "?x 0 < int (proglen ap4)" "0 \<le> ?x 0" using F(1,4) by auto
  then have "copy_code ap4 0 [0..?x 0 - 1] c' = Inr c"
    using pl by (subst copy_code_spec) (auto simp: c_def fun_eq_iff)
  then have "mutate_active_program ap4 memcfg nop iset = Inr (ap4\<lparr>mutant := \<lparr>mut_code = c, mut_proglen = len\<rparr>\<rparr>)"
  proof -
    have "\<not> (NUM_STAGES < n \<or> (\<exists>i\<in>set [0..<n]. ?x i < 0))" "\<not> MAXPROGLEN < proglen ap4" "\<not> int MAXPROGLEN < len"
      using F(2,4,10) pl by (auto simp: len_def not_less)
    then show ?thesis
      unfolding mutate_active_program_def Let_def F(3) n_def [symmetric] len len_def [symmetric]
      using m c'(1) \<open>copy_code ap4 0 [0..?x 0 - 1] c' = Inr c\<close> by (simp del: set_upt)
  qed
  moreover have "c (nat (i + ?s i)) = code ap4 (nat i)" if "0 \<le> i" "i < int (proglen ap4)" for i
    using that c'(2) [of i] shift_before [of n i ap4 memcfg] x0 shift_nonneg [OF nn, of i]
    by (cases "i < ?x 0") (force simp: c_def)+
  moreover have "c p = nop_filled len nop p"
    if p: "\<forall>i. 0 \<le> i \<and> i < int (proglen ap4) \<longrightarrow> int p \<noteq> i + ?s i" for p
  proof -
    have "\<not> int p < ?x 0"
      using p [rule_format, of "int p"] shift_before [of n "int p" ap4 memcfg] x0 \<open>?x 0 < int (proglen ap4)\<close> by force
    then show ?thesis
      using c'(3) [of p] p \<open>0 \<le> ?x 0\<close> by (force simp: c_def)
  qed
  ultimately show ?thesis by blast
qed

subsection \<open>Correctness of the mutation\<close>

text \<open>
  C8: for a feasible allocation the mutation succeeds; the mutant keeps every instruction of the
  program, in order (instruction \<open>i\<close> moves right by \<open>shift i\<close>, which never decreases along the
  program), every other slot up to its length is a \<open>NOP\<close>, it fits the program buffer, and the
  \<open>k\<close>-th memory access executes in the \<open>k\<close>-th stage the switch granted.
\<close>

theorem mutate_places_accesses:
  assumes f: "feasible_mutation iset ap4 memcfg" and m: "\<not> mutation_not_required ap4 memcfg"
  shows "\<exists>c len. mutate_active_program ap4 memcfg nop iset = Inr (ap4\<lparr>mutant := \<lparr>mut_code = c, mut_proglen = int len\<rparr>\<rparr>)
    \<and> len \<le> MAXPROGLEN
    \<and> (\<forall>i<proglen ap4. c (nat (int i + shift ap4 memcfg (num_accesses ap4) (int i))) = code ap4 i)
    \<and> (\<forall>i j. i \<le> j \<longrightarrow> shift ap4 memcfg (num_accesses ap4) i \<le> shift ap4 memcfg (num_accesses ap4) j)
    \<and> (\<forall>p<len. (\<forall>i<proglen ap4. int p \<noteq> int i + shift ap4 memcfg (num_accesses ap4) (int i))
         \<longrightarrow> c p = \<lparr>instr_flags = 0, instr_opcode = nop\<rparr>)
    \<and> (\<forall>k<num_accesses ap4. \<exists>p<len. c p = code ap4 (nat (access_idx ap4 k))
         \<and> valid_stages memcfg (allocated_stages memcfg ! k) = 1
         \<and> get_memory_stage_id (int p) = int (allocated_stages memcfg ! k))"
proof -
  let ?n = "num_accesses ap4" and ?s = "shift ap4 memcfg (num_accesses ap4)" and ?x = "access_idx ap4"
  note F = feasibleD [OF f]
  define len where "len = nat (int (proglen ap4) + access_offset ap4 memcfg (?n - 1))"
  have len: "int len = int (proglen ap4) + access_offset ap4 memcfg (?n - 1)"
    using F(8) [of "?n - 1"] F(1) by (simp add: len_def)
  obtain c where c: "mutate_active_program ap4 memcfg nop iset = Inr (ap4\<lparr>mutant := \<lparr>mut_code = c, mut_proglen = int len\<rparr>\<rparr>)"
    "\<And>i. 0 \<le> i \<Longrightarrow> i < int (proglen ap4) \<Longrightarrow> c (nat (i + ?s i)) = code ap4 (nat i)"
    "\<And>p. (\<forall>i. 0 \<le> i \<and> i < int (proglen ap4) \<longrightarrow> int p \<noteq> i + ?s i) \<Longrightarrow> c p = nop_filled (int len) nop p"
    using mutate_succeeds [OF f m, of nop] unfolding len by blast
  have "c (nat (int i + ?s (int i))) = code ap4 i" if "i < proglen ap4" for i
    using c(2) [of "int i"] that by simp
  moreover have "i \<le> j \<longrightarrow> ?s i \<le> ?s j" for i j
    using F(6,8) by (intro impI shift_mono) auto
  moreover have "c p = \<lparr>instr_flags = 0, instr_opcode = nop\<rparr>"
    if "p < len" "\<forall>i<proglen ap4. int p \<noteq> int i + ?s (int i)" for p
  proof -
    have "\<forall>i. 0 \<le> i \<and> i < int (proglen ap4) \<longrightarrow> int p \<noteq> i + ?s i"
      using that(2) by (metis of_nat_less_iff zero_le_imp_eq_int)
    then show ?thesis using c(3) [of p] that(1) by (simp add: nop_filled_def)
  qed
  moreover have "\<exists>p<len. c p = code ap4 (nat (?x k)) \<and> valid_stages memcfg (allocated_stages memcfg ! k) = 1
      \<and> get_memory_stage_id (int p) = int (allocated_stages memcfg ! k)" if k: "k < ?n" for k
  proof -
    have s: "?s (?x k) = access_offset ap4 memcfg k"
      using F(5) k by (intro shift_access) auto
    have nn: "0 \<le> ?x k" "?x k < int (proglen ap4)" "0 \<le> access_offset ap4 memcfg k"
      "access_offset ap4 memcfg k \<le> access_offset ap4 memcfg (?n - 1)"
      using F(4,8) [OF k] F(6) [of k "?n - 1"] k by auto
    then have "nat (?x k + access_offset ap4 memcfg k) < len"
      using len by linarith
    then show ?thesis
      using c(2) [of "?x k"] nn s access_lands [OF f k] allocated_stages_lt(3) [of k memcfg] F(3) k
      by (intro exI [of _ "nat (?x k + access_offset ap4 memcfg k)"]) (simp add: access_idx_allocated_def)
  qed
  moreover have "len \<le> MAXPROGLEN" using F(10) len by simp
  ultimately show ?thesis using c(1) by blast
qed

text \<open>A three-instruction program with its access at index 1, granted stage 4.\<close>

definition demo_program :: activep4_def_t where
  "demo_program = zero_def\<lparr>code := (\<lambda>i. \<lparr>instr_flags = 0, instr_opcode = [3, 4, 0] ! i\<rparr>),
     proglen := 3, num_accesses := 1, access_idx := (\<lambda>_. 1)\<rparr>"

definition demo_memory :: memory_t where
  "demo_memory = zero_memory\<lparr>valid_stages := (\<lambda>i. if i = 4 then 1 else 0)\<rparr>"

lemma demo_allocated: "allocated_stages demo_memory = [4]"
  by (simp add: allocated_stages_def demo_memory_def upt_rec)

lemma demo_program_simps:
  "num_accesses demo_program = 1" "access_idx demo_program k = 1" "proglen demo_program = 3"
  "instr_opcode (code demo_program i) = [3, 4, 0] ! i" "access_offset demo_program demo_memory 0 = 3"
  by (simp_all add: demo_program_def access_offset_def access_idx_allocated_def demo_allocated get_memory_stage_id_def)

lemma demo_feasible:
  "feasible_mutation demo_iset demo_program demo_memory" "\<not> mutation_not_required demo_program demo_memory"
proof -
  have "is_memaccess demo_iset 4" "\<not> is_memaccess demo_iset 3"
    by (simp_all add: is_memaccess_def demo_iset_def demo_mnemonics_def opcode_entry_def)
  then have "\<forall>i\<in>set [0..<3]. int i \<le> 1 \<longrightarrow> (is_memaccess demo_iset ([3, 4, 0] ! i) \<longleftrightarrow> int i \<in> (\<lambda>_. 1) ` set [0..<1])"
    by (auto simp: less_Suc_eq eval_nat_numeral)
  then show "feasible_mutation demo_iset demo_program demo_memory"
    unfolding feasible_mutation_def Let_def demo_program_simps
    by (simp add: demo_allocated access_idx_allocated_def get_memory_stage_id_def demo_program_simps)
  show "\<not> mutation_not_required demo_program demo_memory"
    by (simp add: mutation_not_required_def demo_program_simps demo_memory_def normalized_stage_def)
qed

theorem mutate_places_accesses_witness:
  "\<exists>c len. mutate_active_program demo_program demo_memory 1 demo_iset =
      Inr (demo_program\<lparr>mutant := \<lparr>mut_code = c, mut_proglen = int len\<rparr>\<rparr>)
    \<and> len \<le> MAXPROGLEN
    \<and> (\<exists>p<len. c p = \<lparr>instr_flags = 0, instr_opcode = 4\<rparr> \<and> get_memory_stage_id (int p) = 4)"
proof -
  obtain c len where c: "mutate_active_program demo_program demo_memory 1 demo_iset =
      Inr (demo_program\<lparr>mutant := \<lparr>mut_code = c, mut_proglen = int len\<rparr>\<rparr>)" "len \<le> MAXPROGLEN"
    "\<forall>k<num_accesses demo_program. \<exists>p<len. c p = code demo_program (nat (access_idx demo_program k))
         \<and> valid_stages demo_memory (allocated_stages demo_memory ! k) = 1
         \<and> get_memory_stage_id (int p) = int (allocated_stages demo_memory ! k)"
    using mutate_places_accesses [OF demo_feasible, of 1] by blast
  moreover have "code demo_program (Suc 0) = \<lparr>instr_flags = 0, instr_opcode = 4\<rparr>"
    by (simp add: demo_program_def)
  ultimately show ?thesis
    by (fastforce simp: demo_program_simps demo_allocated)
qed

text \<open>
  Whatever the allocation, a successful mutation changes nothing of the program but its
  mutant, and never leaves a mutant longer than the program buffer.
\<close>

theorem mutate_frame:
  assumes "mutate_active_program ap4 memcfg nop iset = Inr ap4'"
  shows "ap4' = ap4\<lparr>mutant := mutant ap4'\<rparr> \<and> (mutant ap4' = mutant ap4 \<or> mut_proglen (mutant ap4') \<le> int MAXPROGLEN)"
  using assms by (auto simp: mutate_active_program_def Let_def bind_result_Inr_iff split: if_splits)

theorem mutate_frame_witness:
  "\<exists>ap4'. mutate_active_program demo_program demo_memory 1 demo_iset = Inr ap4'
    \<and> ap4' = demo_program\<lparr>mutant := mutant ap4'\<rparr>"
proof -
  obtain ap4' where "mutate_active_program demo_program demo_memory 1 demo_iset = Inr ap4'"
    using mutate_succeeds [OF demo_feasible, of 1] by blast
  then show ?thesis using mutate_frame by blast
qed

subsection \<open>Demands\<close>

lemma set_memory_demand_elastic:
  "0 < num_accesses (current_program ctxt) \<Longrightarrow>
     is_elastic (set_memory_demand ctxt d) \<longleftrightarrow>
       (\<forall>i<num_accesses (current_program ctxt). demand (current_program (set_memory_demand ctxt d)) i \<le> 1)"
  by (auto simp: set_memory_demand_def update_current_program_def)

lemma set_memory_demand_per_stage_elastic:
  "is_elastic (set_memory_demand_per_stage ctxt d) \<longleftrightarrow>
       (\<forall>i<num_accesses (current_program ctxt). demand (current_program (set_memory_demand_per_stage ctxt d)) i \<le> 1)"
  by (force simp: set_memory_demand_per_stage_def update_current_program_def)

end
