(* ===== verification/AP4_Netutils.thy ===== *)
theory AP4_Netutils
  imports AP4_Isa
begin

text \<open>
  Packet utilities of \<open>activep4_netutils.h\<close>, \<open>activep4_tunnel.h\<close> and \<open>activep4.h\<close>: the Internet
  checksum and its incremental update, the connection checksum, the search for the end of an
  active program in a packet, the header parser, and the geometry of the memory-mapped rings.
\<close>

subsection \<open>Checksums\<close>

text \<open>\<open>*buf++\<close> for \<open>n\<close> words, accumulated in \<open>uint32_t\<close>.\<close>

fun sum_words :: "buffer \<Rightarrow> nat \<Rightarrow> nat \<Rightarrow> u32" where
  "sum_words b pos 0 = 0"
| "sum_words b pos (Suc n) = ucast (load16 b pos) + sum_words b (pos + 2) n"

definition fold_checksum :: "u32 \<Rightarrow> u16" where
  "fold_checksum s =
     (let c = drop_bit 16 s + (s AND 0xFFFF); c = drop_bit 16 c + c in ucast (NOT c))"

definition compute_checksum :: "buffer \<Rightarrow> nat \<Rightarrow> nat \<Rightarrow> u16" where
  "compute_checksum b pos num_bytes =
     (let n = num_bytes div 2; s = sum_words b pos n;
          s = (if num_bytes mod 2 = 1 then s + (ucast (load16 b (pos + 2 * n)) AND 0xFF00) else s)
      in fold_checksum s)"

text \<open>
  The operands of \<open>~\<close> and unary \<open>-\<close> are promoted to \<open>int\<close>, so both sign-extend into the
  32-bit accumulator.
\<close>

definition update_checksum :: "u16 \<Rightarrow> u32 \<Rightarrow> u32 \<Rightarrow> u16" where
  "update_checksum chksum old_value new_value =
     fold_checksum (NOT (ucast chksum) - (old_value AND 0xFFFF) - drop_bit 16 old_value
        + (new_value AND 0xFFFF) + drop_bit 16 new_value)"

record inet_5tuple_t =
  ipv4_src_addr :: u32
  ipv4_dst_addr :: u32
  ipv4_protocol :: u8
  tcp_src_port :: u16
  tcp_dst_port :: u16

text \<open>\<open>x & 0xFFFF >> 16\<close> parses as \<open>x & (0xFFFF >> 16)\<close>.\<close>

definition cksum_5tuple :: "inet_5tuple_t \<Rightarrow> u16" where
  "cksum_5tuple conn = NOT (ucast (ipv4_src_addr conn AND 0xFFFF)
     + ucast (ipv4_src_addr conn AND drop_bit 16 0xFFFF)
     + ucast (ipv4_dst_addr conn AND 0xFFFF)
     + ucast (ipv4_dst_addr conn AND drop_bit 16 0xFFFF)
     + ucast (ipv4_protocol conn) + tcp_src_port conn + tcp_dst_port conn)"

text \<open>
  The struct is hashed as its 16 bytes in memory; \<open>pad\<close> gives the three padding bytes (offsets 9,
  14, 15), which the C code does not initialise.
\<close>

definition inet_5tuple_bytes :: "u8 \<times> u8 \<times> u8 \<Rightarrow> inet_5tuple_t \<Rightarrow> u8 list" where
  "inet_5tuple_bytes pad conn = (case pad of (p9, p14, p15) \<Rightarrow>
     load_bytes (store16 12 (tcp_dst_port conn) (store16 10 (tcp_src_port conn)
       (store8 8 (ipv4_protocol conn) (store32 4 (ipv4_dst_addr conn) (store32 0 (ipv4_src_addr conn)
         ((\<lambda>_. 0)(9 := p9, 14 := p14, 15 := p15))))))) 0 16)"

fun crc16_bits :: "nat \<Rightarrow> u16 \<Rightarrow> u16" where
  "crc16_bits 0 crc = crc"
| "crc16_bits (Suc j) crc =
     crc16_bits j (if crc AND 0x8000 \<noteq> 0 then push_bit 1 crc XOR 0x3D65 else push_bit 1 crc)"

definition hash_5tuple :: "u8 \<times> u8 \<times> u8 \<Rightarrow> inet_5tuple_t \<Rightarrow> u16" where
  "hash_5tuple pad conn =
     foldl (\<lambda>crc byte. crc16_bits 8 (crc XOR push_bit 8 (ucast byte))) 0 (inet_5tuple_bytes pad conn)"

subsection \<open>Active programs in packets\<close>

text \<open>
  The loop of \<open>get_active_eof\<close>.  Its second condition reads \<open>remaining_bytes\<close>, which the body does
  not change; the loop ends only at a zero opcode.
\<close>

partial_function (option) eof_scan :: "buffer \<Rightarrow> nat \<Rightarrow> bool \<Rightarrow> nat \<Rightarrow> nat option" where
  "eof_scan buf pos enough eof =
     (if buf (pos + eof + 1) \<noteq> 0 \<and> enough then eof_scan buf pos enough (eof + sizeof_instr) else Some eof)"

declare eof_scan.simps [code]

definition get_active_eof :: "buffer \<Rightarrow> nat \<Rightarrow> int \<Rightarrow> nat option" where
  "get_active_eof buf pos buflen =
     (if size_less buflen sizeof_instr then Some 0
      else let remaining_bytes = buflen - int sizeof_instr in
        (case eof_scan buf pos (\<not> size_less remaining_bytes sizeof_instr) 0 of
           None \<Rightarrow> None | Some eof \<Rightarrow> Some (eof + sizeof_instr)))"

definition is_activep4 :: "buffer \<Rightarrow> nat \<Rightarrow> bool" where
  "is_activep4 buf pos \<longleftrightarrow> ntohl (load32 buf pos) = ACTIVEP4SIG"

definition hwaddr_equals :: "buffer \<Rightarrow> buffer \<Rightarrow> bool" where
  "hwaddr_equals a b \<longleftrightarrow> a 0 = b 0 \<and> a 1 = b 1 \<and> a 2 = b 2 \<and> a 3 = b 3 \<and> a 4 = b 4 \<and> a 5 = b 5"

subsection \<open>The header parser\<close>

record net_headers_t =
  nh_iph :: nat
  nh_tcph :: "nat option"
  nh_udph :: "nat option"
  nh_ap4ih :: "nat option"
  nh_ap4args :: "nat option"
  nh_payload :: nat
  nh_payload_length :: int

text \<open>
  \<open>None\<close> is the return value \<open>-1\<close>, \<open>Inl NoReturn\<close> the case that \<open>get_active_eof\<close> finds no
  end-of-program.  The pointers of \<open>net_headers_t\<close> are offsets in the buffer; \<open>eth\<close> is offset 0.
\<close>

definition extract_inner_headers ::
  "buffer \<Rightarrow> int \<Rightarrow> nat option \<Rightarrow> nat option \<Rightarrow> nat \<Rightarrow> (net_headers_t \<times> nat) option" where
  "extract_inner_headers buf pktlen ap4ih ap4args offset =
     (if size_less (pktlen - int offset) sizeof_ipv4 then None
      else let iph = offset; offset = offset + sizeof_ipv4;
               tot_len = int (unat (ntohs (load16 buf (iph + 2)))) in
        if load8 buf (iph + 9) = IPPROTO_TCP \<and> \<not> size_less (pktlen - int offset) sizeof_tcp then
          (let doff = unat (drop_bit 4 (load8 buf (offset + 12))) in
           Some (\<lparr>nh_iph = iph, nh_tcph = Some offset, nh_udph = None, nh_ap4ih = ap4ih, nh_ap4args = ap4args,
             nh_payload = offset + doff * 4, nh_payload_length = tot_len - int (doff * 4)\<rparr>, offset + doff * 4))
        else if load8 buf (iph + 9) = IPPROTO_UDP \<and> \<not> size_less (pktlen - int offset) sizeof_udp then
          Some (\<lparr>nh_iph = iph, nh_tcph = None, nh_udph = Some offset, nh_ap4ih = ap4ih, nh_ap4args = ap4args,
             nh_payload = offset + sizeof_udp, nh_payload_length = tot_len - int sizeof_udp\<rparr>, offset + sizeof_udp)
        else None)"

definition extract_network_headers :: "buffer \<Rightarrow> int \<Rightarrow> (net_headers_t \<times> nat) option c_result" where
  "extract_network_headers buf pktlen =
     (if size_less pktlen sizeof_eth then Inr None
      else let offset = sizeof_eth in
        if ntohs (load16 buf 12) = AP4_ETHER_TYPE_AP4 then
          (if size_less (pktlen - int offset) sizeof_ih then Inr None
           else let ap4ih = offset; offset = offset + sizeof_ih in
             if ntohl (load32 buf ap4ih) \<noteq> ACTIVEP4SIG then Inr None
             else let args = (ntohs (load16 buf (ap4ih + 4)) AND AP4FLAGMASK_OPT_ARGS) \<noteq> 0;
                      ap4args = (if args then Some offset else None);
                      offset = (if args then offset + sizeof_data else offset)
                  in (case get_active_eof buf offset (pktlen - int offset) of
                        None \<Rightarrow> Inl NoReturn
                      | Some eof \<Rightarrow> Inr (extract_inner_headers buf pktlen (Some ap4ih) ap4args (offset + eof))))
        else Inr (extract_inner_headers buf pktlen None None offset))"

subsection \<open>Memory-mapped rings\<close>

record tpacket_req3 =
  tp_block_size :: nat
  tp_block_nr :: nat
  tp_frame_size :: nat
  tp_frame_nr :: nat

text \<open>
  \<open>while(tp_block_size < tp_frame_size) tp_block_size <<= 1\<close>; a block size of zero never grows.
\<close>

function grow_block_size :: "nat \<Rightarrow> nat \<Rightarrow> nat c_result" where
  "grow_block_size frame_size block_size =
     (if block_size < frame_size
      then (if block_size = 0 then Inl NoReturn else grow_block_size frame_size (2 * block_size))
      else Inr block_size)"
  by pat_completeness auto
termination
  by (relation "measure (\<lambda>(f, b). f - b)") auto

declare grow_block_size.simps [simp del]

text \<open>
  The ring request of \<open>setup_rx_ring\<close>/\<open>setup_tx_ring\<close> from the system's page size and page count;
  the fields are 32-bit unsigned.  The second component is \<open>ring_size\<close>.
\<close>

definition setup_ring :: "nat \<Rightarrow> nat \<Rightarrow> nat \<Rightarrow> (tpacket_req3 \<times> nat) c_result" where
  "setup_ring frame_size pagesize phys_pages =
     bind_result (grow_block_size frame_size pagesize)
       (\<lambda>block_size. let block_nr = (phys_pages * pagesize div ((128 * block_size) mod 2 ^ 32)) mod 2 ^ 32 in
          Inr (\<lparr>tp_block_size = block_size, tp_block_nr = block_nr, tp_frame_size = frame_size,
             tp_frame_nr = (block_size div frame_size * block_nr) mod 2 ^ 32\<rparr>,
           (block_size * block_nr) mod 2 ^ 32))"

text \<open>Offset of frame \<open>i\<close> in the ring buffer, as the receive and transmit loops compute it.\<close>

definition frame_offset :: "tpacket_req3 \<Rightarrow> nat \<Rightarrow> nat" where
  "frame_offset req i =
     (let frames_per_block = tp_block_size req div tp_frame_size req
      in i div frames_per_block * tp_block_size req + i mod frames_per_block * tp_frame_size req)"

datatype tp_status = TP_AVAILABLE | TP_SEND_REQUEST | TP_SENDING | TP_WRONG_FORMAT

text \<open>\<open>tx_mmap_enqueue\<close>: the argument \<open>num_pkts\<close> is overwritten by the number of frames.\<close>

fun tx_mmap_frames :: "nat list \<Rightarrow> nat \<Rightarrow> nat \<Rightarrow> (nat \<Rightarrow> tp_status) \<Rightarrow> (nat \<Rightarrow> tp_status) \<times> nat" where
  "tx_mmap_frames [] num_pkts enqueued st = (st, enqueued)"
| "tx_mmap_frames (i # is) num_pkts enqueued st =
     (if enqueued < num_pkts then
        (if st i = TP_AVAILABLE then tx_mmap_frames is num_pkts (Suc enqueued) (st(i := TP_SEND_REQUEST))
         else tx_mmap_frames is num_pkts enqueued st)
      else (st, enqueued))"

definition tx_mmap_enqueue :: "tpacket_req3 \<Rightarrow> (nat \<Rightarrow> tp_status) \<Rightarrow> nat \<Rightarrow> (nat \<Rightarrow> tp_status) \<times> nat" where
  "tx_mmap_enqueue req st num_pkts = tx_mmap_frames [0..<tp_frame_nr req] (tp_frame_nr req) 0 st"

subsection \<open>One's complement arithmetic\<close>

definition oc :: "nat \<Rightarrow> nat" where
  "oc s = (let c = s div 65536 + s mod 65536 in if c < 65536 then c else c - 65535)"

lemma oc_bounds:
  assumes "s < 2 ^ 32"
  shows "oc s \<le> 65535" "oc s = 0 \<longleftrightarrow> s = 0"
proof -
  have "s div 65536 < 65536" using assms by (simp add: less_mult_imp_div_less)
  then show "oc s \<le> 65535" "oc s = 0 \<longleftrightarrow> s = 0"
    by (auto simp: oc_def Let_def)
qed

lemma oc_mod: "oc s mod 65535 = s mod 65535"
proof -
  let ?c = "s div 65536 + s mod 65536"
  have "s = ?c + 65535 * (s div 65536)"
    using div_mult_mod_eq [of s 65536] by simp
  then have "s mod 65535 = ?c mod 65535"
    by (metis mod_mult_self2)
  moreover have "(?c - 65535) mod 65535 = ?c mod 65535" if "65535 \<le> ?c"
    using that by (metis le_add_diff_inverse2 mod_add_self2)
  ultimately show ?thesis by (auto simp: oc_def Let_def)
qed

lemma oc_complement:
  assumes "s < 2 ^ 31"
  shows "oc (s + (65535 - oc s)) = 65535"
proof -
  have b: "oc s \<le> 65535" using oc_bounds(1) [of s] assms by simp
  have "(s + (65535 - oc s)) mod 65535 = 0"
  proof -
    have "(s + (65535 - oc s)) mod 65535 = (oc s + (65535 - oc s)) mod 65535"
      by (metis mod_add_left_eq oc_mod)
    with b show ?thesis by simp
  qed
  then have "oc (s + (65535 - oc s)) mod 65535 = 0" by (simp add: oc_mod)
  moreover have "oc (s + (65535 - oc s)) \<le> 65535" "oc (s + (65535 - oc s)) \<noteq> 0"
    using oc_bounds [of "s + (65535 - oc s)"] assms b oc_bounds(2) [of s] by auto
  ultimately show ?thesis
    by (metis le_antisym linorder_not_le mod_less not_less)
qed

lemma unat_u16: "unat (w :: u16) \<le> 65535"
  using unsigned_less [of w, where ?'a = nat] by simp

lemma unat_less_u32: "unat (w :: u32) < 2 ^ 32"
  using unsigned_less [of w, where ?'a = nat] by simp

lemma unat_not_u16: "unat (NOT w :: u16) = 65535 - unat w"
proof -
  have "NOT w = -1 - w" by (simp add: not_eq_complement)
  then show ?thesis using unat_sub [of w "-1"] by (simp add: unsigned_minus_1_eq_mask mask_eq_exp_minus_1)
qed

lemma unat_and_ffff: "unat (s AND 0xFFFF :: u32) = unat s mod 65536"
proof -
  have "s AND 0xFFFF = take_bit 16 s"
    by (simp add: take_bit_eq_mask mask_eq_exp_minus_1)
  then have "unat (s AND 0xFFFF) = take_bit 16 (unat s)"
    by (simp only: unsigned_take_bit_eq)
  then show ?thesis by (simp add: take_bit_eq_mod)
qed

lemma unat_drop16: "unat (drop_bit 16 s :: u32) = unat s div 65536"
  unfolding unsigned_drop_bit_eq using unat_less_u32 [of s] by (simp add: drop_bit_eq_div take_bit_nat_eq_self)

lemma unat_fold_checksum: "unat (fold_checksum s) = 65535 - oc (unat s)"
proof -
  define c1 where "c1 = drop_bit 16 s + (s AND 0xFFFF)"
  define c2 where "c2 = drop_bit 16 c1 + c1"
  have s: "unat s < 2 ^ 32" using unat_less_u32 [of s] by simp
  have hi: "unat s div 65536 < 65536" using s by (simp add: less_mult_imp_div_less)
  have c1: "unat c1 = unat s div 65536 + unat s mod 65536"
    using hi by (simp add: c1_def unat_word_ariths unat_and_ffff unat_drop16)
  have c2: "unat c2 = unat c1 div 65536 + unat c1"
    using hi c1 by (simp add: c2_def unat_word_ariths unat_drop16)
  have "fold_checksum s = NOT (ucast c2)"
    by (simp add: fold_checksum_def Let_def c1_def c2_def unsigned_not_eq) (simp add: bit_eq_iff bit_simps)
  then have "unat (fold_checksum s) = 65535 - unat c2 mod 65536"
    by (simp add: unat_not_u16 unsigned_ucast_eq take_bit_eq_mod)
  also have "unat c2 mod 65536 = oc (unat s)"
  proof (cases "unat c1 < 65536")
    case False
    then have "65536 \<le> unat c1" "unat c1 < 131071" using hi c1 by auto
    then have "unat c1 div 65536 = 1" "(1 + unat c1) mod 65536 = unat c1 - 65535"
      by (simp_all add: div_nat_eqI mod_if)
    then show ?thesis using False by (simp add: c2 c1 oc_def Let_def)
  qed (simp add: c2 c1 oc_def Let_def)
  finally show ?thesis .
qed

lemma unat_ucast_u16 [simp]: "unat (ucast (w :: u16) :: u32) = unat w"
  using unat_u16 [of w] by (simp add: unsigned_ucast_eq take_bit_nat_eq_self)

lemma bit_ff00: "bit (0xFF00 :: u32) n \<longleftrightarrow> 8 \<le> n \<and> n < 16"
proof -
  have "(0xFF00 :: u32) = push_bit 8 (mask 8)" by (simp add: mask_eq_exp_minus_1)
  then show ?thesis by (simp only: bit_push_bit_iff bit_mask_iff) auto
qed

lemma unat_sum_words:
  "n \<le> 65536 \<Longrightarrow> unat (sum_words b pos n) = (\<Sum>i<n. unat (load16 b (pos + 2 * i)))"
proof (induction n arbitrary: pos)
  case (Suc n)
  have "unat (load16 b p) \<le> 65535" for p
    using unat_u16 [of "load16 b p"] by simp
  then have "(\<Sum>i<n. unat (load16 b (pos + 2 + 2 * i))) \<le> (\<Sum>i<n. 65535)"
    by (intro sum_mono)
  then have "(\<Sum>i<n. unat (load16 b (pos + 2 + 2 * i))) + unat (load16 b pos) < 2 ^ 32"
    using Suc.prems \<open>\<And>p. unat (load16 b p) \<le> 65535\<close> [of pos] by simp
  then show ?case
    using Suc by (simp add: unat_word_ariths sum.lessThan_Suc_shift del: sum.lessThan_Suc)
qed simp

lemma compute_checksum_even:
  "k \<le> 65536 \<Longrightarrow> unat (compute_checksum b pos (2 * k)) = 65535 - oc (\<Sum>i<k. unat (load16 b (pos + 2 * i)))"
  by (simp add: compute_checksum_def unat_fold_checksum unat_sum_words)

lemma sum_words_store:
  assumes "j < k"
  shows "(\<Sum>i<k. unat (load16 (store16 (pos + 2 * j) v b) (pos + 2 * i))) =
    unat v + (\<Sum>i\<in>{..<k} - {j}. unat (load16 b (pos + 2 * i)))"
proof -
  have "load16 (store16 (pos + 2 * j) v b) (pos + 2 * i) = load16 b (pos + 2 * i)" if "i \<noteq> j" for i
    using that by (intro load16_store16_other) linarith
  then show ?thesis
    using assms by (subst sum.remove [of _ j]) (auto simp: load16_store16 intro!: sum.cong)
qed

text \<open>
  A header whose check field is cleared, summed by \<open>compute_checksum\<close> and then filled with the
  result verifies: summing it again gives zero.  This is what \<open>tx_setup_buffers\<close> and \<open>active_tx\<close>
  rely on for their IPv4 headers.
\<close>

theorem compute_checksum_verifies:
  assumes "j < k" "k \<le> 32768" "chk = compute_checksum (store16 (pos + 2 * j) 0 b) pos (2 * k)"
  shows "compute_checksum (store16 (pos + 2 * j) chk (store16 (pos + 2 * j) 0 b)) pos (2 * k) = 0"
proof -
  define S where "S = (\<Sum>i\<in>{..<k} - {j}. unat (load16 b (pos + 2 * i)))"
  have "S \<le> (\<Sum>i\<in>{..<k} - {j}. 65535)"
    unfolding S_def by (intro sum_mono) (rule unat_u16)
  then have S: "S < 2 ^ 31" using assms(1,2) by simp
  have "unat chk = 65535 - oc S"
    using assms by (simp add: compute_checksum_even sum_words_store S_def)
  moreover have "store16 (pos + 2 * j) chk (store16 (pos + 2 * j) 0 b) = store16 (pos + 2 * j) chk b"
    by (auto simp: store16_def fun_eq_iff)
  ultimately have "unat (compute_checksum (store16 (pos + 2 * j) chk (store16 (pos + 2 * j) 0 b)) pos (2 * k)) = 0"
    using assms(1,2) oc_complement [OF S]
    by (simp add: compute_checksum_even sum_words_store S_def [symmetric] add.commute)
  then show ?thesis by (simp add: unat_eq_0)
qed

theorem compute_checksum_verifies_witness:
  "compute_checksum (store16 4 (compute_checksum (store16 4 0 (\<lambda>i. of_nat i)) 0 20)
     (store16 4 0 (\<lambda>i. of_nat i))) 0 20 = 0"
  using compute_checksum_verifies [of 2 10 _ 0 "\<lambda>i. of_nat i"] by simp

text \<open>
  For an odd length the code masks the last word with \<open>0xFF00\<close>, which on a little-endian machine
  keeps the byte behind the buffer and drops the last byte of it.
\<close>

lemma compute_checksum_odd_ignores_last:
  "compute_checksum (store8 (pos + 2 * k) v b) pos (2 * k + 1) = compute_checksum b pos (2 * k + 1)"
proof -
  have "sum_words (store8 (pos + 2 * k) v b) p n = sum_words b p n" if "p + 2 * n \<le> pos + 2 * k" for p n
    using that by (induction n arbitrary: p) (simp_all add: load16_store8_other)
  moreover have "(ucast (load16 (store8 i v b) i) :: u32) AND 0xFF00 = ucast (load16 b i) AND 0xFF00" for i
    by (rule bit_word_eqI) (auto simp: bit_and_iff bit_ff00 bit_ucast_iff load16_def bit_or_iff store8_def
        bit_push_bit_iff simp del: bit_numeral_word_iff dest: bit_imp_le_length)
  ultimately show ?thesis by (simp add: compute_checksum_def)
qed



text \<open>The sum of the two halves of a 32-bit value.\<close>

definition halves :: "u32 \<Rightarrow> nat" where
  "halves v = unat v mod 65536 + unat v div 65536"

lemma halves_word: "(v AND 0xFFFF) + drop_bit 16 v = (of_nat (halves v) :: u32)"
  by (simp add: halves_def of_nat_add flip: unat_and_ffff unat_drop16)

lemma halves_le: "halves v \<le> 131070"
proof -
  have "unat v div 65536 < 65536" using unat_less_u32 [of v] by (simp add: less_mult_imp_div_less)
  moreover have "unat v mod 65536 < 65536" by simp
  ultimately show ?thesis unfolding halves_def by linarith
qed

lemma int_diff_mod:
  assumes "int x - int y = 65535 * q"
  shows "x mod 65535 = y mod 65535"
proof -
  have "int x mod int 65535 = int y mod int 65535"
    using assms by (simp only: mod_eq_dvd_iff) simp
  then show ?thesis by (simp only: of_nat_mod [symmetric] of_nat_eq_iff)
qed

text \<open>
  C24: the incremental update is exact modulo \<open>0xFFFF\<close> as long as the new halves do not outweigh
  the old checksum and the old halves; beyond that the result is off by one, because the code
  negates the old value in two's complement and only recovers the carry through a borrow.
\<close>

theorem update_checksum_incremental:
  "(unat (update_checksum chk old new) + halves new) mod 65535 =
     (unat chk + halves old + (if halves new \<le> unat chk + halves old then 0 else 1)) mod 65535"
proof -
  define a n where "a = unat chk + 1 + halves old" and "n = halves new"
  define D where "D = (of_nat n :: u32) - of_nat a"
  have bounds: "a \<le> 65536 + 131070" "n \<le> 131070"
    using unat_u16 [of chk] halves_le [of old] halves_le [of new] by (simp_all add: a_def n_def)
  have "NOT (ucast chk) - (old AND 0xFFFF) - drop_bit 16 old + (new AND 0xFFFF) + drop_bit 16 new = D"
  proof -
    have "NOT (ucast chk :: u32) = - of_nat (unat chk) - 1"
      by (simp add: not_eq_complement flip: unat_ucast_u16)
    then show ?thesis
      using halves_word [of old] halves_word [of new] by (simp add: D_def a_def n_def algebra_simps)
  qed
  then have U: "unat (update_checksum chk old new) = 65535 - oc (unat D)"
    by (simp add: update_checksum_def unat_fold_checksum)
  have uD: "int (unat D) = (int n - int a) mod 2 ^ 32"
  proof -
    have "D = word_of_int (int n - int a)" by (simp add: D_def)
    then have "uint D = (int n - int a) mod 2 ^ 32"
      by (simp only: uint_word_of_int) (simp add: take_bit_eq_mod)
    then show ?thesis by simp
  qed
  define r where "r = oc (unat D)"
  have r: "r \<le> 65535" "r mod 65535 = unat D mod 65535"
    using oc_bounds(1) [OF unat_less_u32 [of D]] oc_mod [of "unat D"] by (simp_all add: r_def)
  have "int (unat D mod 65535) = int (r mod 65535)" using r(2) by simp
  then have "int 65535 dvd int (unat D) - int r"
    by (simp only: of_nat_mod mod_eq_dvd_iff)
  then obtain q where q: "int (unat D) - int r = 65535 * q" by auto
  show ?thesis
  proof (cases "n < a")
    case True
    have "int (unat D) = int n - int a + 2 ^ 32"
      unfolding uD using True bounds mod_add_self2 [of "int n - int a" "2 ^ 32"]
        mod_pos_pos_trivial [of "int n - int a + 2 ^ 32" "2 ^ 32"] by simp
    then have "int (65535 - r + n) - int (a - 1) = 65535 * (q + 1 - 65537)"
      using q r(1) True by (simp add: a_def)
    then have "(65535 - r + n) mod 65535 = (a - 1) mod 65535"
      by (rule int_diff_mod)
    then show ?thesis
      using True U by (simp add: r_def n_def a_def)
  next
    case False
    have "int (unat D) = int n - int a"
      unfolding uD using False bounds by (intro mod_pos_pos_trivial) auto
    then have "int (65535 - r + n) - int a = 65535 * (q + 1)"
      using q r(1) False by simp
    then have "(65535 - r + n) mod 65535 = a mod 65535"
      by (rule int_diff_mod)
    then show ?thesis
      using False U by (simp add: r_def n_def a_def)
  qed
qed


subsection \<open>The end of an active program\<close>

definition program_at :: "buffer \<Rightarrow> nat \<Rightarrow> activep4_instr list \<Rightarrow> bool" where
  "program_at buf pos is \<longleftrightarrow>
     (\<forall>k<length is. buf (pos + 2 * k) = instr_flags (is ! k) \<and> buf (pos + 2 * k + 1) = instr_opcode (is ! k))"

text \<open>A complete program: the only zero opcode is the last one.\<close>

definition complete_program :: "activep4_instr list \<Rightarrow> bool" where
  "complete_program is \<longleftrightarrow> is \<noteq> [] \<and> instr_opcode (last is) = 0 \<and> (\<forall>i\<in>set (butlast is). instr_opcode i \<noteq> 0)"

lemma program_at_store_bytes: "program_at (store_bytes pos (concat (map instr_bytes is)) b) pos is"
  using nth_instr_bytes [of _ "is"] by (auto simp: program_at_def store_bytes_def)

lemma eof_scan_finds:
  assumes "\<forall>i<k. buf (pos + eof + 2 * i + 1) \<noteq> 0" "buf (pos + eof + 2 * k + 1) = 0"
  shows "eof_scan buf pos True eof = Some (eof + 2 * k)"
  using assms
proof (induction k arbitrary: eof)
  case 0
  then show ?case by (subst eof_scan.simps) simp
next
  case (Suc k)
  have "\<forall>i<k. buf (pos + (eof + 2) + 2 * i + 1) \<noteq> 0"
  proof (intro allI impI)
    fix i assume "i < k"
    then show "buf (pos + (eof + 2) + 2 * i + 1) \<noteq> 0"
      using Suc.prems(1) [rule_format, of "Suc i"] by (simp add: algebra_simps)
  qed
  then have "eof_scan buf pos True (eof + 2) = Some (eof + 2 + 2 * k)"
    using Suc.prems(2) by (intro Suc.IH) (simp_all add: algebra_simps)
  then show ?case
    using Suc.prems(1) [rule_format, of 0] by (subst eof_scan.simps) simp
qed

lemma eof_scan_finds_only:
  assumes "eof_scan buf pos enough eof = Some r" "enough"
  shows "\<exists>k. r = eof + 2 * k \<and> (\<forall>i<k. buf (pos + eof + 2 * i + 1) \<noteq> 0) \<and> buf (pos + eof + 2 * k + 1) = 0"
proof -
  have "enough \<longrightarrow> (\<exists>k. r = eof + 2 * k \<and> (\<forall>i<k. buf (pos + eof + 2 * i + 1) \<noteq> 0) \<and> buf (pos + eof + 2 * k + 1) = 0)"
  proof (rule eof_scan.raw_induct [OF _ assms(1)])
    fix scan buf pos enough eof r
    assume IH: "\<And>buf pos enough eof r. scan buf pos enough eof = Some r \<Longrightarrow>
        enough \<longrightarrow> (\<exists>k. r = eof + 2 * k \<and> (\<forall>i<k. buf (pos + eof + 2 * i + 1) \<noteq> 0) \<and> buf (pos + eof + 2 * k + 1) = 0)"
      and r: "(if buf (pos + eof + 1) \<noteq> 0 \<and> enough then scan buf pos enough (eof + sizeof_instr) else Some eof) = Some r"
    show "enough \<longrightarrow> (\<exists>k. r = eof + 2 * k \<and> (\<forall>i<k. buf (pos + eof + 2 * i + 1) \<noteq> 0) \<and> buf (pos + eof + 2 * k + 1) = 0)"
    proof
      assume enough
      show "\<exists>k. r = eof + 2 * k \<and> (\<forall>i<k. buf (pos + eof + 2 * i + 1) \<noteq> 0) \<and> buf (pos + eof + 2 * k + 1) = 0"
      proof (cases "buf (pos + eof + 1) = 0")
        case True
        with r show ?thesis by (intro exI [of _ 0]) simp
      next
        case False
        with r \<open>enough\<close> IH [of buf pos enough "eof + 2" r] obtain k where
          k: "r = eof + 2 + 2 * k" "\<forall>i<k. buf (pos + (eof + 2) + 2 * i + 1) \<noteq> 0" "buf (pos + (eof + 2) + 2 * k + 1) = 0"
          by auto
        have "buf (pos + eof + 2 * i + 1) \<noteq> 0" if "i < Suc k" for i
          using that k(2) False by (cases i) (auto simp: algebra_simps)
        with k show ?thesis by (intro exI [of _ "Suc k"]) (auto simp: algebra_simps)
      qed
    qed
  qed
  with assms(2) show ?thesis by simp
qed

lemma complete_program_eof:
  assumes "program_at buf pos is" "complete_program is"
  shows "eof_scan buf pos True 0 = Some (2 * length is - 2)"
proof -
  have ne: "is \<noteq> []" using assms(2) by (simp add: complete_program_def)
  have "buf (pos + 0 + 2 * i + 1) \<noteq> 0" if "i < length is - 1" for i
  proof -
    have "is ! i \<in> set (butlast is)"
      using that by (metis length_butlast nth_butlast nth_mem)
    then show ?thesis using assms that by (simp add: complete_program_def program_at_def)
  qed
  moreover have "buf (pos + 0 + 2 * (length is - 1) + 1) = 0"
    using assms ne by (simp add: complete_program_def program_at_def last_conv_nth)
  ultimately show ?thesis
    using eof_scan_finds [of "length is - 1" buf pos 0] by (simp add: diff_mult_distrib2)
qed

text \<open>
  The search for the end of a program returns the length up to and including the first zero
  opcode, and runs on for ever (or off the buffer) when there is none.  The buffer length plays no
  role once it is at least four: the end found may lie behind the buffer.
\<close>

theorem get_active_eof_first_zero:
  assumes "4 \<le> buflen" "buflen < 2 ^ 31"
  shows "get_active_eof buf pos buflen = Some e \<longleftrightarrow>
    (\<exists>k. e = 2 * k + 2 \<and> (\<forall>i<k. buf (pos + 2 * i + 1) \<noteq> 0) \<and> buf (pos + 2 * k + 1) = 0)"
proof -
  have "\<not> size_less buflen 2" "\<not> size_less (buflen - 2) 2"
    using assms by (simp_all add: size_less_nonneg)
  then have "get_active_eof buf pos buflen = (case eof_scan buf pos True 0 of None \<Rightarrow> None | Some eof \<Rightarrow> Some (eof + 2))"
    by (simp add: get_active_eof_def)
  then show ?thesis
    using eof_scan_finds [of _ buf pos 0] eof_scan_finds_only [of buf pos True 0]
    by (auto split: option.splits)
qed

theorem get_active_eof_first_zero_witness:
  "get_active_eof (\<lambda>i. if i = 9 then 0 else 1) 0 4 = Some 10"
proof -
  have "\<exists>k::nat. 10 = 2 * k + 2 \<and> (\<forall>i<k. (\<lambda>i. if i = 9 then 0 else 1 :: u8) (0 + 2 * i + 1) \<noteq> 0)
      \<and> (\<lambda>i. if i = 9 then 0 else 1 :: u8) (0 + 2 * k + 1) = 0"
    by (intro exI [of _ 4]) auto
  then show ?thesis
    using get_active_eof_first_zero [of 4 "\<lambda>i. if i = 9 then 0 else 1" 0 10] by simp
qed

subsection \<open>Parsing active packets\<close>

lemma not_size_less: "int n \<le> x \<Longrightarrow> x < 2 ^ 31 \<Longrightarrow> n < 2 ^ 31 \<Longrightarrow> \<not> size_less x n"
  by (simp add: size_less_nonneg)

text \<open>
  A frame that carries an active header, optional arguments, a complete program and then an
  IPv4/UDP packet is parsed to exactly those positions.  The payload length, however, is computed
  without subtracting the IPv4 header: the payload interval ends 20 bytes behind the IPv4 packet.
\<close>

theorem extract_active_udp:
  assumes "ntohs (load16 buf 12) = AP4_ETHER_TYPE_AP4" "is_activep4 buf 14"
    and "args = ((ntohs (load16 buf 18) AND AP4FLAGMASK_OPT_ARGS) \<noteq> 0)"
    and "code_pos = 24 + (if args then 16 else 0)"
    and "program_at buf code_pos is" "complete_program is"
    and "iph = code_pos + 2 * length is" "load8 buf (iph + 9) = IPPROTO_UDP"
    and "int iph + 28 \<le> pktlen" "pktlen < 2 ^ 31"
  shows "\<exists>h. extract_network_headers buf pktlen = Inr (Some (h, iph + 28))
    \<and> nh_ap4ih h = Some 14 \<and> nh_ap4args h = (if args then Some 24 else None)
    \<and> nh_iph h = iph \<and> nh_udph h = Some (iph + 20) \<and> nh_tcph h = None \<and> nh_payload h = iph + 28
    \<and> int (nh_payload h) + nh_payload_length h = int iph + int (unat (ntohs (load16 buf (iph + 2)))) + 20"
proof -
  have ne: "is \<noteq> []" using assms(6) by (simp add: complete_program_def)
  have pos: "24 \<le> code_pos" "code_pos + 2 \<le> iph"
    using assms(4,7) ne by (cases "is"; simp)+
  have "\<not> size_less pktlen 14" "\<not> size_less (pktlen - 14) 10" "\<not> size_less (pktlen - int iph) 20"
    "\<not> size_less (pktlen - int (iph + 20)) 8"
    using pos assms(9,10) by (simp_all add: not_size_less)
  moreover have "get_active_eof buf code_pos (pktlen - int code_pos) = Some (2 * length is)"
  proof -
    have "\<not> size_less (pktlen - int code_pos) 2" "\<not> size_less (pktlen - int code_pos - 2) 2"
      using pos assms(9,10) by (simp_all add: not_size_less)
    then show ?thesis
      using complete_program_eof [OF assms(5,6)] ne by (cases "is") (simp_all add: get_active_eof_def)
  qed
  moreover have "(17 :: u8) \<noteq> 6" by simp
  ultimately show ?thesis
    using assms(1,2,4,7,8) unfolding assms(3)
    by (auto simp: extract_network_headers_def is_activep4_def Let_def extract_inner_headers_def algebra_simps)
qed

definition demo_frame :: buffer where
  "demo_frame = store_bytes 24 [0, 3, 0, 0] (store16 18 0 (store32 14 (htonl ACTIVEP4SIG)
     (store16 12 (htons AP4_ETHER_TYPE_AP4) ((\<lambda>_. 0)(37 := IPPROTO_UDP)))))"

lemma demo_frame_loads:
  "load16 demo_frame 12 = htons AP4_ETHER_TYPE_AP4" "load32 demo_frame 14 = htonl ACTIVEP4SIG"
  "load16 demo_frame 18 = 0" "htons 0 = 0" "load8 demo_frame 37 = IPPROTO_UDP"
  unfolding demo_frame_def by (simp_all add: buffer_simps) (simp_all add: load8_def htons_def)

theorem extract_active_udp_witness:
  "\<exists>h. extract_network_headers demo_frame 60 = Inr (Some (h, 56)) \<and> nh_iph h = 28 \<and> nh_ap4ih h = Some 14"
proof -
  let ?is = "[\<lparr>instr_flags = 0, instr_opcode = 3\<rparr>, \<lparr>instr_flags = 0, instr_opcode = 0\<rparr>]"
  have "concat (map instr_bytes ?is) = [0, 3, 0, 0]" by (simp add: instr_bytes_def)
  then have "program_at demo_frame 24 ?is"
    unfolding demo_frame_def by (metis program_at_store_bytes)
  moreover have "complete_program ?is" by (simp add: complete_program_def)
  ultimately show ?thesis
    using extract_active_udp [of demo_frame False 24 ?is 28 60] by (auto simp: demo_frame_loads is_activep4_def)
qed

subsection \<open>Ring geometry\<close>

lemma grow_block_size_ok:
  "0 < block_size \<Longrightarrow> \<exists>n. grow_block_size frame_size block_size = Inr (block_size * 2 ^ n)
     \<and> frame_size \<le> block_size * 2 ^ n"
proof (induction frame_size block_size rule: grow_block_size.induct)
  case (1 frame_size block_size)
  show ?case
  proof (cases "block_size < frame_size")
    case True
    with 1 obtain n where "grow_block_size frame_size (2 * block_size) = Inr (2 * block_size * 2 ^ n)"
      "frame_size \<le> 2 * block_size * 2 ^ n"
      by auto
    with True 1(2) show ?thesis
      by (intro exI [of _ "Suc n"]) (simp add: grow_block_size.simps [of frame_size block_size] algebra_simps)
  next
    case False
    then show ?thesis
      by (intro exI [of _ 0]) (simp add: grow_block_size.simps)
  qed
qed

lemma grow_block_size_le:
  "grow_block_size f p = Inr B \<Longrightarrow> f \<le> 2 ^ 24 \<Longrightarrow> p < 2 ^ 25 \<Longrightarrow> B < 2 ^ 25"
proof (induction f p rule: grow_block_size.induct)
  case (1 f p)
  then show ?case
    by (cases "p < f") (auto simp: grow_block_size.simps [of f p] split: if_splits)
qed

lemma frame_offset_step:
  assumes "0 < tp_frame_size req" "tp_frame_size req \<le> tp_block_size req" "i < j"
  shows "frame_offset req i + tp_frame_size req \<le> frame_offset req j"
proof -
  define f B F where "f = tp_frame_size req" and "B = tp_block_size req" and "F = B div f"
  have F: "0 < F" "F * f \<le> B"
    using assms(1,2) by (simp_all add: F_def f_def B_def div_greater_zero_iff)
  have off: "frame_offset req k = k div F * B + k mod F * f" for k
    by (simp add: frame_offset_def F_def f_def B_def Let_def)
  have last: "k mod F * f + f \<le> B" for k
  proof -
    have "Suc (k mod F) * f \<le> F * f" using F(1) by (intro mult_le_mono1) (simp add: Suc_le_eq)
    with F(2) show ?thesis by simp
  qed
  show ?thesis
  proof (cases "i div F = j div F")
    case True
    then have "i mod F < j mod F"
      using assms(3) by (metis div_mult_mod_eq nat_add_left_cancel_less)
    then have "Suc (i mod F) * f \<le> j mod F * f" by (intro mult_le_mono1) simp
    with True show ?thesis by (simp add: off f_def)
  next
    case False
    then have "Suc (i div F) \<le> j div F"
      using assms(3) by (metis Suc_leI div_le_mono nat_less_le)
    then have "Suc (i div F) * B \<le> j div F * B" by (intro mult_le_mono1)
    with last [of i] show ?thesis by (simp add: off f_def)
  qed
qed

text \<open>
  When the ring size does not wrap around 32 bits, every frame of a ring lies inside the mapped
  ring buffer and distinct frames do not overlap; setting up the ring always returns.
\<close>

theorem setup_ring_frames:
  assumes "0 < frame_size" "0 < pagesize" "pagesize \<le> 2 ^ 24" "frame_size \<le> 2 ^ 24"
    and "phys_pages * pagesize < 2 ^ 32 * 128"
  shows "\<exists>req size. setup_ring frame_size pagesize phys_pages = Inr (req, size)
    \<and> (\<forall>i<tp_frame_nr req. frame_offset req i + tp_frame_size req \<le> size)
    \<and> (\<forall>i j. i < j \<longrightarrow> frame_offset req i + tp_frame_size req \<le> frame_offset req j)"
proof -
  obtain B where B: "grow_block_size frame_size pagesize = Inr B" "frame_size \<le> B" "0 < B"
    using grow_block_size_ok [OF assms(2), of frame_size] assms(2) by auto
  have Bmax: "B < 2 ^ 25"
    using grow_block_size_le [OF B(1)] assms(3,4) by simp
  define nr where "nr = phys_pages * pagesize div (128 * B) mod 2 ^ 32"
  have wrap: "B * nr < 2 ^ 32"
  proof -
    have "nr \<le> phys_pages * pagesize div (128 * B)"
      by (simp add: nr_def)
    then have "128 * B * nr \<le> phys_pages * pagesize"
      by (metis B(3) div_times_less_eq_dividend le_trans mult.commute mult_le_mono2)
    with assms(5) have "128 * (B * nr) < 128 * 2 ^ 32" by (simp add: mult.assoc)
    then show ?thesis by simp
  qed
  define req where "req = \<lparr>tp_block_size = B, tp_block_nr = nr, tp_frame_size = frame_size,
    tp_frame_nr = (B div frame_size * nr) mod 2 ^ 32\<rparr>"
  have set: "setup_ring frame_size pagesize phys_pages = Inr (req, B * nr)"
    using B(1) Bmax wrap by (simp add: setup_ring_def Let_def req_def nr_def)
  have step: "frame_offset req i + frame_size \<le> frame_offset req j" if "i < j" for i j
    using frame_offset_step [of req i j] that assms(1) B(2) by (simp add: req_def)
  have "frame_offset req i + frame_size \<le> B * nr" if "i < tp_frame_nr req" for i
  proof -
    have "i < B div frame_size * nr"
      using that by (simp add: req_def)
    then have "frame_offset req i + frame_size \<le> frame_offset req (B div frame_size * nr)"
      by (rule step)
    also have "\<dots> = B * nr"
      using B(2) assms(1) by (simp add: frame_offset_def req_def div_greater_zero_iff)
    finally show ?thesis .
  qed
  with step set show ?thesis
    by (intro exI [of _ req] exI [of _ "B * nr"]) (simp add: req_def)
qed

theorem setup_ring_frames_witness:
  "\<exists>req size. setup_ring 1600 4096 1000000 = Inr (req, size)
    \<and> (\<forall>i<tp_frame_nr req. frame_offset req i + tp_frame_size req \<le> size)"
  using setup_ring_frames [of 1600 4096 1000000] by auto

lemma tx_mmap_frames_spec:
  assumes "enqueued + length is \<le> num_pkts" "distinct is"
  shows "tx_mmap_frames is num_pkts enqueued st =
    ((\<lambda>i. if i \<in> set is \<and> st i = TP_AVAILABLE then TP_SEND_REQUEST else st i),
     enqueued + length (filter (\<lambda>i. st i = TP_AVAILABLE) is))"
  using assms
proof (induction "is" arbitrary: enqueued st)
  case (Cons i "is")
  have "filter (\<lambda>k. (st(i := TP_SEND_REQUEST)) k = TP_AVAILABLE) is = filter (\<lambda>k. st k = TP_AVAILABLE) is"
    using Cons.prems(2) by (intro filter_cong) auto
  with Cons show ?case by (auto simp: fun_eq_iff)
qed (simp add: fun_eq_iff)

text \<open>Every available frame is handed to the kernel, whatever number of packets was asked for.\<close>

lemma tx_mmap_enqueue_all:
  "tx_mmap_enqueue req st num_pkts =
     ((\<lambda>i. if i < tp_frame_nr req \<and> st i = TP_AVAILABLE then TP_SEND_REQUEST else st i),
      length (filter (\<lambda>i. st i = TP_AVAILABLE) [0..<tp_frame_nr req]))"
  unfolding tx_mmap_enqueue_def by (subst tx_mmap_frames_spec) (auto simp: fun_eq_iff)

text \<open>The connection checksum sees only the lower halves of the addresses.\<close>

lemma cksum_5tuple_ignores_high_halves:
  assumes "src AND 0xFFFF = ipv4_src_addr conn AND 0xFFFF" "dst AND 0xFFFF = ipv4_dst_addr conn AND 0xFFFF"
  shows "cksum_5tuple (conn\<lparr>ipv4_src_addr := src, ipv4_dst_addr := dst\<rparr>) = cksum_5tuple conn"
  using assms by (simp add: cksum_5tuple_def)

end
