(* ===== verification/AP4_Packet.thy ===== *)
theory AP4_Packet
  imports AP4_Mutate AP4_Netutils
begin

text \<open>
  The control packets of \<open>dpdk/active.h\<close>, byte by byte.  An \<open>mbuf\<close> is its data area (stale bytes
  included) and its two length fields.  Two pieces of DPDK are parameters: \<open>mac\<close>, the answer of
  \<open>rte_eth_macaddr_get\<close> (\<open>None\<close> for an error), and \<open>cksum\<close>, \<open>rte_ipv4_cksum\<close> applied to the header at
  an offset.  Every constructor leaves the packet half-written when the MAC address is missing.
\<close>

record mbuf =
  mb_data :: buffer
  mb_pkt_len :: nat
  mb_data_len :: nat

type_synonym cksum_fn = "buffer \<Rightarrow> nat \<Rightarrow> u16"

subsection \<open>Header writers shared by the constructors\<close>

definition put_ether_type :: "u16 \<Rightarrow> buffer \<Rightarrow> buffer" where
  "put_ether_type ty b = store16 12 (htons ty) b"

definition put_ether_addrs :: "u8 list \<Rightarrow> buffer \<Rightarrow> buffer" where
  "put_ether_addrs mac b = store_bytes 6 (take 6 mac) (store_bytes 0 (take 6 mac) b)"

definition put_ih :: "u16 \<Rightarrow> int \<Rightarrow> buffer \<Rightarrow> buffer" where
  "put_ih flags fid b =
     store16 22 0 (store16 20 (htons (word_of_int fid)) (store16 18 (htons flags)
       (store32 14 (htonl ACTIVEP4SIG) b)))"

definition put_zero_args :: "buffer \<Rightarrow> buffer" where
  "put_zero_args b = store32 36 0 (store32 32 0 (store32 28 0 (store32 24 0 b)))"

definition put_arg :: "nat \<Rightarrow> u32 \<Rightarrow> buffer \<Rightarrow> buffer" where
  "put_arg i v b = store32 (24 + 4 * i) v b"

text \<open>Control packets carry the opcodes of a program with cleared flags.\<close>

definition opcode_bytes :: "activep4_def_t \<Rightarrow> u8 list" where
  "opcode_bytes p = concat (map (\<lambda>i. instr_bytes (i\<lparr>instr_flags := 0\<rparr>)) (code_list p))"

definition put_code :: "nat \<Rightarrow> activep4_def_t \<Rightarrow> buffer \<Rightarrow> buffer" where
  "put_code pos p b = store_bytes pos (opcode_bytes p) b"

definition put_ipv4 :: "cksum_fn \<Rightarrow> nat \<Rightarrow> u32 \<Rightarrow> buffer \<Rightarrow> buffer" where
  "put_ipv4 cksum pos addr b =
     (let b = store32 (pos + 16) addr (store32 (pos + 12) addr (store16 (pos + 10) 0 (store8 (pos + 9) 0
               (store8 (pos + 8) 64 (store16 (pos + 6) 0 (store16 (pos + 4) 0
                 (store16 (pos + 2) (htons 20) (store8 (pos + 1) 0 (store8 pos 0x45 b)))))))))
      in store16 (pos + 10) (cksum b pos) b)"

definition set_len :: "nat \<Rightarrow> mbuf \<Rightarrow> mbuf" where
  "set_len n m = m\<lparr>mb_pkt_len := n, mb_data_len := n\<rparr>"

subsection \<open>Allocation packets\<close>

text \<open>\<open>mem\<close> and \<open>dem\<close> have \<open>MAX_MEMACCESS\<close> slots each; a longer access list leaves the struct.\<close>

definition put_malloc_req :: "activep4_def_t \<Rightarrow> int arr \<Rightarrow> buffer \<Rightarrow> buffer c_result" where
  "put_malloc_req p dem b =
     (if MAX_MEMACCESS < num_accesses p then Inl OutOfBounds
      else let b = store_bytes 24 (replicate sizeof_malloc_req 0) b;
               b = store8 26 (word_of_int (iglim p)) (store16 24 (htons (of_nat (proglen p))) b);
               b = store_bytes 27 (map (\<lambda>i. word_of_int (access_idx p i)) [0..<num_accesses p]) b
           in Inr (store_bytes 35 (map (\<lambda>i. word_of_int (dem i)) [0..<num_accesses p]) b))"

definition construct_reqalloc_packet ::
  "cksum_fn \<Rightarrow> u8 list option \<Rightarrow> mbuf \<Rightarrow> ('a, 'h) activep4_context_t \<Rightarrow> mbuf c_result" where
  "construct_reqalloc_packet cksum mac m ctxt =
     (let program = current_program ctxt; b = put_ether_type AP4_ETHER_TYPE_AP4 (mb_data m) in
      case mac of
        None \<Rightarrow> Inr (m\<lparr>mb_data := b\<rparr>)
      | Some addr \<Rightarrow>
          bind_result (put_malloc_req program (demand program)
              (put_ih AP4FLAGMASK_FLAG_REQALLOC (ctx_fid ctxt) (put_ether_addrs addr b)))
            (\<lambda>b. Inr (set_len 63 (m\<lparr>mb_data := put_ipv4 cksum 43 (ipv4_srcaddr ctxt) b\<rparr>))))"

definition construct_dealloc_packet ::
  "cksum_fn \<Rightarrow> u8 list option \<Rightarrow> mbuf \<Rightarrow> ('a, 'h) activep4_context_t \<Rightarrow> mbuf c_result" where
  "construct_dealloc_packet cksum mac m ctxt =
     (let program = current_program ctxt; b = put_ether_type AP4_ETHER_TYPE_AP4 (mb_data m) in
      case mac of
        None \<Rightarrow> Inr (m\<lparr>mb_data := b\<rparr>)
      | Some addr \<Rightarrow>
          bind_result (put_malloc_req program (\<lambda>_. 0)
              (put_ih AP4FLAGMASK_FLAG_REQALLOC (ctx_fid ctxt) (put_ether_addrs addr b)))
            (\<lambda>b. Inr (set_len 63 (m\<lparr>mb_data := put_ipv4 cksum 43 (ipv4_srcaddr ctxt) b\<rparr>))))"

definition construct_getalloc_packet ::
  "cksum_fn \<Rightarrow> u8 list option \<Rightarrow> mbuf \<Rightarrow> ('a, 'h) activep4_context_t \<Rightarrow> mbuf c_result" where
  "construct_getalloc_packet cksum mac m ctxt =
     (let b = put_ether_type AP4_ETHER_TYPE_AP4 (mb_data m) in
      case mac of
        None \<Rightarrow> Inr (m\<lparr>mb_data := b\<rparr>)
      | Some addr \<Rightarrow>
          Inr (set_len 44 (m\<lparr>mb_data := put_ipv4 cksum 24 (ipv4_srcaddr ctxt)
            (put_ih AP4FLAGMASK_FLAG_GETALLOC (ctx_fid ctxt) (put_ether_addrs addr b))\<rparr>)))"

subsection \<open>Packets that carry a program\<close>

text \<open>
  The part the remaining constructors share: instructions behind the arguments, then an IPv4
  header, then the lengths.
\<close>

definition finish_program_packet ::
  "cksum_fn \<Rightarrow> ('a, 'h) activep4_context_t \<Rightarrow> mbuf \<Rightarrow> activep4_def_t \<Rightarrow> buffer \<Rightarrow> mbuf" where
  "finish_program_packet cksum ctxt m program b =
     (let iph = 40 + proglen program * sizeof_instr
      in set_len (iph + sizeof_ipv4)
           (m\<lparr>mb_data := put_ipv4 cksum iph (ipv4_srcaddr ctxt) (put_code 40 program b)\<rparr>))"

definition construct_reallocate_packet ::
  "cksum_fn \<Rightarrow> u8 list option \<Rightarrow> mbuf \<Rightarrow> ('a, 'h) activep4_context_t \<Rightarrow> mbuf c_result" where
  "construct_reallocate_packet cksum mac m ctxt =
     (let b = put_ether_type AP4_ETHER_TYPE_AP4 (mb_data m) in
      case mac of
        None \<Rightarrow> Inr (m\<lparr>mb_data := b\<rparr>)
      | Some addr \<Rightarrow>
          bind_result (construct_nop_program zero_def (instr_set ctxt) 0)
            (\<lambda>program. Inr (finish_program_packet cksum ctxt m program
              (put_zero_args (put_ih (AP4FLAGMASK_OPT_ARGS OR AP4FLAGMASK_FLAG_REMAPPED OR AP4FLAGMASK_FLAG_ACK
                 OR AP4FLAGMASK_FLAG_GETALLOC) (ctx_fid ctxt) (put_ether_addrs addr b))))))"

definition construct_heartbeat_packet ::
  "cksum_fn \<Rightarrow> u8 list option \<Rightarrow> mbuf \<Rightarrow> ('a, 'h) activep4_context_t \<Rightarrow> mbuf c_result" where
  "construct_heartbeat_packet cksum mac m ctxt =
     (let b = put_ether_type AP4_ETHER_TYPE_AP4 (mb_data m) in
      case mac of
        None \<Rightarrow> Inr (m\<lparr>mb_data := b\<rparr>)
      | Some addr \<Rightarrow>
          bind_result (construct_nop_program zero_def (instr_set ctxt) 0)
            (\<lambda>program. Inr (finish_program_packet cksum ctxt m program
              (put_zero_args (put_ih (AP4FLAGMASK_OPT_ARGS OR AP4FLAGMASK_FLAG_MARKED) (ctx_fid ctxt)
                 (put_ether_addrs addr b))))))"

text \<open>The caches of generated programs are threaded through; a null program ends the process.\<close>

definition construct_snapshot_packet ::
  "cksum_fn \<Rightarrow> u8 list option \<Rightarrow> mbuf \<Rightarrow> ('a, 'h) activep4_context_t \<Rightarrow> int \<Rightarrow> int \<Rightarrow> activep4_def_t arr \<Rightarrow> bool
     \<Rightarrow> (mbuf \<times> activep4_def_t arr) c_result" where
  "construct_snapshot_packet cksum mac m ctxt stage_id mem_addr cache complete =
     (let b = put_ether_type AP4_ETHER_TYPE_AP4 (mb_data m) in
      case mac of
        None \<Rightarrow> Inr (m\<lparr>mb_data := b\<rparr>, cache)
      | Some addr \<Rightarrow>
          (let flags = (if complete then AP4FLAGMASK_OPT_ARGS OR AP4FLAGMASK_FLAG_REMAPPED OR AP4FLAGMASK_FLAG_ACK
                else AP4FLAGMASK_OPT_ARGS OR AP4FLAGMASK_FLAG_REMAPPED OR AP4FLAGMASK_FLAG_INITIATED
                  OR AP4FLAGMASK_FLAG_PRELOAD);
               b = put_zero_args (put_ih flags (ctx_fid ctxt) (put_ether_addrs addr b)) in
           if complete then
             bind_result (construct_nop_program zero_def (instr_set ctxt) 0)
               (\<lambda>program. Inr (finish_program_packet cksum ctxt m program b, cache))
           else
             (let b = put_arg ACTIVE_DEFAULT_ARG_MBR2 (htonl (word_of_int stage_id))
                    (put_arg ACTIVE_DEFAULT_ARG_MAR (htonl (word_of_int mem_addr)) b) in
              bind_result (construct_memsync_program stage_id (instr_set ctxt) cache)
                (\<lambda>(r, cache). case r of
                     None \<Rightarrow> Inl ExitFailure
                   | Some s \<Rightarrow> Inr (finish_program_packet cksum ctxt m (cache s) b, cache)))))"

definition construct_memremap_packet ::
  "cksum_fn \<Rightarrow> u8 list option \<Rightarrow> mbuf \<Rightarrow> ('a, 'h) activep4_context_t \<Rightarrow> int \<Rightarrow> int \<Rightarrow> u32 \<Rightarrow> activep4_def_t arr
     \<Rightarrow> (mbuf \<times> activep4_def_t arr) c_result" where
  "construct_memremap_packet cksum mac m ctxt stage_id mem_addr data cache =
     (let b = put_ether_type AP4_ETHER_TYPE_AP4 (mb_data m) in
      case mac of
        None \<Rightarrow> Inr (m\<lparr>mb_data := b\<rparr>, cache)
      | Some addr \<Rightarrow>
          (let b = put_zero_args (put_ih (AP4FLAGMASK_OPT_ARGS OR AP4FLAGMASK_FLAG_INITIATED OR AP4FLAGMASK_FLAG_PRELOAD)
                 (ctx_fid ctxt) (put_ether_addrs addr b));
               b = put_arg ACTIVE_DEFAULT_ARG_MBR2 (htonl (word_of_int stage_id))
                    (put_arg ACTIVE_DEFAULT_ARG_MBR (htonl data)
                      (put_arg ACTIVE_DEFAULT_ARG_MAR (htonl (word_of_int mem_addr)) b)) in
           bind_result (construct_memset_program stage_id (instr_set ctxt) cache)
             (\<lambda>(r, cache). case r of
                  None \<Rightarrow> Inl ExitFailure
                | Some s \<Rightarrow> Inr (finish_program_packet cksum ctxt m (cache s) b, cache))))"

subsection \<open>What a reader of a control packet sees\<close>

lemma length_opcode_bytes [simp]: "length (opcode_bytes p) = 2 * proglen p"
proof -
  have "opcode_bytes p = concat (map instr_bytes (map (\<lambda>i. i\<lparr>instr_flags := 0\<rparr>) (code_list p)))"
    by (simp add: opcode_bytes_def comp_def)
  then show ?thesis by (simp only: length_instr_bytes) (simp add: code_list_def)
qed

text \<open>The fields every control packet has, at the offsets the switch and the filters read.\<close>

definition ctrl_packet :: "mbuf \<Rightarrow> u16 \<Rightarrow> int \<Rightarrow> bool" where
  "ctrl_packet m flags fid \<longleftrightarrow>
     ntohs (load16 (mb_data m) 12) = AP4_ETHER_TYPE_AP4 \<and> is_activep4 (mb_data m) 14
     \<and> ntohs (load16 (mb_data m) 18) = flags \<and> ntohs (load16 (mb_data m) 20) = word_of_int fid
     \<and> load16 (mb_data m) 22 = 0 \<and> mb_data_len m = mb_pkt_len m"

definition ipv4_at :: "buffer \<Rightarrow> nat \<Rightarrow> u32 \<Rightarrow> bool" where
  "ipv4_at b pos addr \<longleftrightarrow> load8 b pos = 0x45 \<and> ntohs (load16 b (pos + 2)) = 20
     \<and> load32 b (pos + 12) = addr \<and> load32 b (pos + 16) = addr"

lemma put_ipv4_below [buffer_simps]:
  "j + 2 \<le> pos \<Longrightarrow> load16 (put_ipv4 cksum pos addr b) j = load16 b j"
  "j + 4 \<le> pos \<Longrightarrow> load32 (put_ipv4 cksum pos addr b) j = load32 b j"
  "j < pos \<Longrightarrow> load8 (put_ipv4 cksum pos addr b) j = load8 b j"
  by (simp_all add: put_ipv4_def Let_def buffer_simps)

lemma put_ipv4_at: "ipv4_at (put_ipv4 cksum pos addr b) pos addr"
  by (simp add: ipv4_at_def put_ipv4_def Let_def buffer_simps)

lemma put_ipv4_frame: "pos + 20 \<le> n \<Longrightarrow> agree_from n (put_ipv4 cksum pos addr b) c \<longleftrightarrow> agree_from n b c"
  by (simp add: put_ipv4_def Let_def)

lemma put_headers_frame:
  "24 \<le> n \<Longrightarrow> agree_from n (put_ih flags fid (put_ether_addrs addr (put_ether_type ty b))) c \<longleftrightarrow> agree_from n b c"
  by (simp add: put_ih_def put_ether_addrs_def put_ether_type_def)

lemma put_headers_loads [buffer_simps]:
  fixes b :: buffer and flags fid addr ty
  defines "h \<equiv> put_ih flags fid (put_ether_addrs addr (put_ether_type ty b))"
  assumes "length addr = 6"
  shows "load16 h 12 = htons ty" "load32 h 14 = htonl ACTIVEP4SIG" "load16 h 18 = htons flags"
    "load16 h 20 = htons (word_of_int fid)" "load16 h 22 = 0"
  using assms(2)
  by (simp_all add: h_def put_ih_def put_ether_addrs_def put_ether_type_def buffer_simps)

lemma put_args_loads [buffer_simps]:
  "j + 2 \<le> 24 \<Longrightarrow> load16 (put_zero_args b) j = load16 b j"
  "j + 4 \<le> 24 \<Longrightarrow> load32 (put_zero_args b) j = load32 b j"
  "j + 2 \<le> 24 \<Longrightarrow> load16 (put_arg i v b) j = load16 b j"
  "j + 4 \<le> 24 \<Longrightarrow> load32 (put_arg i v b) j = load32 b j"
  by (simp_all add: put_zero_args_def put_arg_def buffer_simps)

lemma put_arg_same [buffer_simps]: "load32 (put_arg i v b) (24 + 4 * i) = v"
  by (simp add: put_arg_def buffer_simps)

lemma put_arg_other [buffer_simps]: "i \<noteq> k \<Longrightarrow> load32 (put_arg i v b) (24 + 4 * k) = load32 b (24 + 4 * k)"
  unfolding put_arg_def by (rule load32_store32_other) linarith

lemma put_code_below [buffer_simps]:
  "j + 2 \<le> pos \<Longrightarrow> load16 (put_code pos p b) j = load16 b j"
  "j + 4 \<le> pos \<Longrightarrow> load32 (put_code pos p b) j = load32 b j"
  by (simp_all add: put_code_def buffer_simps)

lemma put_code_program:
  "program_at (put_code pos p b) pos (map (\<lambda>i. i\<lparr>instr_flags := 0\<rparr>) (code_list p))"
proof -
  have "opcode_bytes p = concat (map instr_bytes (map (\<lambda>i. i\<lparr>instr_flags := 0\<rparr>) (code_list p)))"
    by (simp add: opcode_bytes_def comp_def)
  then show ?thesis by (simp only: put_code_def program_at_store_bytes)
qed

lemma program_at_put_ipv4:
  "program_at b pos is \<Longrightarrow> pos + 2 * length is \<le> q \<Longrightarrow> program_at (put_ipv4 cksum q addr b) pos is"
  using put_ipv4_below(3) [of _ q cksum addr b] by (auto simp: program_at_def load8_def)

text \<open>The specification of a finished program packet, given what was written in front.\<close>

lemma finish_program_packet_spec:
  fixes m :: mbuf and cksum and ctxt :: "('a, 'h) activep4_context_t" and program b
  defines "r \<equiv> finish_program_packet cksum ctxt m program b"
  assumes "proglen program \<le> MAXPROGLEN"
  shows "mb_pkt_len r = 60 + 2 * proglen program" "mb_data_len r = mb_pkt_len r"
    "j + 2 \<le> 40 \<Longrightarrow> load16 (mb_data r) j = load16 b j"
    "j + 4 \<le> 40 \<Longrightarrow> load32 (mb_data r) j = load32 b j"
    "program_at (mb_data r) 40 (map (\<lambda>i. i\<lparr>instr_flags := 0\<rparr>) (code_list program))"
    "ipv4_at (mb_data r) (40 + 2 * proglen program) (ipv4_srcaddr ctxt)"
    "agree_from (60 + 2 * proglen program) (mb_data r) c \<longleftrightarrow> agree_from (60 + 2 * proglen program) b c"
proof -
  have r: "r = set_len (60 + 2 * proglen program) (m\<lparr>mb_data :=
      put_ipv4 cksum (40 + 2 * proglen program) (ipv4_srcaddr ctxt) (put_code 40 program b)\<rparr>)"
    by (simp add: r_def finish_program_packet_def Let_def mult.commute)
  show "mb_pkt_len r = 60 + 2 * proglen program" "mb_data_len r = mb_pkt_len r"
    "j + 2 \<le> 40 \<Longrightarrow> load16 (mb_data r) j = load16 b j"
    "j + 4 \<le> 40 \<Longrightarrow> load32 (mb_data r) j = load32 b j"
    "ipv4_at (mb_data r) (40 + 2 * proglen program) (ipv4_srcaddr ctxt)"
    "agree_from (60 + 2 * proglen program) (mb_data r) c \<longleftrightarrow> agree_from (60 + 2 * proglen program) b c"
    by (simp_all add: r set_len_def buffer_simps put_ipv4_at put_ipv4_frame put_code_def)
  show "program_at (mb_data r) 40 (map (\<lambda>i. i\<lparr>instr_flags := 0\<rparr>) (code_list program))"
    by (simp add: r set_len_def) (intro program_at_put_ipv4 put_code_program, simp add: code_list_def)
qed


text \<open>A program packet: control fields, arguments, program, IPv4 header, nothing written behind it.\<close>

definition program_packet ::
  "mbuf \<Rightarrow> buffer \<Rightarrow> u16 \<Rightarrow> int \<Rightarrow> u32 \<Rightarrow> activep4_def_t \<Rightarrow> bool" where
  "program_packet r old flags fid addr program \<longleftrightarrow>
     ctrl_packet r flags fid \<and> mb_pkt_len r = 60 + 2 * proglen program
     \<and> program_at (mb_data r) 40 (map (\<lambda>i. i\<lparr>instr_flags := 0\<rparr>) (code_list program))
     \<and> ipv4_at (mb_data r) (40 + 2 * proglen program) addr
     \<and> agree_from (mb_pkt_len r) (mb_data r) old"

definition ctrl_arg :: "mbuf \<Rightarrow> nat \<Rightarrow> u32" where
  "ctrl_arg m i = ntohl (load32 (mb_data m) (24 + 4 * i))"

lemma finish_packet:
  assumes "proglen program \<le> MAXPROGLEN" "length addr = 6"
    and "\<And>j. j + 2 \<le> 24 \<Longrightarrow> load16 b j = load16 (put_ih flags fid (put_ether_addrs addr (put_ether_type AP4_ETHER_TYPE_AP4 old))) j"
    and "\<And>j. j + 4 \<le> 24 \<Longrightarrow> load32 b j = load32 (put_ih flags fid (put_ether_addrs addr (put_ether_type AP4_ETHER_TYPE_AP4 old))) j"
    and "\<And>n. 40 \<le> n \<Longrightarrow> agree_from n b old"
  shows "program_packet (finish_program_packet cksum ctxt m program b) old flags fid (ipv4_srcaddr ctxt) program"
  using assms(2)
  by (simp add: program_packet_def ctrl_packet_def is_activep4_def finish_program_packet_spec [OF assms(1)]
      assms(3-5) put_headers_loads)

lemma finish_packet_arg:
  assumes "proglen program \<le> MAXPROGLEN" "i < 4"
  shows "ctrl_arg (finish_program_packet cksum ctxt m program b) i = ntohl (load32 b (24 + 4 * i))"
  using assms(2) finish_program_packet_spec(4) [OF assms(1), where j = "24 + 4 * i" and b = b]
  by (simp add: ctrl_arg_def)

lemma put_zero_args_frame: "40 \<le> n \<Longrightarrow> agree_from n (put_zero_args b) c \<longleftrightarrow> agree_from n b c"
  by (simp add: put_zero_args_def)

lemma put_arg_frame: "i < 4 \<Longrightarrow> 40 \<le> n \<Longrightarrow> agree_from n (put_arg i v b) c \<longleftrightarrow> agree_from n b c"
  by (simp add: put_arg_def)

lemma put_zero_args_arg [buffer_simps]: "i < 4 \<Longrightarrow> load32 (put_zero_args b) (24 + 4 * i) = 0"
proof -
  assume "i < 4"
  then consider "i = 0" | "i = 1" | "i = 2" | "i = 3" by linarith
  then show ?thesis by cases (simp_all add: put_zero_args_def buffer_simps)
qed

lemmas packet_frames = put_zero_args_frame put_arg_frame put_headers_frame

lemma snapshot_packet_ok:
  assumes "s < NUM_STAGES" "proglen (cache s) = 0" "num_instr (instr_set ctxt) \<le> MAXINSTRSET"
    "knows (instr_set ctxt) sync_mnemonics" "length addr = 6"
  shows "\<exists>r p. construct_snapshot_packet cksum (Some addr) m ctxt (int s) mem_addr cache False = Inr (r, cache(s := p))
    \<and> program_packet r (mb_data m) (AP4FLAGMASK_OPT_ARGS OR AP4FLAGMASK_FLAG_REMAPPED OR AP4FLAGMASK_FLAG_INITIATED
         OR AP4FLAGMASK_FLAG_PRELOAD) (ctx_fid ctxt) (ipv4_srcaddr ctxt) p
    \<and> code_list p = map (assembled (instr_set ctxt)) (memsync_mnemonics s)
    \<and> ctrl_arg r ACTIVE_DEFAULT_ARG_MAR = word_of_int mem_addr
    \<and> ctrl_arg r ACTIVE_DEFAULT_ARG_MBR2 = of_nat s"
proof -
  obtain p where p: "construct_memsync_program (int s) (instr_set ctxt) cache = Inr (Some s, cache(s := p))"
    "proglen p \<le> MAXPROGLEN" "code_list p = map (assembled (instr_set ctxt)) (memsync_mnemonics s)"
    using construct_memsync_ok [where s = s and cache = cache, OF assms(1-4)] by blast
  let ?h = "put_ih (AP4FLAGMASK_OPT_ARGS OR AP4FLAGMASK_FLAG_REMAPPED OR AP4FLAGMASK_FLAG_INITIATED
         OR AP4FLAGMASK_FLAG_PRELOAD) (ctx_fid ctxt) (put_ether_addrs addr (put_ether_type AP4_ETHER_TYPE_AP4 (mb_data m)))"
  let ?b = "put_arg 2 (htonl (word_of_int (int s))) (put_arg 0 (htonl (word_of_int mem_addr)) (put_zero_args ?h))"
  let ?r = "finish_program_packet cksum ctxt m p ?b"
  have "construct_snapshot_packet cksum (Some addr) m ctxt (int s) mem_addr cache False = Inr (?r, cache(s := p))"
    using p(1) by (simp add: construct_snapshot_packet_def Let_def)
  moreover have "program_packet ?r (mb_data m) (AP4FLAGMASK_OPT_ARGS OR AP4FLAGMASK_FLAG_REMAPPED OR AP4FLAGMASK_FLAG_INITIATED
         OR AP4FLAGMASK_FLAG_PRELOAD) (ctx_fid ctxt) (ipv4_srcaddr ctxt) p"
    by (rule finish_packet [OF p(2) assms(5)]) (simp_all only: put_args_loads packet_frames, simp_all)
  moreover have "ctrl_arg ?r 0 = word_of_int mem_addr" "ctrl_arg ?r 2 = of_nat s"
    using put_arg_other [of 2 0 "htonl (word_of_int (int s))"] put_arg_same [of 2] put_arg_same [of 0]
    by (simp_all add: finish_packet_arg [OF p(2)])
  ultimately show ?thesis using p(3) by blast
qed


text \<open>
  The packet that reads one word of switch memory is well formed: it carries the control
  header with the remap, initiate and preload flags, the address in the first argument and the
  stage in the third, the memory-read program of that stage, an IPv4 header behind the program,
  and no byte is written beyond its length.
\<close>

theorem snapshot_packet_layout:
  assumes "s < NUM_STAGES" "proglen (cache s) = 0" "num_instr (instr_set ctxt) \<le> MAXINSTRSET"
    "knows (instr_set ctxt) sync_mnemonics" "length addr = 6"
  shows "\<exists>r p. construct_snapshot_packet cksum (Some addr) m ctxt (int s) mem_addr cache False = Inr (r, cache(s := p))
    \<and> program_packet r (mb_data m) (AP4FLAGMASK_OPT_ARGS OR AP4FLAGMASK_FLAG_REMAPPED OR AP4FLAGMASK_FLAG_INITIATED
         OR AP4FLAGMASK_FLAG_PRELOAD) (ctx_fid ctxt) (ipv4_srcaddr ctxt) p
    \<and> code_list p = map (assembled (instr_set ctxt)) (memsync_mnemonics s)
    \<and> ctrl_arg r ACTIVE_DEFAULT_ARG_MAR = word_of_int mem_addr
    \<and> ctrl_arg r ACTIVE_DEFAULT_ARG_MBR2 = of_nat s"
  using assms by (rule snapshot_packet_ok)

definition demo_ctxt :: "(unit, unit) activep4_context_t" where
  "demo_ctxt = \<lparr>ctx_id = 0, ctx_fid = 7, active_tx_enabled = True, active_heartbeat_enabled = False, is_active = True,
     status = SNAPSHOTTING, active_timer_enabled = False, ctrl_ts_lastsent = 0, ctrl_timer_lasttick = 0,
     telemetry = \<lparr>is_initializing = False, allocation_is_active = False, memwrite_is_active = False,
       allocation_request_start_ts = 0, allocation_request_stop_ts = 0, mem_write_start_ts = 0, mem_write_stop_ts = 0\<rparr>,
     instr_set = demo_iset, programs = (\<lambda>_. demo_program), num_programs = 1, current_pid = 0,
     allocation = demo_memory, membuf = zero_memory, is_elastic = True, ctx_data = (\<lambda>_. 0),
     ipv4_srcaddr = 0x0A000001, app_context = (), timer_interval_us = 0, handlers = ()\<rparr>"

lemma demo_ctxt_iset: "instr_set demo_ctxt = demo_iset" "knows demo_iset sync_mnemonics"
  by (simp_all add: demo_ctxt_def sync_mnemonics_def)

theorem snapshot_packet_layout_witness:
  "\<exists>r p. construct_snapshot_packet (\<lambda>_ _. 0) (Some [1, 2, 3, 4, 5, 6]) \<lparr>mb_data = (\<lambda>_. 9), mb_pkt_len = 0, mb_data_len = 0\<rparr>
      demo_ctxt 4 100 (\<lambda>_. zero_def) False = Inr (r, (\<lambda>_. zero_def)(4 := p))
    \<and> ctrl_arg r 0 = 100 \<and> ctrl_arg r 2 = 4"
  using snapshot_packet_layout [of 4 "\<lambda>_. zero_def" demo_ctxt "[1, 2, 3, 4, 5, 6]" "\<lambda>_ _. 0"
      "\<lparr>mb_data = (\<lambda>_. 9), mb_pkt_len = 0, mb_data_len = 0\<rparr>" 100]
  by (auto simp: demo_ctxt_iset zero_def_def)

text \<open>
  The packet that writes one word of switch memory carries address, data and stage in its first
  three arguments and the memory-write program of the stage.
\<close>

theorem memremap_packet_layout:
  assumes "s < NUM_STAGES" "proglen (cache s) = 0" "num_instr (instr_set ctxt) \<le> MAXINSTRSET"
    "knows (instr_set ctxt) sync_mnemonics" "length addr = 6"
  shows "\<exists>r p. construct_memremap_packet cksum (Some addr) m ctxt (int s) mem_addr data cache = Inr (r, cache(s := p))
    \<and> program_packet r (mb_data m) (AP4FLAGMASK_OPT_ARGS OR AP4FLAGMASK_FLAG_INITIATED OR AP4FLAGMASK_FLAG_PRELOAD)
         (ctx_fid ctxt) (ipv4_srcaddr ctxt) p
    \<and> code_list p = map (assembled (instr_set ctxt)) (memset_mnemonics s)
    \<and> ctrl_arg r ACTIVE_DEFAULT_ARG_MAR = word_of_int mem_addr
    \<and> ctrl_arg r ACTIVE_DEFAULT_ARG_MBR = data
    \<and> ctrl_arg r ACTIVE_DEFAULT_ARG_MBR2 = of_nat s"
proof -
  obtain p where p: "construct_memset_program (int s) (instr_set ctxt) cache = Inr (Some s, cache(s := p))"
    "proglen p \<le> MAXPROGLEN" "code_list p = map (assembled (instr_set ctxt)) (memset_mnemonics s)"
    using construct_memset_ok [where s = s and cache = cache, OF assms(1-4)] by blast
  let ?h = "put_ih (AP4FLAGMASK_OPT_ARGS OR AP4FLAGMASK_FLAG_INITIATED OR AP4FLAGMASK_FLAG_PRELOAD)
         (ctx_fid ctxt) (put_ether_addrs addr (put_ether_type AP4_ETHER_TYPE_AP4 (mb_data m)))"
  let ?b = "put_arg 2 (htonl (word_of_int (int s))) (put_arg 1 (htonl data) (put_arg 0 (htonl (word_of_int mem_addr)) (put_zero_args ?h)))"
  let ?r = "finish_program_packet cksum ctxt m p ?b"
  have "construct_memremap_packet cksum (Some addr) m ctxt (int s) mem_addr data cache = Inr (?r, cache(s := p))"
    using p(1) by (simp add: construct_memremap_packet_def Let_def)
  moreover have "program_packet ?r (mb_data m) (AP4FLAGMASK_OPT_ARGS OR AP4FLAGMASK_FLAG_INITIATED OR AP4FLAGMASK_FLAG_PRELOAD)
      (ctx_fid ctxt) (ipv4_srcaddr ctxt) p"
    by (rule finish_packet [OF p(2) assms(5)]) (simp_all only: put_args_loads packet_frames, simp_all)
  moreover have "ctrl_arg ?r 0 = word_of_int mem_addr" "ctrl_arg ?r 1 = data" "ctrl_arg ?r 2 = of_nat s"
    using put_arg_other [of 2 0 "htonl (word_of_int (int s))"] put_arg_other [of 2 1 "htonl (word_of_int (int s))"]
      put_arg_other [of 1 0 "htonl data"] put_arg_same [of 2] put_arg_same [of 1] put_arg_same [of 0]
    by (simp_all add: finish_packet_arg [OF p(2)])
  ultimately show ?thesis using p(3) by blast
qed

theorem memremap_packet_layout_witness:
  "\<exists>r p. construct_memremap_packet (\<lambda>_ _. 0) (Some [1, 2, 3, 4, 5, 6]) \<lparr>mb_data = (\<lambda>_. 9), mb_pkt_len = 0, mb_data_len = 0\<rparr>
      demo_ctxt 4 100 77 (\<lambda>_. zero_def) = Inr (r, (\<lambda>_. zero_def)(4 := p))
    \<and> ctrl_arg r 0 = 100 \<and> ctrl_arg r 1 = 77 \<and> ctrl_arg r 2 = 4"
  using memremap_packet_layout [of 4 "\<lambda>_. zero_def" demo_ctxt "[1, 2, 3, 4, 5, 6]" "\<lambda>_ _. 0"
      "\<lparr>mb_data = (\<lambda>_. 9), mb_pkt_len = 0, mb_data_len = 0\<rparr>" 100 77]
  by (auto simp: demo_ctxt_iset zero_def_def)

subsection \<open>Allocation requests\<close>

lemma put_malloc_req_loads:
  assumes "put_malloc_req p dem b = Inr b'"
  shows "j + 2 \<le> 24 \<Longrightarrow> load16 b' j = load16 b j" "j + 4 \<le> 24 \<Longrightarrow> load32 b' j = load32 b j"
    "load16 b' 24 = htons (of_nat (proglen p))" "load8 b' 26 = word_of_int (iglim p)"
    "i < MAX_MEMACCESS \<Longrightarrow> load8 b' (27 + i) = (if i < num_accesses p then word_of_int (access_idx p i) else 0)"
    "i < MAX_MEMACCESS \<Longrightarrow> load8 b' (35 + i) = (if i < num_accesses p then word_of_int (dem i) else 0)"
    "43 \<le> n \<Longrightarrow> agree_from n b' c \<longleftrightarrow> agree_from n b c"
proof -
  have n: "num_accesses p \<le> 8"
    and b': "b' = store_bytes 35 (map (\<lambda>i. word_of_int (dem i)) [0..<num_accesses p])
      (store_bytes 27 (map (\<lambda>i. word_of_int (access_idx p i)) [0..<num_accesses p])
        (store8 26 (word_of_int (iglim p)) (store16 24 (htons (of_nat (proglen p)))
          (store_bytes 24 (replicate 19 0) b))))"
    using assms by (auto simp: put_malloc_req_def Let_def split: if_splits)
  show "j + 2 \<le> 24 \<Longrightarrow> load16 b' j = load16 b j" "j + 4 \<le> 24 \<Longrightarrow> load32 b' j = load32 b j"
    "load16 b' 24 = htons (of_nat (proglen p))" "load8 b' 26 = word_of_int (iglim p)"
    "43 \<le> n \<Longrightarrow> agree_from n b' c \<longleftrightarrow> agree_from n b c"
    using n by (simp_all add: b' buffer_simps)
  show "i < MAX_MEMACCESS \<Longrightarrow> load8 b' (27 + i) = (if i < num_accesses p then word_of_int (access_idx p i) else 0)"
    using n by (auto simp: b' load8_def store_bytes_def store8_def store16_def)
  show "i < MAX_MEMACCESS \<Longrightarrow> load8 b' (35 + i) = (if i < num_accesses p then word_of_int (dem i) else 0)"
    using n by (auto simp: b' load8_def store_bytes_def store8_def store16_def)
qed



lemma construct_nop_ok:
  assumes "knows iset [''RETURN'', ''EOF'']"
  shows "\<exists>p. construct_nop_program zero_def iset 0 = Inr p \<and> proglen p = 2
    \<and> code_list p = map (assembled iset) [''RETURN'', ''EOF'']"
  using add_instructions_from_empty [of zero_def iset "[''RETURN'', ''EOF'']"] assms
  by (auto simp: construct_nop_spec zero_def_def)

text \<open>The completion, reallocation and heartbeat packets: same layout, a two-instruction program.\<close>

lemma completion_packet_layouts:
  assumes "knows (instr_set ctxt) [''RETURN'', ''EOF'']" "length addr = 6"
  shows "\<exists>r p. construct_reallocate_packet cksum (Some addr) m ctxt = Inr r
      \<and> program_packet r (mb_data m) (AP4FLAGMASK_OPT_ARGS OR AP4FLAGMASK_FLAG_REMAPPED OR AP4FLAGMASK_FLAG_ACK
         OR AP4FLAGMASK_FLAG_GETALLOC) (ctx_fid ctxt) (ipv4_srcaddr ctxt) p"
    "\<exists>r p. construct_heartbeat_packet cksum (Some addr) m ctxt = Inr r
      \<and> program_packet r (mb_data m) (AP4FLAGMASK_OPT_ARGS OR AP4FLAGMASK_FLAG_MARKED) (ctx_fid ctxt) (ipv4_srcaddr ctxt) p"
    "\<exists>r p. construct_snapshot_packet cksum (Some addr) m ctxt s a cache True = Inr (r, cache)
      \<and> program_packet r (mb_data m) (AP4FLAGMASK_OPT_ARGS OR AP4FLAGMASK_FLAG_REMAPPED OR AP4FLAGMASK_FLAG_ACK)
         (ctx_fid ctxt) (ipv4_srcaddr ctxt) p"
proof -
  obtain p where p: "construct_nop_program zero_def (instr_set ctxt) 0 = Inr p" "proglen p = 2"
    using construct_nop_ok [OF assms(1)] by blast
  have pp: "program_packet (finish_program_packet cksum ctxt m p (put_zero_args (put_ih flags (ctx_fid ctxt)
      (put_ether_addrs addr (put_ether_type AP4_ETHER_TYPE_AP4 (mb_data m)))))) (mb_data m) flags (ctx_fid ctxt) (ipv4_srcaddr ctxt) p"
    for flags
    using p(2) by (intro finish_packet [OF _ assms(2)]) (simp_all only: put_args_loads packet_frames, simp_all)
  show "\<exists>r p. construct_reallocate_packet cksum (Some addr) m ctxt = Inr r
      \<and> program_packet r (mb_data m) (AP4FLAGMASK_OPT_ARGS OR AP4FLAGMASK_FLAG_REMAPPED OR AP4FLAGMASK_FLAG_ACK
         OR AP4FLAGMASK_FLAG_GETALLOC) (ctx_fid ctxt) (ipv4_srcaddr ctxt) p"
    "\<exists>r p. construct_heartbeat_packet cksum (Some addr) m ctxt = Inr r
      \<and> program_packet r (mb_data m) (AP4FLAGMASK_OPT_ARGS OR AP4FLAGMASK_FLAG_MARKED) (ctx_fid ctxt) (ipv4_srcaddr ctxt) p"
    "\<exists>r p. construct_snapshot_packet cksum (Some addr) m ctxt s a cache True = Inr (r, cache)
      \<and> program_packet r (mb_data m) (AP4FLAGMASK_OPT_ARGS OR AP4FLAGMASK_FLAG_REMAPPED OR AP4FLAGMASK_FLAG_ACK)
         (ctx_fid ctxt) (ipv4_srcaddr ctxt) p"
    unfolding construct_reallocate_packet_def construct_heartbeat_packet_def construct_snapshot_packet_def Let_def
    using p(1) pp by auto
qed

end
