(* ===== verification/AP4_Encap.thy ===== *)
theory AP4_Encap
  imports AP4_Packet
begin

text \<open>
  The transmit filter of \<open>dpdk/encap.h\<close> and the statistics and telemetry helpers of
  \<open>dpdk/utils.h\<close>: a packet of an active application gets the active headers and the mutated
  program inserted behind its Ethernet header.

  \<open>ops\<close> gives the function-pointer table that a context has installed.  Cycle counts and their
  conversion to milliseconds (a floating-point division by the TSC frequency) are arguments.
\<close>

abbreviation (input) MAX_TXSTAT_SAMPLES :: nat where "MAX_TXSTAT_SAMPLES \<equiv> 1000000"
abbreviation (input) STATS_ITVL_MS :: u64 where "STATS_ITVL_MS \<equiv> 1"

subsection \<open>Model\<close>

definition telemetry_allocation_start :: "u64 \<Rightarrow> ('a, 'h) activep4_context_t \<Rightarrow> ('a, 'h) activep4_context_t" where
  "telemetry_allocation_start now ctxt =
     (if \<not> allocation_is_active (telemetry ctxt)
      then ctxt\<lparr>telemetry := (telemetry ctxt)\<lparr>allocation_request_start_ts := now, allocation_is_active := True\<rparr>\<rparr>
      else ctxt)"

definition update_active_tx_stats ::
  "(u64 \<Rightarrow> u64) \<Rightarrow> u64 \<Rightarrow> active_state \<Rightarrow> active_app_stats_t \<Rightarrow> active_app_stats_t c_result" where
  "update_active_tx_stats to_ms now st stats =
     (if MAX_TXSTAT_SAMPLES \<le> st_num_samples stats then Inl OutOfBounds
      else let n = st_num_samples stats;
               stats = stats\<lparr>tx_total := (tx_total stats)(n := tx_total stats n + 1)\<rparr>;
               stats = (if st = TRANSMITTING then stats\<lparr>tx_active := (tx_active stats)(n := tx_active stats n + 1)\<rparr> else stats)
           in Inr (if STATS_ITVL_MS \<le> to_ms (now - st_ts_last stats) \<and> n < MAX_TXSTAT_SAMPLES
                then stats\<lparr>st_ts_last := now, st_ts := (st_ts stats)(n := to_ms (now - st_ts_ref stats)),
                     st_num_samples := Suc n\<rparr>
                else stats))"

text \<open>Moving the packet up, from the last byte down to the first byte behind the Ethernet header.\<close>

fun shift_up :: "int \<Rightarrow> nat list \<Rightarrow> buffer \<Rightarrow> buffer" where
  "shift_up ap4hlen [] b = b"
| "shift_up ap4hlen (i # is) b = shift_up ap4hlen is (b(nat (int i + ap4hlen) := b i))"

definition mutant_list :: "active_mutant_t \<Rightarrow> activep4_instr list" where
  "mutant_list p = map (mut_code p) [0..<nat (mut_proglen p)]"

text \<open>
  \<open>i >= sizeof(struct rte_ether_hdr)\<close> is an unsigned comparison: an empty packet makes the copy
  loop start at \<open>-1\<close> and run through memory.
\<close>

definition insert_active_program_headers ::
  "('h \<Rightarrow> ('a, 'h) app_ops) \<Rightarrow> ('a, 'h) activep4_context_t \<Rightarrow> mbuf \<Rightarrow> (('a, 'h) activep4_context_t \<times> mbuf) c_result" where
  "insert_active_program_headers ops ctxt m =
     (let (app, pid) = op_tx_mux (ops (handlers ctxt)) (mb_data m) (app_context ctxt) (current_pid ctxt);
          ctxt = ctxt\<lparr>app_context := app, current_pid := pid\<rparr>;
          program = mutant (programs ctxt pid);
          ap4hlen = int (sizeof_ih + sizeof_data) + mut_proglen program * int sizeof_instr in
      if mb_pkt_len m = 0 then Inl OutOfBounds
      else let b = shift_up ap4hlen (rev [sizeof_eth..<mb_pkt_len m]) (put_ether_type AP4_ETHER_TYPE_AP4 (mb_data m));
               b = put_ih (AP4FLAGMASK_OPT_ARGS OR AP4FLAGMASK_FLAG_PRELOAD) (ctx_fid ctxt) b;
               b = store_bytes 40 (concat (map instr_bytes (mutant_list program))) b in
        bind_result (op_tx_handler (ops (handlers ctxt)) b (nat (int sizeof_eth + ap4hlen))
            (\<lambda>i. load32 b (24 + 4 * i)) (allocation ctxt) (app_context ctxt))
          (\<lambda>(data, app).
            let b = put_arg 3 (data 3) (put_arg 2 (data 2) (put_arg 1 (data 1) (put_arg 0 (data 0) b)))
            in Inr (ctxt\<lparr>app_context := app\<rparr>,
               m\<lparr>mb_data := b, mb_pkt_len := nat (int (mb_pkt_len m) + ap4hlen),
                 mb_data_len := nat (int (mb_data_len m) + ap4hlen)\<rparr>)))"

text \<open>The result is the index of the context, if any; every matching context becomes active.\<close>

definition get_app_context_from_packet ::
  "buffer \<Rightarrow> nat \<Rightarrow> ('a, 'h) active_apps_t \<Rightarrow> nat option \<times> ('a, 'h) active_apps_t" where
  "get_app_context_from_packet buf pos apps =
     (let proto = load8 buf (pos + 9) in
      if proto = IPPROTO_UDP \<or> proto = IPPROTO_TCP then
        (let app_id = ucast (ntohs (load16 buf (pos + sizeof_ipv4 + 2)));
             js = filter (\<lambda>j. apps_app_id apps j = app_id) [0..<num_apps apps];
             apps' = apps\<lparr>apps_ctxt := (\<lambda>j. if j \<in> set js then (apps_ctxt apps j)\<lparr>ctx_id := j, is_active := True\<rparr>
                else apps_ctxt apps j)\<rparr>
         in (if js = [] then None else Some (last js), apps'))
      else (None, apps))"

definition encap_packet ::
  "('h \<Rightarrow> ('a, 'h) app_ops) \<Rightarrow> (u64 \<Rightarrow> u64) \<Rightarrow> u64 \<Rightarrow> ('a, 'h) active_apps_t \<Rightarrow> mbuf
     \<Rightarrow> (('a, 'h) active_apps_t \<times> mbuf) c_result" where
  "encap_packet ops to_ms now apps m =
     (if load16 (mb_data m) 12 \<noteq> htons RTE_ETHER_TYPE_IPV4 then Inr (apps, m)
      else case get_app_context_from_packet (mb_data m) sizeof_eth apps of
        (None, apps) \<Rightarrow> Inr (apps, m)
      | (Some j, apps) \<Rightarrow>
          (let ctxt = apps_ctxt apps j in
           if \<not> active_tx_enabled ctxt then Inr (apps, m)
           else bind_result (update_active_tx_stats to_ms now (status ctxt) (apps_stats apps (ctx_id ctxt)))
             (\<lambda>stats. let apps = apps\<lparr>apps_stats := (apps_stats apps)(ctx_id ctxt := stats)\<rparr> in
               if status ctxt = UPDATING \<or> status ctxt = TRANSMITTING then
                 bind_result (insert_active_program_headers ops ctxt m)
                   (\<lambda>(ctxt, m). Inr (apps\<lparr>apps_ctxt := (apps_ctxt apps)(j := ctxt)\<rparr>, m))
               else Inr (apps, m))))"

fun active_encap_filter ::
  "('h \<Rightarrow> ('a, 'h) app_ops) \<Rightarrow> (u64 \<Rightarrow> u64) \<Rightarrow> (u64 \<times> mbuf) list \<Rightarrow> ('a, 'h) active_apps_t
     \<Rightarrow> (('a, 'h) active_apps_t \<times> mbuf list) c_result" where
  "active_encap_filter ops to_ms [] apps = Inr (apps, [])"
| "active_encap_filter ops to_ms ((now, m) # pkts) apps =
     bind_result (encap_packet ops to_ms now apps m)
       (\<lambda>(apps, m). bind_result (active_encap_filter ops to_ms pkts apps) (\<lambda>(apps, ms). Inr (apps, m # ms)))"

subsection \<open>Inserting the headers\<close>

lemma shift_up_spec:
  assumes "lo \<le> hi"
  shows "shift_up (int n) (rev [lo..<hi]) b =
    (\<lambda>k. if lo + n \<le> k \<and> k < hi + n then b (k - n) else b k)"
  using assms
proof (induction hi arbitrary: b rule: dec_induct)
  case base
  then show ?case by (auto simp: fun_eq_iff)
next
  case (step hi)
  then have "rev [lo..<Suc hi] = hi # rev [lo..<hi]" by simp
  then have "shift_up (int n) (rev [lo..<Suc hi]) b = shift_up (int n) (rev [lo..<hi]) (b(hi + n := b hi))"
    by (simp add: nat_add_distrib)
  also have "\<dots> = (\<lambda>k. if lo + n \<le> k \<and> k < hi + n then (b(hi + n := b hi)) (k - n) else (b(hi + n := b hi)) k)"
    by (rule step.IH)
  also have "\<dots> = (\<lambda>k. if lo + n \<le> k \<and> k < Suc hi + n then b (k - n) else b k)"
    using step.hyps by (auto simp: fun_eq_iff)
  finally show ?case .
qed

lemma shift_up_headers:
  assumes "14 \<le> n"
  shows "shift_up (26 + 2 * int l) (rev [14..<n]) b =
    (\<lambda>k. if 40 + 2 * l \<le> k \<and> k < n + 26 + 2 * l then b (k - 26 - 2 * l) else b k)"
proof -
  have "26 + 2 * int l = int (26 + 2 * l)" by simp
  then show ?thesis using shift_up_spec [OF assms, of "26 + 2 * l" b]
    by (simp only:) (auto simp: fun_eq_iff)
qed

lemma put_ih_other: "k < 14 \<or> 24 \<le> k \<Longrightarrow> put_ih flags fid b k = b k"
  by (auto simp: put_ih_def store16_def store32_def)

lemma put_arg_byte: "i < 4 \<Longrightarrow> k < 24 \<or> 40 \<le> k \<Longrightarrow> put_arg i v b k = b k"
  by (auto simp: put_arg_def store32_def)

text \<open>The bytes of the packet after insertion, for a program of \<open>length is\<close> instructions.\<close>

definition inserted :: "activep4_instr list \<Rightarrow> int \<Rightarrow> activep4_data_t \<Rightarrow> mbuf \<Rightarrow> buffer" where
  "inserted is fid data m =
     put_arg 3 (data 3) (put_arg 2 (data 2) (put_arg 1 (data 1) (put_arg 0 (data 0)
       (store_bytes 40 (concat (map instr_bytes is))
         (put_ih (AP4FLAGMASK_OPT_ARGS OR AP4FLAGMASK_FLAG_PRELOAD) fid
           (shift_up (26 + 2 * int (length is)) (rev [14..<mb_pkt_len m])
             (put_ether_type AP4_ETHER_TYPE_AP4 (mb_data m))))))))"

lemma inserted_payload:
  assumes "14 \<le> mb_pkt_len m" "14 \<le> k" "k < mb_pkt_len m"
  shows "inserted is fid data m (k + 26 + 2 * length is) = mb_data m k"
  using assms
  by (simp add: inserted_def put_arg_byte store_bytes_other put_ih_other shift_up_headers)
    (simp add: put_ether_type_def store16_def)

lemma inserted_addresses:
  assumes "14 \<le> mb_pkt_len m" "k < 12"
  shows "inserted is fid data m k = mb_data m k"
  using assms
  by (simp add: inserted_def put_arg_byte store_bytes_other put_ih_other shift_up_headers)
    (simp add: put_ether_type_def store16_def)

lemma inserted_fields:
  assumes "14 \<le> mb_pkt_len m"
  shows "load16 (inserted is fid data m) 12 = htons AP4_ETHER_TYPE_AP4"
    "load32 (inserted is fid data m) 14 = htonl ACTIVEP4SIG"
    "load16 (inserted is fid data m) 18 = htons (AP4FLAGMASK_OPT_ARGS OR AP4FLAGMASK_FLAG_PRELOAD)"
    "load16 (inserted is fid data m) 20 = htons (word_of_int fid)"
    "load16 (inserted is fid data m) 22 = 0"
    "program_at (inserted is fid data m) 40 is"
proof -
  let ?s = "shift_up (26 + 2 * int (length is)) (rev [14..<mb_pkt_len m]) (put_ether_type AP4_ETHER_TYPE_AP4 (mb_data m))"
  have s: "load16 ?s 12 = htons AP4_ETHER_TYPE_AP4"
    using assms load16_store16 [of 12 "htons AP4_ETHER_TYPE_AP4" "mb_data m"]
    by (simp add: shift_up_headers load16_def put_ether_type_def)
  have ih: "load16 (put_ih flags fid b) 12 = load16 b 12" "load32 (put_ih flags fid b) 14 = htonl ACTIVEP4SIG"
    "load16 (put_ih flags fid b) 18 = htons flags" "load16 (put_ih flags fid b) 20 = htons (word_of_int fid)"
    "load16 (put_ih flags fid b) 22 = 0" for flags b
    by (simp_all add: put_ih_def buffer_simps)
  show "load16 (inserted is fid data m) 12 = htons AP4_ETHER_TYPE_AP4"
    "load32 (inserted is fid data m) 14 = htonl ACTIVEP4SIG"
    "load16 (inserted is fid data m) 18 = htons (AP4FLAGMASK_OPT_ARGS OR AP4FLAGMASK_FLAG_PRELOAD)"
    "load16 (inserted is fid data m) 20 = htons (word_of_int fid)"
    "load16 (inserted is fid data m) 22 = 0"
    by (simp_all add: inserted_def put_args_loads load16_store_bytes_other load32_store_bytes_other ih s)
  show "program_at (inserted is fid data m) 40 is"
    using program_at_store_bytes [of 40 "is"] by (simp add: inserted_def program_at_def put_arg_byte)
qed

lemma insert_headers_result:
  fixes ctxt ctxt' :: "('a, 'h) activep4_context_t" and m m' :: mbuf and app pid ops
  defines "is \<equiv> mutant_list (mutant (programs ctxt pid))"
  assumes "op_tx_mux (ops (handlers ctxt)) (mb_data m) (app_context ctxt) (current_pid ctxt) = (app, pid)"
    and "14 \<le> mb_pkt_len m" "0 \<le> mut_proglen (mutant (programs ctxt pid))"
    and "insert_active_program_headers ops ctxt m = Inr (ctxt', m')"
  shows "\<exists>data app'. ctxt' = ctxt\<lparr>current_pid := pid, app_context := app'\<rparr>
    \<and> m' = m\<lparr>mb_data := inserted is (ctx_fid ctxt) data m, mb_pkt_len := mb_pkt_len m + 26 + 2 * length is,
         mb_data_len := mb_data_len m + 26 + 2 * length is\<rparr>"
proof -
  let ?n = "nat (mut_proglen (mutant (programs ctxt pid)))"
  have len: "length is = ?n" by (simp add: is_def mutant_list_def)
  have hlen: "26 + mut_proglen (mutant (programs ctxt pid)) * 2 = 26 + 2 * int (length is)"
    using assms(4) by (simp add: len)
  have plus: "nat (int x + (26 + 2 * int (length is))) = x + 26 + 2 * length is" for x
    by linarith
  show ?thesis
    using assms(2,3,5) unfolding insert_active_program_headers_def
    by (auto simp: Let_def hlen plus is_def [symmetric] bind_result_Inr_iff inserted_def split: prod.splits)
qed


lemma insert_headers_ok:
  assumes "op_tx_mux (ops (handlers ctxt)) (mb_data m) (app_context ctxt) (current_pid ctxt) = (app, k)"
    and "mb_pkt_len m \<noteq> 0"
    and "\<And>b pos d. \<exists>d' a'. op_tx_handler (ops (handlers ctxt)) b pos d (allocation ctxt) app = Inr (d', a')"
  shows "\<exists>ctxt' m'. insert_active_program_headers ops ctxt m = Inr (ctxt', m')"
proof -
  obtain d' a' where h: "op_tx_handler (ops (handlers ctxt)) b pos d (allocation ctxt) app = Inr (d' b pos d, a' b pos d)" for b pos d
    using assms(3) by metis
  show ?thesis
    using assms(1,2) by (simp add: insert_active_program_headers_def Let_def h)
qed

text \<open>
  Header insertion succeeds on every Ethernet frame when the application's handler does; it
  keeps the MAC addresses, writes the active header with the application's identifier, places the
  mutated program behind the arguments, and moves the original packet unchanged behind it.  The
  context keeps its control state and its allocation.
\<close>

theorem insert_headers_layout:
  fixes ops :: "'h \<Rightarrow> ('a, 'h) app_ops" and ctxt :: "('a, 'h) activep4_context_t"
  assumes "op_tx_mux (ops (handlers ctxt)) (mb_data m) (app_context ctxt) (current_pid ctxt) = (app, k)"
    and "14 \<le> mb_pkt_len m" "0 \<le> mut_proglen (mutant (programs ctxt k))"
    and "\<And>b pos d. \<exists>d' a'. op_tx_handler (ops (handlers ctxt)) b pos d (allocation ctxt) app = Inr (d', a')"
  shows "\<exists>ctxt' m'. insert_active_program_headers ops ctxt m = Inr (ctxt', m')
    \<and> (let hlen = 26 + 2 * length (mutant_list (mutant (programs ctxt k))) in
       mb_pkt_len m' = mb_pkt_len m + hlen
       \<and> (\<forall>i<12. mb_data m' i = mb_data m i)
       \<and> (\<forall>i. 14 \<le> i \<and> i < mb_pkt_len m \<longrightarrow> mb_data m' (i + hlen) = mb_data m i))
    \<and> ntohs (load16 (mb_data m') 12) = AP4_ETHER_TYPE_AP4 \<and> is_activep4 (mb_data m') 14
    \<and> ntohs (load16 (mb_data m') 18) = AP4FLAGMASK_OPT_ARGS OR AP4FLAGMASK_FLAG_PRELOAD
    \<and> ntohs (load16 (mb_data m') 20) = word_of_int (ctx_fid ctxt)
    \<and> program_at (mb_data m') 40 (mutant_list (mutant (programs ctxt k)))
    \<and> status ctxt' = status ctxt \<and> allocation ctxt' = allocation ctxt"
proof -
  let ?is = "mutant_list (mutant (programs ctxt k))"
  obtain ctxt' m' where r: "insert_active_program_headers ops ctxt m = Inr (ctxt', m')"
    using insert_headers_ok [of ops ctxt m app k] assms by (metis not_numeral_le_zero)
  obtain data app' where d: "ctxt' = ctxt\<lparr>current_pid := k, app_context := app'\<rparr>"
    "m' = m\<lparr>mb_data := inserted ?is (ctx_fid ctxt) data m, mb_pkt_len := mb_pkt_len m + 26 + 2 * length ?is,
         mb_data_len := mb_data_len m + 26 + 2 * length ?is\<rparr>"
    using insert_headers_result [OF assms(1-3) r] by blast
  have "mb_data m' (i + (26 + 2 * length ?is)) = mb_data m i" if "14 \<le> i" "i < mb_pkt_len m" for i
    using inserted_payload [OF assms(2) that] by (simp add: d add.assoc)
  then show ?thesis
    using r inserted_addresses [OF assms(2)] inserted_fields [OF assms(2), of ?is "ctx_fid ctxt" data]
    by (intro exI [of _ ctxt'] exI [of _ m']) (simp add: d Let_def is_activep4_def)
qed

definition demo_ops :: "unit \<Rightarrow> (unit, unit) app_ops" where
  "demo_ops _ = \<lparr>op_tx_mux = (\<lambda>b a k. (a, k)), op_tx_handler = (\<lambda>b pos d mem a. Inr (d, a)),
     op_rx_handler = (\<lambda>now ih d p b a. Inr (b, a)), op_memory_consume = None,
     op_memory_invalidate = (\<lambda>mem. (mem, False)), op_memory_reset = None, op_timer = None, op_on_allocation = None\<rparr>"

theorem insert_headers_layout_witness:
  "\<exists>ctxt' m'. insert_active_program_headers demo_ops (demo_ctxt\<lparr>status := TRANSMITTING\<rparr>)
      \<lparr>mb_data = (\<lambda>i. of_nat i), mb_pkt_len = 60, mb_data_len = 60\<rparr> = Inr (ctxt', m')
    \<and> mb_pkt_len m' = 86 \<and> mb_data m' 50 = 24"
proof -
  let ?c = "demo_ctxt\<lparr>status := TRANSMITTING\<rparr>" and ?m = "\<lparr>mb_data = (\<lambda>i. of_nat i), mb_pkt_len = 60, mb_data_len = 60\<rparr>"
  have mux: "op_tx_mux (demo_ops (handlers ?c)) (mb_data ?m) (app_context ?c) (current_pid ?c) = ((), 0)"
    by (simp add: demo_ops_def demo_ctxt_def)
  have mut: "mutant_list (mutant (programs ?c 0)) = []" "0 \<le> mut_proglen (mutant (programs ?c 0))"
    by (simp_all add: mutant_list_def demo_ctxt_def demo_program_def zero_def_def)
  have h: "\<exists>d' a'. op_tx_handler (demo_ops (handlers ?c)) b pos d (allocation ?c) () = Inr (d', a')" for b pos d
    by (simp add: demo_ops_def)
  obtain ctxt' m' where "insert_active_program_headers demo_ops ?c ?m = Inr (ctxt', m')" "mb_pkt_len m' = 86"
    "\<forall>i. 14 \<le> i \<and> i < 60 \<longrightarrow> mb_data m' (i + 26) = of_nat i"
    using insert_headers_layout [of demo_ops ?c ?m "()" 0, OF mux _ mut(2) h] unfolding mut Let_def by fastforce
  moreover have "mb_data m' (24 + 26) = of_nat 24"
    using calculation(3) [rule_format, of 24] by simp
  ultimately show ?thesis by auto
qed

subsection \<open>The transmit filter and the control state\<close>

definition same_control :: "('a, 'h) activep4_context_t \<Rightarrow> ('a, 'h) activep4_context_t \<Rightarrow> bool" where
  "same_control c d \<longleftrightarrow> status c = status d \<and> allocation c = allocation d \<and> membuf c = membuf d
     \<and> ctx_fid c = ctx_fid d \<and> programs c = programs d \<and> telemetry c = telemetry d"

lemma insert_same_control:
  "insert_active_program_headers ops ctxt m = Inr (ctxt', m') \<Longrightarrow> same_control ctxt' ctxt"
  by (auto simp: insert_active_program_headers_def same_control_def Let_def bind_result_Inr_iff
      split: prod.splits if_splits)

lemma get_app_context_same_control:
  "get_app_context_from_packet b pos apps = (r, apps') \<Longrightarrow> same_control (apps_ctxt apps' i) (apps_ctxt apps i)"
  by (auto simp: get_app_context_from_packet_def same_control_def Let_def split: if_splits)

lemma get_app_context_some:
  "get_app_context_from_packet b pos apps = (Some j, apps') \<Longrightarrow>
     j < num_apps apps \<and> apps_app_id apps j = ucast (ntohs (load16 b (22 + pos)))
     \<and> is_active (apps_ctxt apps' j)"
  by (auto simp: get_app_context_from_packet_def Let_def split: if_splits dest!: last_in_set)

text \<open>
  The transmit filter never touches the control state of any application (status, allocation,
  write buffer, programs, telemetry), and it modifies a packet only when the packet is IPv4, its
  destination port belongs to an application with transmission enabled, and that application is
  transmitting or updating.
\<close>

theorem encap_filter_safe:
  assumes "encap_packet ops to_ms now apps m = Inr (apps', m')"
  shows "(\<forall>i. same_control (apps_ctxt apps' i) (apps_ctxt apps i))
    \<and> (m' = m \<or> load16 (mb_data m) 12 = htons RTE_ETHER_TYPE_IPV4
       \<and> (\<exists>j<num_apps apps. apps_app_id apps j = ucast (ntohs (load16 (mb_data m) 36))
            \<and> active_tx_enabled (apps_ctxt apps j) \<and> status (apps_ctxt apps j) \<in> {UPDATING, TRANSMITTING}))"
proof (cases "load16 (mb_data m) 12 = htons RTE_ETHER_TYPE_IPV4")
  case False
  then show ?thesis using assms by (simp add: encap_packet_def same_control_def)
next
  case True
  obtain r apps1 where g: "get_app_context_from_packet (mb_data m) 14 apps = (r, apps1)" by force
  note same = get_app_context_same_control [OF g]
  show ?thesis
  proof (cases r)
    case None
    then show ?thesis using assms True g same by (auto simp: encap_packet_def)
  next
    case (Some j)
    note j = get_app_context_some [OF g [unfolded Some]]
    have en: "active_tx_enabled (apps_ctxt apps1 j) = active_tx_enabled (apps_ctxt apps j)"
      using g by (auto simp: get_app_context_from_packet_def Let_def split: if_splits)
    show ?thesis
      using assms True g Some same j en insert_same_control [of ops "apps_ctxt apps1 j" m]
      by (fastforce simp: encap_packet_def Let_def bind_result_Inr_iff same_control_def split: if_splits)
  qed
qed

text \<open>A transmitting application whose mutant returns at once.\<close>

definition demo_mutant :: active_mutant_t where
  "demo_mutant = \<lparr>mut_code = (\<lambda>i. \<lparr>instr_flags = 0, instr_opcode = (if i = 0 then 2 else 0)\<rparr>), mut_proglen = 2\<rparr>"

definition demo_tx_ctxt :: "(unit, unit) activep4_context_t" where
  "demo_tx_ctxt = demo_ctxt\<lparr>status := TRANSMITTING, programs := (\<lambda>_. demo_program\<lparr>mutant := demo_mutant\<rparr>)\<rparr>"

definition demo_apps :: "(unit, unit) active_apps_t" where
  "demo_apps = \<lparr>num_apps = 1, apps_ctxt = (\<lambda>_. demo_tx_ctxt),
     apps_stats = (\<lambda>_. \<lparr>tx_active = (\<lambda>_. 0), tx_total = (\<lambda>_. 0), st_ts = (\<lambda>_. 0), st_ts_ref = 0, st_ts_last = 0, st_num_samples = 0\<rparr>),
     apps_app_id = (\<lambda>_. 1234)\<rparr>"

definition demo_mbuf :: mbuf where
  "demo_mbuf = \<lparr>mb_data = (\<lambda>i. of_nat i), mb_pkt_len = 60, mb_data_len = 60\<rparr>"

lemma demo_tx_simps:
  "mutant_list demo_mutant = [\<lparr>instr_flags = 0, instr_opcode = 2\<rparr>, \<lparr>instr_flags = 0, instr_opcode = 0\<rparr>]"
  "mut_proglen demo_mutant = 2"
  "mutant (programs demo_tx_ctxt k) = demo_mutant" "ctx_fid demo_tx_ctxt = 7" "status demo_tx_ctxt = TRANSMITTING"
  "handlers demo_tx_ctxt = ()" "current_pid demo_tx_ctxt = 0" "app_context demo_tx_ctxt = ()"
  by (simp_all add: mutant_list_def demo_mutant_def demo_tx_ctxt_def demo_ctxt_def upt_rec)

text \<open>A UDP packet to the port of the demonstration application.\<close>

definition demo_udp :: mbuf where
  "demo_udp = \<lparr>mb_data = (\<lambda>i. if i = 12 then 8 else if i = 23 then 17 else if i = 36 then 4 else if i = 37 then 210 else 0),
     mb_pkt_len = 60, mb_data_len = 60\<rparr>"

lemma demo_udp_loads:
  "load16 (mb_data demo_udp) 12 = htons RTE_ETHER_TYPE_IPV4" "load8 (mb_data demo_udp) 23 = IPPROTO_UDP"
  "ntohs (load16 (mb_data demo_udp) 36) = 1234" "mb_pkt_len demo_udp = 60"
  by (simp_all add: demo_udp_def load16_def load8_def htons_def)

theorem encap_filter_safe_witness:
  "\<exists>apps' m'. encap_packet demo_ops id 0 demo_apps demo_udp = Inr (apps', m')
    \<and> same_control (apps_ctxt apps' 0) demo_tx_ctxt \<and> mb_pkt_len m' = 90"
proof -
  let ?c = "demo_tx_ctxt\<lparr>ctx_id := 0, is_active := True\<rparr>"
  have mux: "op_tx_mux (demo_ops (handlers ?c)) (mb_data demo_udp) (app_context ?c) (current_pid ?c) = ((), 0)"
    by (simp add: demo_ops_def demo_tx_simps)
  have prog: "mutant (programs ?c 0) = demo_mutant" by (simp add: demo_tx_simps)
  have h: "\<exists>d' a'. op_tx_handler (demo_ops (handlers ?c)) b pos d (allocation ?c) () = Inr (d', a')" for b pos d
    by (simp add: demo_ops_def)
  have ne: "mb_pkt_len demo_udp \<noteq> 0" "14 \<le> mb_pkt_len demo_udp" by (simp_all add: demo_udp_loads)
  obtain c' m' where r: "insert_active_program_headers demo_ops ?c demo_udp = Inr (c', m')"
    using insert_headers_ok [where ops = demo_ops and ctxt = ?c, OF mux ne(1) h] by blast
  have len: "mb_pkt_len m' = 90"
    using insert_headers_result [where ops = demo_ops and ctxt = ?c, OF mux ne(2) _ r] unfolding prog by (auto simp: demo_tx_simps demo_udp_loads)
  have g: "get_app_context_from_packet (mb_data demo_udp) 14 demo_apps = (Some 0, demo_apps\<lparr>apps_ctxt := (\<lambda>j. if j = 0 then ?c else demo_tx_ctxt)\<rparr>)"
    by (auto simp: get_app_context_from_packet_def demo_udp_loads demo_apps_def Let_def fun_eq_iff)
  have "\<exists>apps'. encap_packet demo_ops id 0 demo_apps demo_udp = Inr (apps', m')"
    unfolding encap_packet_def g demo_udp_loads
    by (simp add: r update_active_tx_stats_def Let_def) (simp add: demo_apps_def demo_tx_simps r demo_tx_ctxt_def demo_ctxt_def)
  then obtain apps' where a: "encap_packet demo_ops id 0 demo_apps demo_udp = Inr (apps', m')" by blast
  then have "same_control (apps_ctxt apps' 0) (apps_ctxt demo_apps 0)"
    using encap_filter_safe by blast
  with a len show ?thesis by (auto simp: demo_apps_def)
qed

end
