(* ===== verification/AP4_Request.thy ===== *)
theory AP4_Request
  imports AP4_Encap
begin

text \<open>
  The packets of the traffic generators (\<open>tx.h\<close> of the key-value client and of ping): an Ethernet
  header, for an activated instance the active headers with arguments and program, and IPv4 and UDP
  headers without payload.  Both generators contain the same code apart from arguments, addresses
  and ports.
\<close>

definition activate_packets :: "('a, 'h) activep4_context_t \<Rightarrow> bool" where
  "activate_packets ctxt \<longleftrightarrow> is_active ctxt \<and> (status ctxt = TRANSMITTING \<or> status ctxt = UPDATING)"

definition active_length :: "('a, 'h) activep4_context_t \<Rightarrow> nat" where
  "active_length ctxt = nat (26 + 2 * mut_proglen (mutant (current_program ctxt)))"

definition put_active_request :: "('a, 'h) activep4_context_t \<Rightarrow> activep4_data_t \<Rightarrow> buffer \<Rightarrow> buffer" where
  "put_active_request ctxt args b =
     (let b = put_ih (AP4FLAGMASK_OPT_ARGS OR AP4FLAGMASK_FLAG_PRELOAD) (ctx_fid ctxt) b;
          b = put_arg 3 (args 3) (put_arg 2 (args 2) (put_arg 1 (args 1) (put_arg 0 (args 0) b)))
      in store_bytes 40 (concat (map (\<lambda>i. instr_bytes (i\<lparr>instr_flags := 0\<rparr>)) (mutant_list (mutant (current_program ctxt))))) b)"

definition put_udp_headers :: "cksum_fn \<Rightarrow> nat \<Rightarrow> u32 \<Rightarrow> u32 \<Rightarrow> u16 \<Rightarrow> u16 \<Rightarrow> buffer \<Rightarrow> buffer" where
  "put_udp_headers cksum pos src dst sport dport b =
     (let b = store32 (pos + 16) dst (store32 (pos + 12) src (store16 (pos + 10) 0 (store8 (pos + 9) IPPROTO_UDP
               (store8 (pos + 8) 64 (store16 (pos + 6) 0 (store16 (pos + 4) 0
                 (store16 (pos + 2) (htons 20) (store8 (pos + 1) 0 (store8 pos 0x45 b)))))))));
          b = store16 (pos + 10) (cksum b pos) b
      in store16 (pos + 26) 0 (store16 (pos + 24) (htons 8) (store16 (pos + 22) (htons dport) (store16 (pos + 20) (htons sport) b))))"

subsection \<open>Layout\<close>

definition request_code :: "('a, 'h) activep4_context_t \<Rightarrow> activep4_instr list" where
  "request_code c = map (\<lambda>i. i\<lparr>instr_flags := 0\<rparr>) (mutant_list (mutant (current_program c)))"

text \<open>IPv4 and UDP headers as a reader sees them.\<close>

definition udp_at :: "buffer \<Rightarrow> nat \<Rightarrow> u32 \<Rightarrow> u32 \<Rightarrow> u16 \<Rightarrow> u16 \<Rightarrow> bool" where
  "udp_at b pos src dst sport dport \<longleftrightarrow> load8 b pos = 0x45 \<and> load8 b (pos + 9) = IPPROTO_UDP \<and> load32 b (pos + 12) = src
     \<and> load32 b (pos + 16) = dst \<and> ntohs (load16 b (pos + 20)) = sport \<and> ntohs (load16 b (pos + 22)) = dport
     \<and> ntohs (load16 b (pos + 24)) = 8"

lemma put_udp_below:
  "j + 2 \<le> pos \<Longrightarrow> load16 (put_udp_headers cksum pos src dst sport dport b) j = load16 b j"
  "j + 4 \<le> pos \<Longrightarrow> load32 (put_udp_headers cksum pos src dst sport dport b) j = load32 b j"
  "j < pos \<Longrightarrow> put_udp_headers cksum pos src dst sport dport b j = b j"
  by (simp_all add: put_udp_headers_def Let_def buffer_simps) (simp add: store8_def store16_def store32_def)

lemma put_udp_at: "udp_at (put_udp_headers cksum pos src dst sport dport b) pos src dst sport dport"
  by (simp add: udp_at_def put_udp_headers_def Let_def buffer_simps)

lemma put_ether_ip_type:
  "length addr = 6 \<Longrightarrow> load16 (put_ether_addrs addr (put_ether_type ty b)) 12 = htons ty"
  by (simp add: put_ether_addrs_def put_ether_type_def buffer_simps)

lemma active_length_code:
  "0 \<le> mut_proglen (mutant (current_program c)) \<Longrightarrow> active_length c = 26 + 2 * length (request_code c)"
  by (simp add: active_length_def request_code_def mutant_list_def)

lemma active_request_spec:
  fixes c :: "('a, 'h) activep4_context_t" and m :: mbuf and args addr n cksum src dst sport dport
  defines "r \<equiv> set_len (68 + 2 * n) (m\<lparr>mb_data := put_udp_headers cksum (40 + 2 * n) src dst sport dport
      (put_active_request c args (put_ether_addrs addr (put_ether_type AP4_ETHER_TYPE_AP4 (mb_data m))))\<rparr>)"
  assumes "length addr = 6" "n = length (request_code c)"
  shows "ctrl_packet r (AP4FLAGMASK_OPT_ARGS OR AP4FLAGMASK_FLAG_PRELOAD) (ctx_fid c)"
    "i < 4 \<Longrightarrow> load32 (mb_data r) (24 + 4 * i) = args i" "program_at (mb_data r) 40 (request_code c)"
    "udp_at (mb_data r) (40 + 2 * n) src dst sport dport" "mb_pkt_len r = 68 + 2 * n" "mb_data_len r = mb_pkt_len r"
proof -
  let ?h = "put_ih (AP4FLAGMASK_OPT_ARGS OR AP4FLAGMASK_FLAG_PRELOAD) (ctx_fid c) (put_ether_addrs addr (put_ether_type AP4_ETHER_TYPE_AP4 (mb_data m)))"
  let ?a = "put_arg 3 (args 3) (put_arg 2 (args 2) (put_arg 1 (args 1) (put_arg 0 (args 0) ?h)))"
  let ?b = "store_bytes 40 (concat (map instr_bytes (request_code c))) ?a"
  have r: "r = set_len (68 + 2 * n) (m\<lparr>mb_data := put_udp_headers cksum (40 + 2 * n) src dst sport dport ?b\<rparr>)"
    by (simp add: r_def put_active_request_def Let_def request_code_def comp_def)
  show "program_at (mb_data r) 40 (request_code c)"
    using program_at_store_bytes [of 40 "request_code c" ?a] by (simp add: r program_at_def put_udp_below set_len_def assms(3))
  show "load32 (mb_data r) (24 + 4 * i) = args i" if i: "i < 4"
  proof -
    consider "i = 0" | "i = 1" | "i = 2" | "i = 3" using i by linarith
    then show ?thesis by cases (simp_all add: r set_len_def put_udp_below buffer_simps put_arg_def)
  qed
  show "ctrl_packet r (AP4FLAGMASK_OPT_ARGS OR AP4FLAGMASK_FLAG_PRELOAD) (ctx_fid c)"
    using assms(2)
    by (simp add: r ctrl_packet_def is_activep4_def set_len_def put_udp_below load16_store_bytes_other load32_store_bytes_other
        put_args_loads put_headers_loads)
  show "udp_at (mb_data r) (40 + 2 * n) src dst sport dport" "mb_pkt_len r = 68 + 2 * n" "mb_data_len r = mb_pkt_len r"
    by (simp_all add: r set_len_def put_udp_at)
qed

end
