(* ===== verification/AP4_Decap.thy ===== *)
theory AP4_Decap
  imports AP4_Encap
begin

text \<open>
  The receive filter of \<open>dpdk/decap.h\<close>: it drives the control state of the application an active
  packet belongs to, stores snapshot replies and write acknowledgements, installs allocations,
  hands executed packets to the application and strips the active headers from them.
\<close>

subsection \<open>Model\<close>

definition ih_at :: "buffer \<Rightarrow> activep4_ih" where
  "ih_at b = \<lparr>ih_SIG = load32 b 14, ih_flags = load16 b 18, ih_fid = load16 b 20, ih_seq = load16 b 22\<rparr>"

text \<open>Index of the context with the packet's identifier; the last match wins.\<close>

definition find_ctxt :: "('a, 'h) active_apps_t \<Rightarrow> u16 \<Rightarrow> nat option" where
  "find_ctxt apps fid =
     (let is = filter (\<lambda>i. ctx_fid (apps_ctxt apps i) = int (unat fid)) [0..<num_apps apps]
      in if is = [] then None else Some (last is))"

text \<open>The allocation response lies behind the initial header, whether or not arguments are present.\<close>

definition install_regions :: "buffer \<Rightarrow> memory_t \<Rightarrow> memory_t" where
  "install_regions b mem =
     mem\<lparr>sync_data := (\<lambda>i. if i < NUM_STAGES
            then (sync_data mem i)\<lparr>mem_start := ntohl (load32 b (24 + 8 * i)), mem_end := ntohl (load32 b (28 + 8 * i))\<rparr>
            else sync_data mem i),
         valid_stages := (\<lambda>i. if i < NUM_STAGES \<and> ntohl (load32 b (28 + 8 * i)) - ntohl (load32 b (24 + 8 * i)) > 0
            then 1 else valid_stages mem i)\<rparr>"

definition rx_allocated ::
  "('h \<Rightarrow> ('a, 'h) app_ops) \<Rightarrow> u64 \<Rightarrow> buffer \<Rightarrow> u16 \<Rightarrow> u16 \<Rightarrow> ('a, 'h) activep4_context_t
     \<Rightarrow> ('a, 'h) activep4_context_t c_result" where
  "rx_allocated ops now b flags seq ctxt =
     (if TEST_FLAG flags AP4FLAGMASK_FLAG_ALLOCATED \<and> mem_version (allocation ctxt) \<noteq> seq then
        (let mem = install_regions b ((allocation ctxt)\<lparr>mem_invalid := 0, mem_version := seq, hash_function := None\<rparr>);
             ctxt = ctxt\<lparr>allocation := mem, telemetry := (telemetry ctxt)\<lparr>allocation_request_stop_ts := now\<rparr>\<rparr> in
         bind_result (mutate_active_program (current_program ctxt) mem 1 (instr_set ctxt))
           (\<lambda>p. let ctxt = update_current_program ctxt (\<lambda>_. p);
                    ctxt = ctxt\<lparr>telemetry := (telemetry ctxt)\<lparr>allocation_is_active := False, is_initializing := False\<rparr>,
                                status := REMAPPING\<rparr>
                in Inr (case op_on_allocation (ops (handlers ctxt)) of None \<Rightarrow> ctxt | Some f \<Rightarrow> f ctxt)))
      else Inr ctxt)"

text \<open>Stage and address come from the packet and index the arrays unchecked.\<close>

definition mem_slot_ok :: "u32 \<Rightarrow> u32 \<Rightarrow> bool" where
  "mem_slot_ok stage_id mem_addr \<longleftrightarrow> unat stage_id < NUM_STAGES \<and> unat mem_addr < MAX_DATA"

definition set_slot :: "nat \<Rightarrow> (memory_stage_t \<Rightarrow> memory_stage_t) \<Rightarrow> memory_t \<Rightarrow> memory_t" where
  "set_slot s f mem = mem\<lparr>sync_data := (sync_data mem)(s := f (sync_data mem s))\<rparr>"

definition rx_snapshot ::
  "buffer \<Rightarrow> u16 \<Rightarrow> ('a, 'h) activep4_context_t \<Rightarrow> ('a, 'h) activep4_context_t c_result" where
  "rx_snapshot b flags ctxt =
     (if TEST_FLAG flags AP4FLAGMASK_OPT_ARGS \<and> TEST_FLAG flags AP4FLAGMASK_FLAG_INITIATED then
        (let mem_addr = ntohl (load32 b 24); mem_data = ntohl (load32 b 36); stage_id = ntohl (load32 b 32) in
         if mem_slot_ok stage_id mem_addr then
           Inr (ctxt\<lparr>allocation := set_slot (unat stage_id)
              (\<lambda>st. st\<lparr>ms_data := (ms_data st)(unat mem_addr := mem_data), ms_valid := (ms_valid st)(unat mem_addr := 1)\<rparr>)
              (allocation ctxt)\<rparr>)
         else Inl OutOfBounds)
      else Inr ctxt)"

definition rx_write_ack ::
  "buffer \<Rightarrow> u16 \<Rightarrow> ('a, 'h) activep4_context_t \<Rightarrow> ('a, 'h) activep4_context_t c_result" where
  "rx_write_ack b flags ctxt =
     (if TEST_FLAG flags AP4FLAGMASK_OPT_ARGS \<and> TEST_FLAG flags AP4FLAGMASK_FLAG_INITIATED then
        (let mem_addr = ntohl (load32 b 24); stage_id = ntohl (load32 b 32) in
         if mem_slot_ok stage_id mem_addr then
           Inr (ctxt\<lparr>membuf := set_slot (unat stage_id)
              (\<lambda>st. st\<lparr>ms_valid := (ms_valid st)(unat mem_addr := 1)\<rparr>) (membuf ctxt)\<rparr>)
         else Inl OutOfBounds)
      else Inr ctxt)"

definition clear_valid :: "memory_t \<Rightarrow> memory_t" where
  "clear_valid mem = mem\<lparr>sync_data := (\<lambda>i. if i < NUM_STAGES
     then (sync_data mem i)\<lparr>ms_valid := (\<lambda>j. if j < MAX_DATA then 0 else ms_valid (sync_data mem i) j)\<rparr>
     else sync_data mem i)\<rparr>"

definition rx_remap_start ::
  "u16 \<Rightarrow> u16 \<Rightarrow> ('a, 'h) activep4_context_t \<Rightarrow> ('a, 'h) activep4_context_t" where
  "rx_remap_start flags seq ctxt =
     (if TEST_FLAG flags AP4FLAGMASK_FLAG_REMAPPED \<and> mem_version (allocation ctxt) = seq then
        (let mem = clear_valid ((allocation ctxt)\<lparr>sync_version := seq\<rparr>);
             mem = mem\<lparr>syncmap := (\<lambda>i. if i < NUM_STAGES then valid_stages mem i else syncmap mem i), mem_invalid := 1\<rparr>
         in ctxt\<lparr>allocation := mem, status := SNAPSHOTTING\<rparr>)
      else ctxt)"

fun move_down :: "nat \<Rightarrow> nat list \<Rightarrow> buffer \<Rightarrow> buffer" where
  "move_down offset [] b = b"
| "move_down offset (i # is) b = move_down offset is (b(14 + i := b (14 + offset + i)))"

definition inner_packet :: "buffer \<Rightarrow> nat \<Rightarrow> inet_pkt_t" where
  "inner_packet b iph =
     (if load8 b (iph + 9) = IPPROTO_UDP then
        \<lparr>hdr_ipv4 = Some iph, hdr_udp = Some (iph + 20), hdr_tcp = None, payload = Some (iph + 28),
          payload_length = int (unat (ntohs (load16 b (iph + 24)))) - 8\<rparr>
      else if load8 b (iph + 9) = IPPROTO_TCP then
        \<lparr>hdr_ipv4 = Some iph, hdr_udp = None, hdr_tcp = Some (iph + 20), payload = Some (iph + 40),
          payload_length = int (unat (ntohs (load16 b (iph + 2)))) - int (unat (load8 b (iph + 32))) * 4\<rparr>
      else \<lparr>hdr_ipv4 = Some iph, hdr_udp = None, hdr_tcp = None, payload = None, payload_length = 0\<rparr>)"

abbreviation (input) allowed_flags_rx_handler :: u16 where
  "allowed_flags_rx_handler \<equiv> AP4FLAGMASK_OPT_ARGS OR AP4FLAGMASK_FLAG_EOE OR AP4FLAGMASK_FLAG_PRELOAD"

text \<open>
  The length of the move is computed in \<open>size_t\<close>: a packet shorter than the headers it claims makes
  the loop run through memory.
\<close>

definition rx_deliver ::
  "('h \<Rightarrow> ('a, 'h) app_ops) \<Rightarrow> u64 \<Rightarrow> u16 \<Rightarrow> nat \<Rightarrow> ('a, 'h) activep4_context_t \<Rightarrow> mbuf
     \<Rightarrow> (('a, 'h) activep4_context_t \<times> mbuf) c_result" where
  "rx_deliver ops now flags offset ctxt m =
     (if flags OR allowed_flags_rx_handler = allowed_flags_rx_handler \<and> TEST_FLAG flags AP4FLAGMASK_FLAG_EOE then
        (let b = mb_data m;
             ap4data = (if TEST_FLAG flags AP4FLAGMASK_OPT_ARGS then Some (\<lambda>i. load32 b (24 + 4 * i)) else None) in
         bind_result (op_rx_handler (ops (handlers ctxt)) now (ih_at b) ap4data (inner_packet b (14 + offset)) b (app_context ctxt))
           (\<lambda>(b, app). if mb_pkt_len m < 14 + offset then Inl OutOfBounds
              else Inr (ctxt\<lparr>app_context := app\<rparr>,
                m\<lparr>mb_data := move_down offset [0..<mb_pkt_len m - 14 - offset] b,
                  mb_pkt_len := mb_pkt_len m - offset, mb_data_len := mb_data_len m - offset\<rparr>)))
      else Inr (ctxt, m))"

text \<open>The dispatch on the control state, with the fall-through cases of the \<open>switch\<close>.\<close>

definition rx_dispatch ::
  "('h \<Rightarrow> ('a, 'h) app_ops) \<Rightarrow> u64 \<Rightarrow> u16 \<Rightarrow> u16 \<Rightarrow> nat \<Rightarrow> ('a, 'h) activep4_context_t \<Rightarrow> mbuf
     \<Rightarrow> (('a, 'h) activep4_context_t \<times> mbuf) c_result" where
  "rx_dispatch ops now flags seq offset ctxt m =
     (case status ctxt of
        INITIALIZING \<Rightarrow>
          Inr (if TEST_FLAG flags AP4FLAGMASK_FLAG_REQALLOC then ctxt\<lparr>status := ALLOCATING\<rparr> else ctxt, m)
      | REALLOCATING \<Rightarrow> bind_result (rx_allocated ops now (mb_data m) flags seq ctxt) (\<lambda>ctxt. Inr (ctxt, m))
      | ALLOCATING \<Rightarrow> bind_result (rx_allocated ops now (mb_data m) flags seq ctxt) (\<lambda>ctxt. Inr (ctxt, m))
      | SNAPSHOTTING \<Rightarrow> bind_result (rx_snapshot (mb_data m) flags ctxt) (\<lambda>ctxt. Inr (ctxt, m))
      | REMAPPING \<Rightarrow> bind_result (rx_write_ack (mb_data m) flags ctxt) (\<lambda>ctxt. Inr (ctxt, m))
      | UPDATING \<Rightarrow> bind_result (rx_write_ack (mb_data m) flags ctxt)
          (\<lambda>ctxt. rx_deliver ops now flags offset (rx_remap_start flags seq ctxt) m)
      | TRANSMITTING \<Rightarrow> rx_deliver ops now flags offset (rx_remap_start flags seq ctxt) m
      | _ \<Rightarrow> Inr (ctxt, m))"

text \<open>The number of header bytes in front of the IPv4 packet, Ethernet header excluded.\<close>

definition active_header_offset :: "buffer \<Rightarrow> u16 \<Rightarrow> nat \<Rightarrow> nat c_result" where
  "active_header_offset b flags len =
     (let offset = sizeof_ih;
          offset = (if TEST_FLAG flags AP4FLAGMASK_OPT_ARGS then offset + sizeof_data else offset);
          offset = (if TEST_FLAG flags AP4FLAGMASK_FLAG_ALLOCATED then offset + sizeof_malloc_res else offset) in
      if \<not> TEST_FLAG flags AP4FLAGMASK_FLAG_EOE \<or> load8 b (14 + offset) \<noteq> 0x45 then
        (case get_active_eof b (14 + offset) (int len) of None \<Rightarrow> Inl NoReturn | Some e \<Rightarrow> Inr (offset + e))
      else Inr offset)"

definition decap_packet ::
  "('h \<Rightarrow> ('a, 'h) app_ops) \<Rightarrow> u64 \<Rightarrow> ('a, 'h) active_apps_t \<Rightarrow> mbuf \<Rightarrow> (('a, 'h) active_apps_t \<times> mbuf) c_result" where
  "decap_packet ops now apps m =
     (let ty = ntohs (load16 (mb_data m) 12) in
      if ty = RTE_ETHER_TYPE_IPV4 then Inr (apps, m)
      else if ty = AP4_ETHER_TYPE_AP4 then
        (let m = m\<lparr>mb_data := put_ether_type RTE_ETHER_TYPE_IPV4 (mb_data m)\<rparr> in
         if htonl (load32 (mb_data m) 14) \<noteq> ACTIVEP4SIG then Inr (apps, m)
         else let flags = ntohs (load16 (mb_data m) 18); fid = ntohs (load16 (mb_data m) 20);
                  seq = ntohs (load16 (mb_data m) 22) in
           bind_result (active_header_offset (mb_data m) flags (mb_pkt_len m))
             (\<lambda>offset. case find_ctxt apps fid of
                None \<Rightarrow> Inr (apps, m)
              | Some i \<Rightarrow> bind_result (rx_dispatch ops now flags seq offset (apps_ctxt apps i) m)
                  (\<lambda>(ctxt, m). Inr (apps\<lparr>apps_ctxt := (apps_ctxt apps)(i := ctxt)\<rparr>, m))))
      else Inr (apps, m))"

fun active_decap_filter ::
  "('h \<Rightarrow> ('a, 'h) app_ops) \<Rightarrow> (u64 \<times> mbuf) list \<Rightarrow> ('a, 'h) active_apps_t
     \<Rightarrow> (('a, 'h) active_apps_t \<times> mbuf list) c_result" where
  "active_decap_filter ops [] apps = Inr (apps, [])"
| "active_decap_filter ops ((now, m) # pkts) apps =
     bind_result (decap_packet ops now apps m)
       (\<lambda>(apps, m). bind_result (active_decap_filter ops pkts apps) (\<lambda>(apps, ms). Inr (apps, m # ms)))"

subsection \<open>Stripping the headers\<close>

lemma move_down_spec:
  "move_down offset [lo..<hi] b = (\<lambda>k. if 14 + lo \<le> k \<and> k < 14 + hi then b (k + offset) else b k)"
proof (cases "offset = 0")
  case True
  have "move_down 0 is b = b" for "is"
    by (induction "is") simp_all
  with True show ?thesis by (auto simp: fun_eq_iff)
next
  case False
  show ?thesis
  proof (cases "lo \<le> hi")
    case True
    then show ?thesis
    proof (induction lo arbitrary: b rule: inc_induct)
      case base
      then show ?case by (auto simp: fun_eq_iff)
    next
      case (step lo)
      then have "[lo..<hi] = lo # [Suc lo..<hi]" by (simp add: upt_rec)
      then have "move_down offset [lo..<hi] b = move_down offset [Suc lo..<hi] (b(14 + lo := b (14 + offset + lo)))"
        by simp
      also have "\<dots> = (\<lambda>k. if 14 + Suc lo \<le> k \<and> k < 14 + hi then (b(14 + lo := b (14 + offset + lo))) (k + offset)
          else (b(14 + lo := b (14 + offset + lo))) k)"
        by (rule step.IH)
      also have "\<dots> = (\<lambda>k. if 14 + lo \<le> k \<and> k < 14 + hi then b (k + offset) else b k)"
        using step.hyps False by (auto simp: fun_eq_iff ac_simps)
      finally show ?case .
    qed
  qed (auto simp: fun_eq_iff)
qed


lemma find_ctxt_some:
  "find_ctxt apps fid = Some i \<Longrightarrow> i < num_apps apps \<and> ctx_fid (apps_ctxt apps i) = int (unat fid)"
  by (auto simp: find_ctxt_def Let_def split: if_splits dest!: last_in_set)

lemma offset_complete_program:
  assumes "TEST_FLAG flags AP4FLAGMASK_OPT_ARGS" "\<not> TEST_FLAG flags AP4FLAGMASK_FLAG_ALLOCATED"
    and "program_at b 40 is" "complete_program is" "instr_flags (hd is) \<noteq> 0x45 \<or> \<not> TEST_FLAG flags AP4FLAGMASK_FLAG_EOE"
    and "4 \<le> len" "len < 2 ^ 31"
  shows "active_header_offset b flags len = Inr (26 + 2 * length is)"
proof -
  have ne: "is \<noteq> []" using assms(4) by (simp add: complete_program_def)
  have "load8 b 40 = instr_flags (hd is)"
    using assms(3) ne by (auto simp: program_at_def load8_def hd_conv_nth dest: spec [of _ 0])
  moreover have "\<not> size_less (int len) 2" "\<not> size_less (int len - 2) 2"
    using assms(6,7) by (simp_all add: not_size_less)
  moreover have "2 * length is - 2 + 2 = 2 * length is" using ne by (cases "is") auto
  ultimately show ?thesis
    using assms(1,2,5) complete_program_eof [OF assms(3,4)]
    by (auto simp: active_header_offset_def Let_def get_active_eof_def)
qed

text \<open>
  What the switch returns for a packet it has executed: the end-of-execution flag set, the
  arguments possibly rewritten, everything else as sent.
\<close>

definition executed :: "mbuf \<Rightarrow> mbuf \<Rightarrow> bool" where
  "executed m r \<longleftrightarrow> mb_pkt_len r = mb_pkt_len m \<and> mb_data_len r = mb_data_len m
     \<and> load16 (mb_data r) 18 = htons (AP4FLAGMASK_OPT_ARGS OR AP4FLAGMASK_FLAG_PRELOAD OR AP4FLAGMASK_FLAG_EOE)
     \<and> (\<forall>k. k \<noteq> 18 \<and> k \<noteq> 19 \<and> \<not> (24 \<le> k \<and> k < 40) \<longrightarrow> mb_data r k = mb_data m k)"

lemma executed_loads:
  assumes "executed m r"
  shows "j + 2 \<le> 18 \<or> j = 20 \<or> j = 22 \<Longrightarrow> load16 (mb_data r) j = load16 (mb_data m) j"
    "j + 4 \<le> 18 \<Longrightarrow> load32 (mb_data r) j = load32 (mb_data m) j"
    "program_at (mb_data r) 40 is = program_at (mb_data m) 40 is"
proof -
  have k: "mb_data r k = mb_data m k" if "k < 18 \<or> k = 20 \<or> k = 21 \<or> k = 22 \<or> k = 23 \<or> 40 \<le> k" for k
    using assms that by (auto simp: executed_def)
  show "j + 2 \<le> 18 \<or> j = 20 \<or> j = 22 \<Longrightarrow> load16 (mb_data r) j = load16 (mb_data m) j"
    using k [of j] k [of "j + 1"] by (auto simp: load16_def)
  show "j + 4 \<le> 18 \<Longrightarrow> load32 (mb_data r) j = load32 (mb_data m) j"
    using k [of j] k [of "j + 1"] k [of "j + 2"] k [of "j + 3"] by (simp add: load32_def)
  show "program_at (mb_data r) 40 is = program_at (mb_data m) 40 is"
    by (simp add: program_at_def k)
qed

lemma put_ether_type_loads:
  "14 \<le> j \<Longrightarrow> load16 (put_ether_type ty b) j = load16 b j"
  "14 \<le> j \<Longrightarrow> load32 (put_ether_type ty b) j = load32 b j"
  "14 \<le> j \<Longrightarrow> load8 (put_ether_type ty b) j = load8 b j"
  "load16 (put_ether_type ty b) 12 = htons ty"
  "14 \<le> pos \<Longrightarrow> program_at (put_ether_type ty b) pos is = program_at b pos is"
  by (simp_all add: put_ether_type_def buffer_simps) (simp add: program_at_def store16_def)





subsection \<open>Control transitions\<close>

text \<open>The edges of the control automaton that a received packet can take.\<close>

inductive rx_edge :: "active_state \<Rightarrow> active_state \<Rightarrow> bool" where
  init_ack: "rx_edge INITIALIZING ALLOCATING"
| alloc: "rx_edge ALLOCATING REMAPPING"
| realloc: "rx_edge REALLOCATING REMAPPING"
| remap_tx: "rx_edge TRANSMITTING SNAPSHOTTING"
| remap_upd: "rx_edge UPDATING SNAPSHOTTING"

inductive_cases rx_edgeE: "rx_edge s t"

code_pred rx_edge .

definition on_allocation_keeps_status :: "('h \<Rightarrow> ('a, 'h) app_ops) \<Rightarrow> bool" where
  "on_allocation_keeps_status ops \<longleftrightarrow>
     (\<forall>h f. op_on_allocation (ops h) = Some f \<longrightarrow> (\<forall>c. status (f c) = status c))"

lemma update_current_program_simps [simp]:
  "status (update_current_program c f) = status c" "handlers (update_current_program c f) = handlers c"
  "telemetry (update_current_program c f) = telemetry c" "allocation (update_current_program c f) = allocation c"
  by (simp_all add: update_current_program_def)

lemma rx_allocated_status:
  assumes "rx_allocated ops now b flags seq c = Inr c'" "on_allocation_keeps_status ops"
  shows "c' = c \<or> status c' = REMAPPING"
  using assms
  by (auto simp: rx_allocated_def on_allocation_keeps_status_def Let_def bind_result_Inr_iff
      split: if_splits option.splits)

lemma rx_snapshot_status: "rx_snapshot b flags c = Inr c' \<Longrightarrow> status c' = status c"
  by (auto simp: rx_snapshot_def Let_def split: if_splits)

lemma rx_write_ack_status: "rx_write_ack b flags c = Inr c' \<Longrightarrow> status c' = status c"
  by (auto simp: rx_write_ack_def Let_def split: if_splits)

lemma rx_remap_start_status: "status (rx_remap_start flags seq c) = status c \<or> status (rx_remap_start flags seq c) = SNAPSHOTTING"
  by (simp add: rx_remap_start_def Let_def)

lemma rx_deliver_status: "rx_deliver ops now flags offset c m = Inr (c', m') \<Longrightarrow> status c' = status c"
  by (auto simp: rx_deliver_def Let_def bind_result_Inr_iff split: if_splits)

lemma rx_dispatch_edge:
  assumes "rx_dispatch ops now flags seq offset c m = Inr (c', m')" "on_allocation_keeps_status ops"
  shows "status c' = status c \<or> rx_edge (status c) (status c')"
proof -
  have tx: "status d' = status d \<or> status d' = SNAPSHOTTING"
    if "rx_deliver ops now flags offset (rx_remap_start flags seq d) m = Inr (d', m')" for d d'
    using rx_deliver_status [OF that] rx_remap_start_status [of flags seq d] by simp
  show ?thesis
  proof (cases "status c")
    case ALLOCATING
    then show ?thesis
      using assms rx_allocated_status [OF _ assms(2)] by (fastforce simp: rx_dispatch_def bind_result_Inr_iff intro: rx_edge.intros)
  next
    case REALLOCATING
    then show ?thesis
      using assms rx_allocated_status [OF _ assms(2)] by (fastforce simp: rx_dispatch_def bind_result_Inr_iff intro: rx_edge.intros)
  next
    case UPDATING
    then obtain d where "rx_write_ack (mb_data m) flags c = Inr d"
      "rx_deliver ops now flags offset (rx_remap_start flags seq d) m = Inr (c', m')"
      using assms(1) by (auto simp: rx_dispatch_def bind_result_Inr_iff)
    then show ?thesis
      using tx [of d c'] rx_write_ack_status [of "mb_data m" flags c d] UPDATING by (auto intro: rx_edge.intros)
  next
    case TRANSMITTING
    then show ?thesis
      using tx [of c c'] assms(1) by (auto simp: rx_dispatch_def intro: rx_edge.intros)
  qed (use assms in \<open>auto simp: rx_dispatch_def bind_result_Inr_iff intro: rx_edge.intros
      dest!: rx_snapshot_status rx_write_ack_status split: if_splits\<close>)
qed



subsection \<open>Snapshot replies\<close>

lemma complete_sync_program:
  assumes "s < NUM_STAGES" "num_instr iset \<le> MAXINSTRSET" "knows iset sync_mnemonics" "pnemonic_to_opcode iset ''EOF'' = 0"
  shows "complete_program (map (assembled iset) (memsync_mnemonics s))"
proof -
  have eof: "assembled iset ''EOF'' = zero_instr" using assms(4) by (simp add: assembled_def zero_instr_def)
  have ne: "instr_opcode (assembled iset m) \<noteq> 0" if "m \<in> set sync_mnemonics" "m \<noteq> ''EOF''" for m
  proof -
    have "knows iset [m, ''EOF'']" using that assms(3) by (auto simp: knows_def sync_mnemonics_def)
    then have "assembled iset m \<noteq> assembled iset ''EOF''" using assembled_inj [OF assms(2)] that by blast
    then show ?thesis unfolding eof by (auto simp: assembled_def zero_instr_def)
  qed
  have b: "butlast (memsync_mnemonics s) = (if s = 0 then [''MEM_READ'', ''MBR_STORE'', ''RTS'']
      else ''RTS'' # replicate (min s 19 - 1) ''NOP'' @ memsync_tail s) @ [''RETURN'']"
    by (simp add: memsync_mnemonics_def butlast_append)
  have "instr_opcode (assembled iset m) \<noteq> 0" if "m \<in> set (butlast (memsync_mnemonics s))" for m
    using that unfolding b by (intro ne) (auto simp: sync_mnemonics_def memsync_tail_def split: if_splits)
  moreover have "memsync_mnemonics s \<noteq> []" "last (memsync_mnemonics s) = ''EOF''"
    by (simp_all add: memsync_mnemonics_def)
  ultimately show ?thesis
    unfolding complete_program_def map_butlast [symmetric]
    by (simp add: last_map eof zero_instr_def)
qed


definition demo_snap_apps :: "(unit, unit) active_apps_t" where
  "demo_snap_apps = demo_apps\<lparr>apps_ctxt := (\<lambda>_. demo_ctxt)\<rparr>"


subsection \<open>Installing an allocation\<close>

definition granted :: "buffer \<Rightarrow> nat \<Rightarrow> bool" where
  "granted b i \<longleftrightarrow> ntohl (load32 b (28 + 8 * i)) \<noteq> ntohl (load32 b (24 + 8 * i))"

lemma install_regions_valid:
  "i < NUM_STAGES \<Longrightarrow> valid_stages (install_regions b mem) i = (if granted b i then 1 else valid_stages mem i)"
  by (simp add: install_regions_def granted_def word_gt_0)




subsection \<open>Examples\<close>

text \<open>An allocation response that grants the words 0 to 10 of one stage.\<close>

definition demo_grant :: "nat \<Rightarrow> buffer" where
  "demo_grant s = store32 (28 + 8 * s) (htonl 10) (\<lambda>_. 0)"

lemma demo_grant_loads:
  "load32 (demo_grant s) (28 + 8 * i) = (if i = s then htonl 10 else 0)" "load32 (demo_grant s) (24 + 8 * i) = 0" "htonl 0 = 0"
proof -
  have z: "load32 (\<lambda>_. 0) j = 0" for j by (simp add: load32_def)
  show "load32 (demo_grant s) (28 + 8 * i) = (if i = s then htonl 10 else 0)"
  proof (cases "i = s")
    case False
    then have "28 + 8 * i + 4 \<le> 28 + 8 * s \<or> 28 + 8 * s + 4 \<le> 28 + 8 * i" by linarith
    then show ?thesis using False by (simp only: demo_grant_def load32_store32_other z if_False)
  qed (simp add: demo_grant_def load32_store32)
  have "24 + 8 * i + 4 \<le> 28 + 8 * s \<or> 28 + 8 * s + 4 \<le> 24 + 8 * i" by presburger
  then show "load32 (demo_grant s) (24 + 8 * i) = 0" by (simp only: demo_grant_def load32_store32_other z)
  show "htonl 0 = 0" by (simp add: htonl_def)
qed

lemma demo_granted: "granted (demo_grant s) i \<longleftrightarrow> i = s"
  by (simp add: granted_def demo_grant_loads)

lemma demo_install_valid:
  "valid_stages (install_regions (demo_grant 4) (demo_memory\<lparr>mem_invalid := 0, mem_version := 1, hash_function := None\<rparr>))
    = valid_stages demo_memory"
proof
  fix i
  show "valid_stages (install_regions (demo_grant 4) (demo_memory\<lparr>mem_invalid := 0, mem_version := 1, hash_function := None\<rparr>)) i
    = valid_stages demo_memory i"
    by (cases "i < 20") (simp_all add: install_regions_valid demo_granted demo_memory_def, simp add: install_regions_def)
qed

lemma mutation_cong:
  assumes "valid_stages m = valid_stages m'"
  shows "feasible_mutation iset p m = feasible_mutation iset p m'" "mutation_not_required p m = mutation_not_required p m'"
proof -
  have "allocated_stages m = allocated_stages m'" using assms by (simp add: allocated_stages_def)
  then have "access_idx_allocated m = access_idx_allocated m'" by (simp add: access_idx_allocated_def fun_eq_iff)
  moreover from this have "access_offset p m = access_offset p m'" by (simp add: access_offset_def fun_eq_iff)
  ultimately show "feasible_mutation iset p m = feasible_mutation iset p m'"
    using \<open>allocated_stages m = allocated_stages m'\<close> by (simp add: feasible_mutation_def)
  show "mutation_not_required p m = mutation_not_required p m'"
    using assms by (simp add: mutation_not_required_def)
qed

lemma demo_ctxt_simps:
  "current_program demo_ctxt = demo_program" "allocation demo_ctxt = demo_memory" "handlers demo_ctxt = ()"
  by (simp_all add: demo_ctxt_def)



end
