(* ===== verification/AP4_Control.thy ===== *)
theory AP4_Control
  imports AP4_Decap
begin

text \<open>
  The control thread of \<open>dpdk/control.h\<close> (the build without \<open>CTRL_MULTICORE\<close> and \<open>CTRL_PARALLEL\<close>,
  as \<open>types.h\<close> selects it) with the helpers of \<open>dpdk/memory.h\<close>.

  The thread shares the application contexts with the packet filters, which run on another core
  and are what ends its waiting loops.  It is therefore a small-step machine: \<open>ctrl_pc\<close> says where
  in the loop nest the thread is, and \<open>ctrl_step\<close> executes the work up to the next point at which
  the thread looks at shared memory again - one application polled, or one word of a region
  scanned.  \<open>ctrl_env\<close> is what the step obtains from DPDK: whether \<open>is_running\<close> is still set, the
  cycle counter, the answers of up to two buffer allocations, and the MAC address of the port.
  The conversion \<open>to_us\<close> of cycles to microseconds is a parameter.

  A region is scanned by three loops with the same shape: reading a snapshot (\<open>Snap\<close>), clearing
  what was read (\<open>Inval\<close>) and writing the buffered contents (\<open>Remap\<close>).
\<close>

abbreviation (input) CTRL_SEND_INTVL_US :: u64 where "CTRL_SEND_INTVL_US \<equiv> 100"
abbreviation (input) CTRL_HEARTBEAT_ITVL :: u64 where "CTRL_HEARTBEAT_ITVL \<equiv> 1000"

subsection \<open>Model\<close>

datatype scan_kind = Snap | Inval | Remap

text \<open>
  \<open>Scan k a f i None\<close> is about to enter stage \<open>i\<close>, \<open>Scan k a f i (Some j)\<close> is at word \<open>j\<close> of it; \<open>f\<close> is
  the flag of the enclosing \<open>while\<close> loop (the source's \<open>snapshotting_in_progress\<close> and so on).
\<close>

datatype ctrl_pc =
    PassStart
  | Poll nat
  | Scan scan_kind nat bool nat "nat option"
  | Halted

record ctrl_env =
  env_running :: bool
  env_now :: u64
  env_mbuf :: "mbuf option"
  env_mbuf2 :: "mbuf option"
  env_mac :: "u8 list option"

record ('a, 'h) ctrl_state =
  cs_apps :: "('a, 'h) active_apps_t"
  cs_pc :: ctrl_pc
  cs_now :: u64
  cs_memsync :: "activep4_def_t arr"
  cs_memset :: "activep4_def_t arr"
  cs_sent :: "mbuf list"

definition set_ctxt :: "nat \<Rightarrow> ('a, 'h) activep4_context_t \<Rightarrow> ('a, 'h) active_apps_t \<Rightarrow> ('a, 'h) active_apps_t" where
  "set_ctxt a c apps = apps\<lparr>apps_ctxt := (apps_ctxt apps)(a := c)\<rparr>"

definition consume_memory_objects ::
  "('h \<Rightarrow> ('a, 'h) app_ops) \<Rightarrow> u64 \<Rightarrow> memory_t \<Rightarrow> ('a, 'h) activep4_context_t \<Rightarrow> ('a, 'h) activep4_context_t c_result" where
  "consume_memory_objects ops now snapshot ctxt =
     (case op_memory_consume (ops (handlers ctxt)) of
        None \<Rightarrow> Inr ctxt
      | Some f \<Rightarrow> bind_result (f now snapshot (app_context ctxt)) (\<lambda>app. Inr (ctxt\<lparr>app_context := app\<rparr>)))"

definition reset_memory_region ::
  "('h \<Rightarrow> ('a, 'h) app_ops) \<Rightarrow> memory_t \<Rightarrow> ('a, 'h) activep4_context_t \<Rightarrow> ('a, 'h) activep4_context_t \<times> bool" where
  "reset_memory_region ops region ctxt =
     (case op_memory_reset (ops (handlers ctxt)) of
        None \<Rightarrow> (ctxt, False)
      | Some f \<Rightarrow> (case f region (app_context ctxt) of (app, r) \<Rightarrow> (ctxt\<lparr>app_context := app\<rparr>, r)))"

text \<open>The cases of the \<open>switch\<close> that send a request and leave the control state to the receive filter.\<close>

definition poll_initializing ::
  "cksum_fn \<Rightarrow> ctrl_env \<Rightarrow> u64 \<Rightarrow> ('a, 'h) activep4_context_t \<Rightarrow> (('a, 'h) activep4_context_t \<times> mbuf list) c_result" where
  "poll_initializing cksum env now ctxt =
     (let ctxt = ctxt\<lparr>telemetry := (telemetry ctxt)\<lparr>is_initializing := True\<rparr>\<rparr> in
      case env_mbuf env of
        None \<Rightarrow> Inr (ctxt, [])
      | Some m \<Rightarrow> bind_result (construct_reqalloc_packet cksum (env_mac env) m ctxt)
          (\<lambda>m. Inr (telemetry_allocation_start (env_now env) (ctxt\<lparr>ctrl_ts_lastsent := now\<rparr>), [m])))"

definition poll_allocating ::
  "cksum_fn \<Rightarrow> ctrl_env \<Rightarrow> u64 \<Rightarrow> ('a, 'h) activep4_context_t \<Rightarrow> (('a, 'h) activep4_context_t \<times> mbuf list) c_result" where
  "poll_allocating cksum env now ctxt =
     (case env_mbuf env of
        None \<Rightarrow> Inr (ctxt, [])
      | Some m \<Rightarrow> bind_result (construct_getalloc_packet cksum (env_mac env) m ctxt)
          (\<lambda>m. Inr (telemetry_allocation_start (env_now env) (ctxt\<lparr>ctrl_ts_lastsent := now\<rparr>), [m])))"

definition poll_reallocating ::
  "cksum_fn \<Rightarrow> ctrl_env \<Rightarrow> u64 \<Rightarrow> ('a, 'h) activep4_context_t \<Rightarrow> (('a, 'h) activep4_context_t \<times> mbuf list) c_result" where
  "poll_reallocating cksum env now ctxt =
     bind_result (poll_allocating cksum env now ctxt)
       (\<lambda>(ctxt, ms). case env_mbuf2 env of
            None \<Rightarrow> Inr (ctxt, ms)
          | Some m \<Rightarrow> bind_result (construct_snapshot_packet cksum (env_mac env) m ctxt 0 0 (\<lambda>_. zero_def) True)
              (\<lambda>(m, _). Inr (ctxt\<lparr>ctrl_ts_lastsent := now\<rparr>, ms @ [m])))"

text \<open>Heartbeat and timer of a transmitting application; a missing buffer ends the process.\<close>

definition poll_heartbeat ::
  "cksum_fn \<Rightarrow> (u64 \<Rightarrow> u64) \<Rightarrow> ctrl_env \<Rightarrow> u64 \<Rightarrow> ('a, 'h) activep4_context_t
     \<Rightarrow> (('a, 'h) activep4_context_t \<times> mbuf list) c_result" where
  "poll_heartbeat cksum to_us env now ctxt =
     (if active_heartbeat_enabled ctxt \<and> CTRL_HEARTBEAT_ITVL \<le> to_us (now - ctrl_ts_lastsent ctxt) then
        (case env_mbuf env of
           None \<Rightarrow> Inl ExitFailure
         | Some m \<Rightarrow> bind_result (construct_heartbeat_packet cksum (env_mac env) m ctxt)
             (\<lambda>m. Inr (ctxt\<lparr>ctrl_ts_lastsent := now\<rparr>, [m])))
      else Inr (ctxt, []))"

definition poll_timer ::
  "('h \<Rightarrow> ('a, 'h) app_ops) \<Rightarrow> (u64 \<Rightarrow> u64) \<Rightarrow> ctrl_env \<Rightarrow> u64 \<Rightarrow> ('a, 'h) activep4_context_t
     \<Rightarrow> ('a, 'h) activep4_context_t c_result" where
  "poll_timer ops to_us env now ctxt =
     (if active_timer_enabled ctxt \<and> word_of_int (timer_interval_us ctxt) \<le> to_us (now - ctrl_timer_lasttick ctxt) then
        bind_result (case op_timer (ops (handlers ctxt)) of None \<Rightarrow> Inr ctxt | Some f \<Rightarrow> f (env_now env) ctxt)
          (\<lambda>ctxt. Inr (ctxt\<lparr>ctrl_timer_lasttick := now\<rparr>))
      else Inr ctxt)"

definition poll_transmitting ::
  "('h \<Rightarrow> ('a, 'h) app_ops) \<Rightarrow> cksum_fn \<Rightarrow> (u64 \<Rightarrow> u64) \<Rightarrow> ctrl_env \<Rightarrow> u64 \<Rightarrow> ('a, 'h) activep4_context_t
     \<Rightarrow> (('a, 'h) activep4_context_t \<times> mbuf list) c_result" where
  "poll_transmitting ops cksum to_us env now ctxt =
     bind_result (poll_heartbeat cksum to_us env now ctxt)
       (\<lambda>(ctxt, ms). bind_result (poll_timer ops to_us env now ctxt) (\<lambda>ctxt. Inr (ctxt, ms)))"

text \<open>The write buffer takes over identifier, valid stages and bounds of the allocation.\<close>

definition updated_region :: "('a, 'h) activep4_context_t \<Rightarrow> memory_t" where
  "updated_region ctxt =
     (membuf ctxt)\<lparr>mem_fid := mem_fid (allocation ctxt),
        valid_stages := (\<lambda>k. if k < NUM_STAGES then valid_stages (allocation ctxt) k else valid_stages (membuf ctxt) k),
        sync_data := (\<lambda>k. if k < NUM_STAGES
           then (sync_data (membuf ctxt) k)\<lparr>mem_start := mem_start (sync_data (allocation ctxt) k),
                   mem_end := mem_end (sync_data (allocation ctxt) k)\<rparr>
           else sync_data (membuf ctxt) k)\<rparr>"

definition finish_poll ::
  "nat \<Rightarrow> ('a, 'h) ctrl_state \<Rightarrow> (('a, 'h) activep4_context_t \<times> mbuf list) c_result \<Rightarrow> ('a, 'h) ctrl_state c_result" where
  "finish_poll a s r =
     bind_result r (\<lambda>(ctxt, ms). Inr (s\<lparr>cs_apps := set_ctxt a ctxt (cs_apps s), cs_sent := cs_sent s @ ms, cs_pc := Poll (Suc a)\<rparr>))"

definition start_remap ::
  "('h \<Rightarrow> ('a, 'h) app_ops) \<Rightarrow> nat \<Rightarrow> ('a, 'h) ctrl_state \<Rightarrow> ('a, 'h) activep4_context_t \<Rightarrow> ('a, 'h) ctrl_state c_result" where
  "start_remap ops a s ctxt =
     (let (ctxt, reset) = reset_memory_region ops (updated_region ctxt) (ctxt\<lparr>membuf := updated_region ctxt\<rparr>)
      in if reset then Inr (s\<lparr>cs_apps := set_ctxt a ctxt (cs_apps s), cs_pc := Scan Remap a False 0 None\<rparr>)
         else Inr (s\<lparr>cs_apps := set_ctxt a (ctxt\<lparr>status := TRANSMITTING\<rparr>) (cs_apps s), cs_pc := Poll (Suc a)\<rparr>))"

definition poll_app ::
  "('h \<Rightarrow> ('a, 'h) app_ops) \<Rightarrow> cksum_fn \<Rightarrow> (u64 \<Rightarrow> u64) \<Rightarrow> ctrl_env \<Rightarrow> nat \<Rightarrow> ('a, 'h) ctrl_state \<Rightarrow> ('a, 'h) ctrl_state c_result" where
  "poll_app ops cksum to_us env a s =
     (let ctxt = apps_ctxt (cs_apps s) a; now = cs_now s;
          elapsed_us = to_us (now - ctrl_ts_lastsent ctxt);
          skip = Inr (s\<lparr>cs_pc := Poll (Suc a)\<rparr>) in
      if \<not> is_active ctxt then skip
      else case status ctxt of
          INITIALIZING \<Rightarrow> if elapsed_us < CTRL_SEND_INTVL_US then skip
             else finish_poll a s (poll_initializing cksum env now ctxt)
        | REALLOCATING \<Rightarrow> if elapsed_us < CTRL_SEND_INTVL_US then skip
             else finish_poll a s (poll_reallocating cksum env now ctxt)
        | ALLOCATING \<Rightarrow> if elapsed_us < CTRL_SEND_INTVL_US then skip
             else finish_poll a s (poll_allocating cksum env now ctxt)
        | SNAPSHOTTING \<Rightarrow>
             Inr (s\<lparr>cs_apps := set_ctxt a (ctxt\<lparr>allocation := (allocation ctxt)\<lparr>sync_start_time := env_now env\<rparr>\<rparr>) (cs_apps s),
                    cs_pc := Scan Snap a False 0 None\<rparr>)
        | UPDATING \<Rightarrow>
             start_remap ops a s ctxt
        | REMAPPING \<Rightarrow>
             start_remap ops a s ctxt
        | TRANSMITTING \<Rightarrow> finish_poll a s (poll_transmitting ops cksum to_us env now ctxt)
        | _ \<Rightarrow> skip)"

text \<open>What the three scanning loops differ in: stages visited, words skipped, packets sent.\<close>

fun scan_stage :: "scan_kind \<Rightarrow> ('a, 'h) activep4_context_t \<Rightarrow> nat \<Rightarrow> bool" where
  "scan_stage Snap c i \<longleftrightarrow> valid_stages (allocation c) i \<noteq> 0 \<and> syncmap (allocation c) i \<noteq> 0"
| "scan_stage Inval c i \<longleftrightarrow> valid_stages (allocation c) i \<noteq> 0"
| "scan_stage Remap c i \<longleftrightarrow> valid_stages (allocation c) i \<noteq> 0"

fun scan_skip :: "scan_kind \<Rightarrow> ('a, 'h) activep4_context_t \<Rightarrow> nat \<Rightarrow> nat \<Rightarrow> bool" where
  "scan_skip Snap c i j \<longleftrightarrow> ms_valid (sync_data (allocation c) i) j \<noteq> 0"
| "scan_skip Inval c i j \<longleftrightarrow> ms_valid (sync_data (allocation c) i) j \<noteq> 0 \<or> syncmap (allocation c) i = 0"
| "scan_skip Remap c i j \<longleftrightarrow> ms_valid (sync_data (membuf c) i) j \<noteq> 0"

fun scan_send ::
  "cksum_fn \<Rightarrow> u8 list option \<Rightarrow> mbuf \<Rightarrow> scan_kind \<Rightarrow> nat \<Rightarrow> nat \<Rightarrow> nat \<Rightarrow> ('a, 'h) ctrl_state \<Rightarrow> ('a, 'h) ctrl_state c_result" where
  "scan_send cksum mac m Snap a i j s =
     bind_result (construct_snapshot_packet cksum mac m (apps_ctxt (cs_apps s) a) (int i) (int j) (cs_memsync s) False)
       (\<lambda>(m, cache). Inr (s\<lparr>cs_sent := cs_sent s @ [m], cs_memsync := cache\<rparr>))"
| "scan_send cksum mac m Inval a i j s =
     bind_result (construct_memremap_packet cksum mac m (apps_ctxt (cs_apps s) a) (int i) (int j)
         (ms_data (sync_data (allocation (apps_ctxt (cs_apps s) a)) i) j) (cs_memset s))
       (\<lambda>(m, cache). Inr (s\<lparr>cs_sent := cs_sent s @ [m], cs_memset := cache\<rparr>))"
| "scan_send cksum mac m Remap a i j s =
     bind_result (construct_memremap_packet cksum mac m (apps_ctxt (cs_apps s) a) (int i) (int j)
         (ms_data (sync_data (membuf (apps_ctxt (cs_apps s) a)) i) j) (cs_memset s))
       (\<lambda>(m, cache). Inr (s\<lparr>cs_sent := cs_sent s @ [m], cs_memset := cache\<rparr>))"

definition leave_snapshot :: "nat \<Rightarrow> ('a, 'h) activep4_context_t \<Rightarrow> ('a, 'h) ctrl_state \<Rightarrow> ('a, 'h) ctrl_state" where
  "leave_snapshot a ctxt s =
     s\<lparr>cs_apps := set_ctxt a (ctxt\<lparr>status := (if mem_invalid (allocation ctxt) \<noteq> 0 then REALLOCATING else REMAPPING)\<rparr>) (cs_apps s),
       cs_pc := Poll (Suc a)\<rparr>"

definition finish_snapshot ::
  "('h \<Rightarrow> ('a, 'h) app_ops) \<Rightarrow> ctrl_env \<Rightarrow> nat \<Rightarrow> ('a, 'h) ctrl_state \<Rightarrow> ('a, 'h) ctrl_state c_result" where
  "finish_snapshot ops env a s =
     (let ctxt = apps_ctxt (cs_apps s) a;
          ctxt = ctxt\<lparr>allocation := (allocation ctxt)\<lparr>sync_end_time := env_now env\<rparr>\<rparr> in
      bind_result (consume_memory_objects ops (env_now env) (allocation ctxt) ctxt)
        (\<lambda>ctxt. let (mem, invalidate) = op_memory_invalidate (ops (handlers ctxt)) (allocation ctxt);
                   ctxt = ctxt\<lparr>allocation := mem\<rparr>
          in if invalidate then Inr (s\<lparr>cs_apps := set_ctxt a ctxt (cs_apps s), cs_pc := Scan Inval a False 0 None\<rparr>)
             else Inr (leave_snapshot a ctxt s)))"

text \<open>
  The end of one pass over all stages.  The loops of \<open>Snap\<close> and \<open>Inval\<close> repeat while their flag is
  set.  The loop of \<open>Remap\<close> sets \<open>snapshotting_in_progress\<close> where it means \<open>remapping_in_progress\<close>,
  so its condition is always false at the end of the first pass.
\<close>

fun end_of_pass ::
  "('h \<Rightarrow> ('a, 'h) app_ops) \<Rightarrow> ctrl_env \<Rightarrow> scan_kind \<Rightarrow> nat \<Rightarrow> bool \<Rightarrow> ('a, 'h) ctrl_state \<Rightarrow> ('a, 'h) ctrl_state c_result" where
  "end_of_pass ops env Snap a flag s =
     (if flag then Inr (s\<lparr>cs_pc := Scan Snap a False 0 None\<rparr>) else finish_snapshot ops env a s)"
| "end_of_pass ops env Inval a flag s =
     (if flag then Inr (s\<lparr>cs_pc := Scan Inval a False 0 None\<rparr>) else Inr (leave_snapshot a (apps_ctxt (cs_apps s) a) s))"
| "end_of_pass ops env Remap a flag s =
     Inr (s\<lparr>cs_apps := set_ctxt a ((apps_ctxt (cs_apps s) a)\<lparr>status := TRANSMITTING\<rparr>) (cs_apps s), cs_pc := Poll (Suc a)\<rparr>)"

text \<open>\<open>j <= mem_end\<close> is an unsigned comparison; the arrays of a stage have \<open>MAX_DATA\<close> words.\<close>

definition scan_word ::
  "cksum_fn \<Rightarrow> ctrl_env \<Rightarrow> scan_kind \<Rightarrow> nat \<Rightarrow> bool \<Rightarrow> nat \<Rightarrow> nat \<Rightarrow> ('a, 'h) ctrl_state \<Rightarrow> ('a, 'h) ctrl_state c_result" where
  "scan_word cksum env k a flag i j s =
     (let ctxt = apps_ctxt (cs_apps s) a in
      if unat (mem_end (sync_data (allocation ctxt) i)) < j then Inr (s\<lparr>cs_pc := Scan k a flag (Suc i) None\<rparr>)
      else if MAX_DATA \<le> j then Inl OutOfBounds
      else if scan_skip k ctxt i j then Inr (s\<lparr>cs_pc := Scan k a flag i (Some (Suc j))\<rparr>)
      else bind_result (case env_mbuf env of None \<Rightarrow> Inr s | Some m \<Rightarrow> scan_send cksum (env_mac env) m k a i j s)
        (\<lambda>s. Inr (s\<lparr>cs_pc := Scan k a True i (Some (Suc j))\<rparr>)))"

definition scan_step ::
  "('h \<Rightarrow> ('a, 'h) app_ops) \<Rightarrow> cksum_fn \<Rightarrow> ctrl_env \<Rightarrow> scan_kind \<Rightarrow> nat \<Rightarrow> bool \<Rightarrow> nat \<Rightarrow> nat option \<Rightarrow> ('a, 'h) ctrl_state
     \<Rightarrow> ('a, 'h) ctrl_state c_result" where
  "scan_step ops cksum env k a flag i w s =
     (case w of
        Some j \<Rightarrow> scan_word cksum env k a flag i j s
      | None \<Rightarrow>
          if NUM_STAGES \<le> i then end_of_pass ops env k a flag s
          else if scan_stage k (apps_ctxt (cs_apps s) a) i
            then Inr (s\<lparr>cs_pc := Scan k a flag i (Some (unat (mem_start (sync_data (allocation (apps_ctxt (cs_apps s) a)) i))))\<rparr>)
            else Inr (s\<lparr>cs_pc := Scan k a flag (Suc i) None\<rparr>))"

definition ctrl_step ::
  "('h \<Rightarrow> ('a, 'h) app_ops) \<Rightarrow> cksum_fn \<Rightarrow> (u64 \<Rightarrow> u64) \<Rightarrow> ctrl_env \<Rightarrow> ('a, 'h) ctrl_state \<Rightarrow> ('a, 'h) ctrl_state c_result" where
  "ctrl_step ops cksum to_us env s =
     (case cs_pc s of
        PassStart \<Rightarrow> Inr (if env_running env then s\<lparr>cs_now := env_now env, cs_pc := Poll 0\<rparr> else s\<lparr>cs_pc := Halted\<rparr>)
      | Poll a \<Rightarrow> if a < num_apps (cs_apps s) then poll_app ops cksum to_us env a s else Inr (s\<lparr>cs_pc := PassStart\<rparr>)
      | Scan k a flag i w \<Rightarrow> scan_step ops cksum env k a flag i w s
      | Halted \<Rightarrow> Inr s)"

definition ctrl_init :: "('a, 'h) active_apps_t \<Rightarrow> ('a, 'h) ctrl_state" where
  "ctrl_init apps = \<lparr>cs_apps = apps, cs_pc = PassStart, cs_now = 0, cs_memsync = (\<lambda>_. zero_def), cs_memset = (\<lambda>_. zero_def), cs_sent = []\<rparr>"

text \<open>The thread on its own, given what its environment answers step by step.\<close>

fun ctrl_run ::
  "('h \<Rightarrow> ('a, 'h) app_ops) \<Rightarrow> cksum_fn \<Rightarrow> (u64 \<Rightarrow> u64) \<Rightarrow> ctrl_env list \<Rightarrow> ('a, 'h) ctrl_state \<Rightarrow> ('a, 'h) ctrl_state c_result" where
  "ctrl_run ops cksum to_us [] s = Inr s"
| "ctrl_run ops cksum to_us (e # es) s = bind_result (ctrl_step ops cksum to_us e s) (ctrl_run ops cksum to_us es)"

lemma ctrl_run_append:
  "ctrl_run ops cksum to_us (es @ fs) s = bind_result (ctrl_run ops cksum to_us es s) (ctrl_run ops cksum to_us fs)"
  by (induction es arbitrary: s) (auto simp: bind_result_assoc intro!: bind_result_cong_Inr)

text \<open>The helpers of the \<open>CTRL_PARALLEL\<close> build: the next stage and the next word still to be read.\<close>

fun next_stage_from :: "memory_t \<Rightarrow> nat list \<Rightarrow> nat option" where
  "next_stage_from mem [] = None"
| "next_stage_from mem (i # is) = (if valid_stages mem i \<noteq> 0 \<and> syncmap mem i \<noteq> 0 then Some i else next_stage_from mem is)"

definition get_next_valid_stage ::
  "('a, 'h) activep4_context_t \<Rightarrow> active_control_state_t \<Rightarrow> int \<times> active_control_state_t" where
  "get_next_valid_stage ctxt ctrlstat =
     (case next_stage_from (allocation ctxt) [nat (current_stage ctrlstat)..<NUM_STAGES] of
        Some i \<Rightarrow> (int i, ctrlstat\<lparr>current_stage := int i\<rparr>)
      | None \<Rightarrow> (- 1, ctrlstat))"

lemma next_stage_from_cases:
  "next_stage_from mem is = Some i \<Longrightarrow> i \<in> set is \<and> valid_stages mem i \<noteq> 0 \<and> syncmap mem i \<noteq> 0"
  "next_stage_from mem is = None \<Longrightarrow> \<forall>i\<in>set is. valid_stages mem i = 0 \<or> syncmap mem i = 0"
  by (induction "is") (auto split: if_splits)

subsection \<open>One step changes one application\<close>

lemma set_ctxt_simps [simp]:
  "apps_ctxt (set_ctxt a c apps) b = (if a = b then c else apps_ctxt apps b)"
  "num_apps (set_ctxt a c apps) = num_apps apps"
  by (simp_all add: set_ctxt_def)

lemma telemetry_allocation_start_simps [simp]:
  "status (telemetry_allocation_start now c) = status c" "allocation (telemetry_allocation_start now c) = allocation c"
  "membuf (telemetry_allocation_start now c) = membuf c" "ctrl_ts_lastsent (telemetry_allocation_start now c) = ctrl_ts_lastsent c"
  "is_active (telemetry_allocation_start now c) = is_active c"
  by (simp_all add: telemetry_allocation_start_def)

fun pc_app :: "ctrl_pc \<Rightarrow> nat option" where
  "pc_app (Poll a) = Some a"
| "pc_app (Scan k a f i w) = Some a"
| "pc_app _ = None"

lemma scan_send_frame:
  "scan_send cksum mac m k a i j s = Inr s' \<Longrightarrow> cs_apps s' = cs_apps s \<and> cs_now s' = cs_now s \<and> cs_pc s' = cs_pc s"
  by (cases k) (auto simp: bind_result_Inr_iff)

lemma scan_word_frame:
  "scan_word cksum env k a f i j s = Inr s' \<Longrightarrow> cs_apps s' = cs_apps s
     \<and> (\<exists>f' i' w'. cs_pc s' = Scan k a f' i' w')"
  by (auto simp: scan_word_def Let_def bind_result_Inr_iff split: if_splits option.splits dest!: scan_send_frame)

lemma finish_snapshot_frame:
  "finish_snapshot ops env a s = Inr s' \<Longrightarrow> num_apps (cs_apps s') = num_apps (cs_apps s)
     \<and> (\<forall>b. b \<noteq> a \<longrightarrow> apps_ctxt (cs_apps s') b = apps_ctxt (cs_apps s) b)"
  by (auto simp: finish_snapshot_def Let_def bind_result_Inr_iff leave_snapshot_def case_prod_beta split: if_splits)

lemma end_of_pass_frame:
  "end_of_pass ops env k a f s = Inr s' \<Longrightarrow> num_apps (cs_apps s') = num_apps (cs_apps s)
     \<and> (\<forall>b. b \<noteq> a \<longrightarrow> apps_ctxt (cs_apps s') b = apps_ctxt (cs_apps s) b)"
  by (cases k) (auto simp: leave_snapshot_def split: if_splits dest!: finish_snapshot_frame)

lemma scan_step_frame:
  "scan_step ops cksum env k a f i w s = Inr s' \<Longrightarrow> num_apps (cs_apps s') = num_apps (cs_apps s)
     \<and> (\<forall>b. b \<noteq> a \<longrightarrow> apps_ctxt (cs_apps s') b = apps_ctxt (cs_apps s) b)"
  by (auto simp: scan_step_def split: option.splits if_splits dest!: scan_word_frame end_of_pass_frame)

lemma poll_app_frame:
  "poll_app ops cksum to_us env a s = Inr s' \<Longrightarrow> num_apps (cs_apps s') = num_apps (cs_apps s)
     \<and> (\<forall>b. b \<noteq> a \<longrightarrow> apps_ctxt (cs_apps s') b = apps_ctxt (cs_apps s) b)"
  by (cases "status (apps_ctxt (cs_apps s) a)")
    (auto simp: poll_app_def Let_def finish_poll_def start_remap_def case_prod_beta bind_result_Inr_iff split: if_splits)

lemma ctrl_step_frame:
  assumes "ctrl_step ops cksum to_us env s = Inr s'"
  shows "num_apps (cs_apps s') = num_apps (cs_apps s)
    \<and> (\<forall>b. pc_app (cs_pc s) \<noteq> Some b \<longrightarrow> apps_ctxt (cs_apps s') b = apps_ctxt (cs_apps s) b)"
proof (cases "cs_pc s")
  case (Poll a)
  then show ?thesis
    using assms poll_app_frame [of ops cksum to_us env a s s'] by (auto simp: ctrl_step_def split: if_splits)
next
  case (Scan k a f i w)
  then show ?thesis
    using assms scan_step_frame [of ops cksum env k a f i w s s'] by (auto simp: ctrl_step_def)
qed (use assms in \<open>auto simp: ctrl_step_def split: if_splits\<close>)

end
