(* ===== verification/AP4_Ping.thy ===== *)
theory AP4_Ping
  imports AP4_Request AP4_Control
begin

text \<open>
  The ping example (\<open>examples/ping/app/dpdk\<close>): one packet is built and sent again and again with a
  fresh time stamp; every hundred-and-first reply is turned into a sample.  There is no control
  thread, and the memory handlers of \<open>ping.h\<close> are never installed.  \<open>to_ns\<close> stands for the conversion
  of cycles to nanoseconds, a floating-point expression over the clock frequency.
\<close>

abbreviation (input) MAX_SAMPLES :: nat where "MAX_SAMPLES \<equiv> 100000"
abbreviation (input) SAMPLE_RATE :: u64 where "SAMPLE_RATE \<equiv> 100"
abbreviation (input) PING_IPV4_ADDR :: u32 where "PING_IPV4_ADDR \<equiv> 0x0100000a"

subsection \<open>Model\<close>

record ping_context_t =
  num_samples :: nat
  ping_times_ns :: "u64 arr"

type_synonym ping_ctxt = "(ping_context_t, unit) activep4_context_t"
type_synonym ping_apps = "(ping_context_t, unit) active_apps_t"

text \<open>The two halves of the time stamp, in host byte order.\<close>

definition ping_args :: "u64 \<Rightarrow> activep4_data_t" where
  "ping_args now = (\<lambda>_. 0)(0 := ucast now, 1 := ucast (drop_bit 32 now))"

text \<open>\<open>None\<close> is the early return when the port has no MAC address.\<close>

definition ping_construct_packet :: "cksum_fn \<Rightarrow> u8 list option \<Rightarrow> u64 \<Rightarrow> ping_ctxt \<Rightarrow> mbuf \<Rightarrow> mbuf option" where
  "ping_construct_packet cksum mac now ctxt m =
     (let b = put_ether_type (if activate_packets ctxt then AP4_ETHER_TYPE_AP4 else RTE_ETHER_TYPE_IPV4) (mb_data m) in
      case mac of
        None \<Rightarrow> None
      | Some addr \<Rightarrow>
          (let b = put_ether_addrs addr b;
               finish = (\<lambda>offset b. Some (set_len (42 + offset)
                 (m\<lparr>mb_data := put_udp_headers cksum (14 + offset) PING_IPV4_ADDR PING_IPV4_ADDR 9876 9877 b\<rparr>)))
           in if activate_packets ctxt then finish (active_length ctxt) (put_active_request ctxt (ping_args now) b) else finish 0 b))"

definition update_packet :: "u64 \<Rightarrow> mbuf \<Rightarrow> mbuf" where
  "update_packet now m =
     (if load32 (mb_data m) 14 = htonl ACTIVEP4SIG
      then m\<lparr>mb_data := put_arg 1 (ucast (drop_bit 32 now)) (put_arg 0 (ucast now) (mb_data m))\<rparr> else m)"

text \<open>One pass of \<open>lcore_tx\<close>: the same buffer is stamped and handed to the driver once per instance.\<close>

fun ping_tx_round :: "u64 list \<Rightarrow> mbuf \<Rightarrow> mbuf \<times> mbuf list" where
  "ping_tx_round [] m = (m, [])"
| "ping_tx_round (now # nows) m = (let m = update_packet now m; (m', ms) = ping_tx_round nows m in (m', m # ms))"

record ping_rx =
  rx_apps :: ping_apps
  current_count :: u64

definition ping_sample :: "(u64 \<Rightarrow> u64) \<Rightarrow> u64 \<Rightarrow> activep4_data_t \<Rightarrow> ping_context_t \<Rightarrow> ping_context_t" where
  "ping_sample to_ns now data ping =
     (let sent_at = ucast (data 0) OR push_bit 32 (ucast (data 1)) :: u64
      in ping\<lparr>ping_times_ns := (ping_times_ns ping)(num_samples ping := to_ns (now - sent_at)), num_samples := Suc (num_samples ping)\<rparr>)"

definition ping_rx_packet :: "(u64 \<Rightarrow> u64) \<Rightarrow> u64 \<Rightarrow> ping_rx \<Rightarrow> mbuf \<Rightarrow> ping_rx" where
  "ping_rx_packet to_ns now cfg m =
     (let b = mb_data m in
      if ntohs (load16 b 12) \<noteq> AP4_ETHER_TYPE_AP4 then cfg
      else let cfg = cfg\<lparr>current_count := current_count cfg + 1\<rparr> in
        if htonl (load32 b 14) \<noteq> ACTIVEP4SIG then cfg
        else case find_ctxt (rx_apps cfg) (ntohs (load16 b 20)) of
            None \<Rightarrow> cfg
          | Some i \<Rightarrow>
              if current_count cfg > SAMPLE_RATE then
                (let ctxt = apps_ctxt (rx_apps cfg) i; ping = app_context ctxt;
                     ping = (if TEST_FLAG (ntohs (load16 b 18)) AP4FLAGMASK_OPT_ARGS \<and> num_samples ping < MAX_SAMPLES
                             then ping_sample to_ns now (\<lambda>k. load32 b (24 + 4 * k)) ping else ping)
                 in cfg\<lparr>rx_apps := set_ctxt i (ctxt\<lparr>app_context := ping\<rparr>) (rx_apps cfg), current_count := 0\<rparr>)
              else cfg)"

fun ping_rx_burst :: "(u64 \<Rightarrow> u64) \<Rightarrow> u64 \<Rightarrow> mbuf list \<Rightarrow> ping_rx \<Rightarrow> ping_rx" where
  "ping_rx_burst to_ns now [] cfg = cfg"
| "ping_rx_burst to_ns now (m # ms) cfg = ping_rx_burst to_ns now ms (ping_rx_packet to_ns now cfg m)"

definition ping_instance :: "pnemonic_opcode_t \<Rightarrow> activep4_def_t \<Rightarrow> nat \<Rightarrow> ping_ctxt" where
  "ping_instance iset p i =
     \<lparr>ctx_id = 0, ctx_fid = int (Suc i), active_tx_enabled = True, active_heartbeat_enabled = False, is_active = True,
      status = TRANSMITTING, active_timer_enabled = True, ctrl_ts_lastsent = 0, ctrl_timer_lasttick = 0, telemetry = zero_telemetry,
      instr_set = iset, programs = (\<lambda>j. if j = 0 then p\<lparr>mutant := (mutant p)\<lparr>mut_code := code p, mut_proglen := int (proglen p)\<rparr>\<rparr> else zero_def),
      num_programs = 1, current_pid = 0, allocation = zero_memory, membuf = zero_memory, is_elastic = False, ctx_data = (\<lambda>_. 0),
      ipv4_srcaddr = PING_IPV4_ADDR, app_context = \<lparr>num_samples = 0, ping_times_ns = (\<lambda>_. 0)\<rparr>, timer_interval_us = 1000000, handlers = ()\<rparr>"

text \<open>The table of contexts is allocated for one instance, whatever the number on the command line.\<close>

definition ping_main :: "(string \<Rightarrow> u8 list option) \<Rightarrow> (string \<Rightarrow> string option) \<Rightarrow> buffer \<Rightarrow> string option \<Rightarrow> ping_apps c_result" where
  "ping_main bin txt stale arg =
     (let num_instances = (case arg of None \<Rightarrow> 1 | Some a \<Rightarrow> atoi a) in
      if num_instances \<le> 0 then Inl ExitFailure
      else
        bind_result (read_opcode_action_map (txt ''../../../../activermt/opcode_action_mapping.csv'') zero_instr_set) (\<lambda>iset.
        bind_result (read_active_function bin txt stale zero_def ''../../activesrc'' ''ping'') (\<lambda>p.
        if 1 < num_instances then Inl OutOfBounds
        else Inr \<lparr>num_apps = 1, apps_ctxt = ping_instance iset (p\<lparr>prog_name := ''ping''\<rparr>),
                  apps_stats = (\<lambda>_. zero_app_stats), apps_app_id = (\<lambda>_. 0)\<rparr>)))"

subsection \<open>Round-trip times\<close>

lemma time_stamp_halves: "(ucast (ucast t :: u32) :: u64) OR push_bit 32 (ucast (ucast (drop_bit 32 t) :: u32)) = t" for t :: u64
  by (rule bit_word_eqI) (auto simp: bit_or_iff bit_push_bit_iff bit_ucast_iff bit_drop_bit_eq not_less)

text \<open>A reply of instance \<open>i\<close> as the receiver recognises it.\<close>

definition ping_reply :: "ping_apps \<Rightarrow> nat \<Rightarrow> mbuf \<Rightarrow> bool" where
  "ping_reply apps i m \<longleftrightarrow> ntohs (load16 (mb_data m) 12) = AP4_ETHER_TYPE_AP4 \<and> is_activep4 (mb_data m) 14
     \<and> TEST_FLAG (ntohs (load16 (mb_data m) 18)) AP4FLAGMASK_OPT_ARGS \<and> find_ctxt apps (ntohs (load16 (mb_data m) 20)) = Some i"

lemma ping_rx_reply:
  assumes "ping_reply (rx_apps cfg) i m"
  shows "ping_rx_packet to_ns now cfg m =
    (if current_count cfg + 1 > SAMPLE_RATE then
       cfg\<lparr>rx_apps := set_ctxt i ((apps_ctxt (rx_apps cfg) i)\<lparr>app_context :=
           (if num_samples (app_context (apps_ctxt (rx_apps cfg) i)) < MAX_SAMPLES
            then ping_sample to_ns now (\<lambda>k. load32 (mb_data m) (24 + 4 * k)) (app_context (apps_ctxt (rx_apps cfg) i))
            else app_context (apps_ctxt (rx_apps cfg) i))\<rparr>) (rx_apps cfg), current_count := 0\<rparr>
     else cfg\<lparr>current_count := current_count cfg + 1\<rparr>)"
  using assms by (simp add: ping_rx_packet_def ping_reply_def is_activep4_def Let_def cong: if_cong)

text \<open>The stamped packet: what \<open>update_packet\<close> makes of a packet of the generator.\<close>

lemma ping_packet:
  assumes "length addr = 6" "0 \<le> mut_proglen (mutant (current_program c))" "activate_packets c"
  obtains p where "ping_construct_packet cksum (Some addr) t0 c m = Some p"
    "ctrl_packet p (AP4FLAGMASK_OPT_ARGS OR AP4FLAGMASK_FLAG_PRELOAD) (ctx_fid c)"
    "\<And>i. i < 4 \<Longrightarrow> load32 (mb_data p) (24 + 4 * i) = ping_args t0 i" "program_at (mb_data p) 40 (request_code c)"
    "mb_pkt_len p = 68 + 2 * length (request_code c)"
proof
  let ?n = "length (request_code c)"
  let ?p = "set_len (68 + 2 * ?n) (m\<lparr>mb_data := put_udp_headers cksum (40 + 2 * ?n) PING_IPV4_ADDR PING_IPV4_ADDR 9876 9877
      (put_active_request c (ping_args t0) (put_ether_addrs addr (put_ether_type AP4_ETHER_TYPE_AP4 (mb_data m))))\<rparr>)"
  show "ping_construct_packet cksum (Some addr) t0 c m = Some ?p"
    using assms(3) active_length_code [OF assms(2)] by (simp add: ping_construct_packet_def Let_def add.assoc)
  note spec = active_request_spec [OF assms(1) refl, where m = m and cksum = cksum and src = PING_IPV4_ADDR and dst = PING_IPV4_ADDR
      and sport = 9876 and dport = 9877 and args = "ping_args t0" and c = c]
  show "ctrl_packet ?p (AP4FLAGMASK_OPT_ARGS OR AP4FLAGMASK_FLAG_PRELOAD) (ctx_fid c)"
    "\<And>i. i < 4 \<Longrightarrow> load32 (mb_data ?p) (24 + 4 * i) = ping_args t0 i" "program_at (mb_data ?p) 40 (request_code c)"
    "mb_pkt_len ?p = 68 + 2 * ?n"
    using spec by auto
qed

lemma update_packet_stamp:
  assumes "ctrl_packet p flags fid"
  shows "ctrl_packet (update_packet t p) flags fid" "load32 (mb_data (update_packet t p)) 24 = ucast t"
    "load32 (mb_data (update_packet t p)) 28 = ucast (drop_bit 32 t)"
proof -
  have u: "update_packet t p = p\<lparr>mb_data := put_arg 1 (ucast (drop_bit 32 t)) (put_arg 0 (ucast t) (mb_data p))\<rparr>"
    using assms unfolding update_packet_def ctrl_packet_def is_activep4_def by (metis htonl_htonl One_nat_def)
  show "ctrl_packet (update_packet t p) flags fid" using assms by (simp add: u ctrl_packet_def is_activep4_def put_args_loads)
  show "load32 (mb_data (update_packet t p)) 24 = ucast t" "load32 (mb_data (update_packet t p)) 28 = ucast (drop_bit 32 t)"
    by (simp_all add: u put_arg_def buffer_simps)
qed

lemma ping_tx_round_last:
  assumes "ctrl_packet p flags fid"
  shows "\<exists>q0 sent. ping_tx_round (ts @ [t]) p = (update_packet t q0, sent) \<and> last sent = update_packet t q0 \<and> ctrl_packet q0 flags fid"
  using assms
proof (induction ts arbitrary: p)
  case Nil
  then show ?case by (auto simp: Let_def)
next
  case (Cons t' ts)
  obtain q0 sent where q: "ping_tx_round (ts @ [t]) (update_packet t' p) = (update_packet t q0, sent)" "last sent = update_packet t q0" "ctrl_packet q0 flags fid"
    using Cons.IH [OF update_packet_stamp(1) [OF Cons.prems]] by blast
  have "sent \<noteq> []"
    using q(1) by (cases ts) (auto simp: Let_def split: prod.splits)
  with q show ?case by (auto simp: Let_def)
qed


subsection \<open>Sampling\<close>

lemma find_ctxt_app_context:
  "find_ctxt (set_ctxt i ((apps_ctxt apps i)\<lparr>app_context := a\<rparr>) apps) fid = find_ctxt apps fid"
proof -
  have "(\<lambda>j. ctx_fid (apps_ctxt (set_ctxt i ((apps_ctxt apps i)\<lparr>app_context := a\<rparr>) apps) j)) = (\<lambda>j. ctx_fid (apps_ctxt apps j))"
    by (simp add: fun_eq_iff)
  then show ?thesis by (simp add: find_ctxt_def)
qed

lemma ping_reply_app_context [simp]:
  "ping_reply (set_ctxt i ((apps_ctxt apps i)\<lparr>app_context := a\<rparr>) apps) k m = ping_reply apps k m"
  by (simp add: ping_reply_def find_ctxt_app_context)

text \<open>
  Of the replies to an instance exactly every hundred-and-first becomes a sample, counted on from
  the replies already seen, until the table is full; the table is never left.
\<close>

theorem ping_samples_counted:
  assumes "\<forall>m\<in>set ms. ping_reply (rx_apps cfg) i m" "unat (current_count cfg) \<le> 100"
    and "num_samples (app_context (apps_ctxt (rx_apps cfg) i)) \<le> MAX_SAMPLES"
  shows "num_samples (app_context (apps_ctxt (rx_apps (ping_rx_burst to_ns now ms cfg)) i))
      = min MAX_SAMPLES (num_samples (app_context (apps_ctxt (rx_apps cfg) i)) + (unat (current_count cfg) + length ms) div 101)
    \<and> unat (current_count (ping_rx_burst to_ns now ms cfg)) = (unat (current_count cfg) + length ms) mod 101"
  using assms
proof (induction ms arbitrary: cfg)
  case Nil
  then show ?case by simp
next
  case (Cons m ms)
  let ?n = "num_samples (app_context (apps_ctxt (rx_apps cfg) i))" and ?c = "unat (current_count cfg)"
  have r: "ping_reply (rx_apps cfg) i m" using Cons.prems(1) by simp
  note step = ping_rx_reply [OF r, of to_ns now]
  have c: "unat (current_count cfg + 1) = Suc ?c" using Cons.prems(2) by (simp add: unat_word_ariths)
  show ?case
  proof (cases "?c = 100")
    case True
    then have "current_count cfg + 1 > SAMPLE_RATE" using c by (simp add: word_less_nat_alt)
    then have s: "current_count (ping_rx_packet to_ns now cfg m) = 0" "\<forall>m'\<in>set ms. ping_reply (rx_apps (ping_rx_packet to_ns now cfg m)) i m'"
      "num_samples (app_context (apps_ctxt (rx_apps (ping_rx_packet to_ns now cfg m)) i)) = min MAX_SAMPLES (Suc ?n)"
      using Cons.prems by (auto simp: step ping_sample_def Let_def)
    have "(?c + length (m # ms)) div 101 = Suc (length ms div 101)" "(?c + length (m # ms)) mod 101 = length ms mod 101"
      using True by simp_all
    then show ?thesis
      using Cons.IH [OF s(2)] s(1,3) by (simp add: min_def)
  next
    case False
    then have "\<not> current_count cfg + 1 > SAMPLE_RATE" using c Cons.prems(2) by (simp add: word_less_nat_alt)
    then have s: "ping_rx_packet to_ns now cfg m = cfg\<lparr>current_count := current_count cfg + 1\<rparr>" by (simp add: step)
    show ?thesis
      using Cons.IH [of "cfg\<lparr>current_count := current_count cfg + 1\<rparr>"] Cons.prems False c by (simp add: s)
  qed
qed

text \<open>A second instance on the command line is written behind the table of contexts.\<close>

lemma ping_main_one_instance:
  assumes "ping_main bin txt stale arg = Inr apps"
  shows "num_apps apps = 1 \<and> activate_packets (apps_ctxt apps 0) \<and> find_ctxt apps 1 = Some 0
    \<and> (\<forall>a. arg = Some a \<longrightarrow> atoi a = 1)"
  using assms
  by (auto simp: ping_main_def Let_def bind_result_Inr_iff ping_instance_def activate_packets_def find_ctxt_def split: if_splits option.splits)

subsection \<open>Examples\<close>

definition demo_ping :: ping_rx where
  "demo_ping = \<lparr>rx_apps = \<lparr>num_apps = 1, apps_ctxt = ping_instance zero_instr_set zero_def, apps_stats = (\<lambda>_. zero_app_stats), apps_app_id = (\<lambda>_. 0)\<rparr>,
     current_count = 100\<rparr>"

lemma demo_ping_simps:
  "0 \<le> mut_proglen (mutant (current_program (apps_ctxt (rx_apps demo_ping) 0)))" "activate_packets (apps_ctxt (rx_apps demo_ping) 0)"
  "ctx_fid (apps_ctxt (rx_apps demo_ping) 0) = 1" "find_ctxt (rx_apps demo_ping) 1 = Some 0" "current_count demo_ping = 100"
  "num_samples (app_context (apps_ctxt (rx_apps demo_ping) 0)) = 0"
  by (simp_all add: demo_ping_def ping_instance_def zero_def_def activate_packets_def find_ctxt_def)


definition demo_ping_reply :: mbuf where
  "demo_ping_reply = \<lparr>mb_data = (\<lambda>i. if i < 24 then [0, 0, 0, 0, 0, 0, 0, 0, 0, 0, 0, 0, 0x83, 0xB2, 0x12, 0x34, 0x56, 0x78, 0x80, 0, 0, 1, 0, 0] ! i else 0),
     mb_pkt_len = 68, mb_data_len = 68\<rparr>"

theorem ping_samples_counted_witness:
  "num_samples (app_context (apps_ctxt (rx_apps (ping_rx_burst id 10 [demo_ping_reply, demo_ping_reply] demo_ping)) 0)) = 1"
proof -
  have "find_ctxt (rx_apps demo_ping) 65537 = Some 0"
    by (simp add: demo_ping_def ping_instance_def find_ctxt_def)
  then have "ping_reply (rx_apps demo_ping) 0 demo_ping_reply"
    by (simp add: ping_reply_def demo_ping_reply_def load16_def load32_def htons_def htonl_def is_activep4_def TEST_FLAG_def)
  then show ?thesis
    using ping_samples_counted [of "[demo_ping_reply, demo_ping_reply]" demo_ping 0 id 10] demo_ping_simps by simp
qed

end
