(* ===== verification/AP4_Resp.thy ===== *)
theory AP4_Resp
  imports AP4_Prelude
begin

text \<open>
  The parser of Redis messages (\<open>common/payload_parser_resp.h\<close>).  The memory from the start of the
  message on is the list \<open>buf\<close>, of which the first \<open>buflen\<close> bytes are the message; reading behind the
  list is an access out of bounds.  The scratch array \<open>str\<close> and the variable \<open>arr_len\<close> are not
  initialised by the code; their first contents are arguments.
\<close>

abbreviation (input) MAXSTRLEN :: nat where "MAXSTRLEN \<equiv> 256"
abbreviation (input) CR :: u8 where "CR \<equiv> 0x0d"
abbreviation (input) LF :: u8 where "LF \<equiv> 0x0a"
abbreviation (input) RESP_ARRAY :: u8 where "RESP_ARRAY \<equiv> 42"
abbreviation (input) RESP_SIMPLESTR :: u8 where "RESP_SIMPLESTR \<equiv> 43"
abbreviation (input) RESP_BULKSTR :: u8 where "RESP_BULKSTR \<equiv> 36"
abbreviation (input) RESP_ERROR :: u8 where "RESP_ERROR \<equiv> 45"
abbreviation (input) REDIS_CMD_GET :: "u8 list" where "REDIS_CMD_GET \<equiv> [71, 69, 84]"
abbreviation (input) REDIS_CMD_SET :: "u8 list" where "REDIS_CMD_SET \<equiv> [83, 69, 84]"

subsection \<open>Model\<close>

record redis_command_t =
  cmd_get :: bool
  cmd_set :: bool
  key_len :: int
  val_len :: int
  rd_key :: buffer
  rd_value :: buffer
  rd_response :: buffer
  rd_error :: buffer

definition buf_at :: "u8 list \<Rightarrow> nat \<Rightarrow> u8 c_result" where
  "buf_at buf i = (if i < length buf then Inr (buf ! i) else Inl OutOfBounds)"

definition skip_crlf :: "u8 list \<Rightarrow> nat \<Rightarrow> nat c_result" where
  "skip_crlf buf i = bind_result (buf_at buf i) (\<lambda>c.
     if c = CR then bind_result (buf_at buf (i + 1)) (\<lambda>d. Inr (if d = LF then i + 2 else i)) else Inr i)"

function extract_decimal :: "u8 list \<Rightarrow> nat \<Rightarrow> int \<Rightarrow> (int \<times> nat) c_result" where
  "extract_decimal buf i num =
     (if length buf \<le> i then Inl OutOfBounds
      else if 48 \<le> buf ! i \<and> buf ! i < 58 then
        (if 2 ^ 31 \<le> num * 10 + uint (buf ! i) then Inl Overflow
         else extract_decimal buf (Suc i) (num * 10 + uint (buf ! i) - 48))
      else bind_result (skip_crlf buf i) (\<lambda>i. Inr (num, i)))"
  by pat_completeness auto
termination by (relation "measure (\<lambda>(buf, i, num). length buf - i)") auto

declare extract_decimal.simps [simp del]

text \<open>The two copying loops of \<open>extract_string\<close>: \<open>n\<close> bytes, or up to a carriage return.\<close>

fun copy_bytes :: "u8 list \<Rightarrow> nat \<Rightarrow> nat \<Rightarrow> nat \<Rightarrow> buffer \<Rightarrow> (nat \<times> nat \<times> buffer) c_result" where
  "copy_bytes buf i j 0 str = Inr (i, j, str)"
| "copy_bytes buf i j (Suc n) str =
     bind_result (buf_at buf i) (\<lambda>c. if MAXSTRLEN \<le> j then Inl OutOfBounds else copy_bytes buf (Suc i) (Suc j) n (str(j := c)))"

function copy_to_cr :: "u8 list \<Rightarrow> nat \<Rightarrow> nat \<Rightarrow> buffer \<Rightarrow> (nat \<times> nat \<times> buffer) c_result" where
  "copy_to_cr buf i j str =
     (if length buf \<le> i then Inl OutOfBounds
      else if buf ! i = CR then Inr (i, j, str)
      else if MAXSTRLEN \<le> j then Inl OutOfBounds
      else copy_to_cr buf (Suc i) (Suc j) (str(j := buf ! i)))"
  by pat_completeness auto
termination by (relation "measure (\<lambda>(buf, i, j, str). length buf - i)") auto

declare copy_to_cr.simps [simp del]

definition extract_string :: "u8 list \<Rightarrow> nat \<Rightarrow> buffer \<Rightarrow> int \<Rightarrow> (nat \<times> nat \<times> buffer) c_result" where
  "extract_string buf i str str_len =
     bind_result (if 0 < str_len then copy_bytes buf i 0 (nat str_len) str else copy_to_cr buf i 0 str) (\<lambda>(i, j, str).
     if MAXSTRLEN \<le> j then Inl OutOfBounds
     else bind_result (skip_crlf buf i) (\<lambda>i. Inr (j, i, str(j := 0))))"

definition cstr_is :: "buffer \<Rightarrow> u8 list \<Rightarrow> bool" where
  "cstr_is b s \<longleftrightarrow> map b [0..<length s] = s \<and> b (length s) = 0"

definition memcpy_str :: "buffer \<Rightarrow> buffer \<Rightarrow> int \<Rightarrow> buffer" where
  "memcpy_str dst str n = (\<lambda>k. if int k < n then str k else dst k)"

record resp_state =
  rs_i :: nat
  rs_arr_len :: int
  rs_str :: buffer
  rs_cmd :: redis_command_t

definition resp_bulk_cmd :: "int \<Rightarrow> buffer \<Rightarrow> int \<Rightarrow> redis_command_t \<Rightarrow> redis_command_t" where
  "resp_bulk_cmd arr_len str str_len redis =
     (if cstr_is str REDIS_CMD_GET then redis\<lparr>cmd_get := True\<rparr>
      else if cstr_is str REDIS_CMD_SET then redis\<lparr>cmd_set := True\<rparr>
      else if cmd_get redis \<and> arr_len = 1 \<or> cmd_set redis \<and> arr_len = 2
        then redis\<lparr>rd_key := memcpy_str (rd_key redis) str (str_len + 1), key_len := str_len\<rparr>
      else if cmd_set redis then redis\<lparr>rd_value := memcpy_str (rd_value redis) str (str_len + 1), val_len := str_len\<rparr>
      else redis\<lparr>rd_response := memcpy_str (rd_response redis) str (str_len + 1), cmd_get := True\<rparr>)"

definition resp_bulk :: "u8 list \<Rightarrow> resp_state \<Rightarrow> resp_state c_result" where
  "resp_bulk buf s =
     bind_result (extract_decimal buf (rs_i s + 1) 0) (\<lambda>(str_len, i).
     bind_result (extract_string buf i (rs_str s) str_len) (\<lambda>(_, i, str).
     Inr (s\<lparr>rs_i := i, rs_str := str, rs_cmd := resp_bulk_cmd (rs_arr_len s) str str_len (rs_cmd s), rs_arr_len := rs_arr_len s - 1\<rparr>)))"

text \<open>There is no \<open>break\<close> behind these cases: an error is followed by a simple string, and both skip one more byte.\<close>

definition resp_simple :: "u8 list \<Rightarrow> resp_state \<Rightarrow> resp_state c_result" where
  "resp_simple buf s =
     bind_result (extract_string buf (rs_i s + 1) (rs_str s) 0) (\<lambda>(j, i, str).
     Inr (s\<lparr>rs_i := i + 1, rs_str := str,
            rs_cmd := (rs_cmd s)\<lparr>rd_response := memcpy_str (rd_response (rs_cmd s)) str (int j + 1), cmd_set := True\<rparr>\<rparr>))"

definition resp_error :: "u8 list \<Rightarrow> resp_state \<Rightarrow> resp_state c_result" where
  "resp_error buf s =
     bind_result (extract_string buf (rs_i s + 1) (rs_str s) 0) (\<lambda>(j, i, str).
     resp_simple buf (s\<lparr>rs_i := i, rs_str := str,
            rs_cmd := (rs_cmd s)\<lparr>rd_error := memcpy_str (rd_error (rs_cmd s)) str (int j + 1)\<rparr>\<rparr>))"

definition resp_step :: "u8 list \<Rightarrow> resp_state \<Rightarrow> resp_state c_result" where
  "resp_step buf s =
     bind_result (buf_at buf (rs_i s)) (\<lambda>c.
       if c = RESP_ARRAY then
         bind_result (extract_decimal buf (rs_i s + 1) 0) (\<lambda>(n, i). Inr (s\<lparr>rs_i := i, rs_arr_len := n\<rparr>))
       else if c = RESP_BULKSTR then resp_bulk buf s
       else if c = RESP_ERROR then resp_error buf s
       else if c = RESP_SIMPLESTR then resp_simple buf s
       else Inr (s\<lparr>rs_i := rs_i s + 1\<rparr>))"

lemma bind_result_fundef_cong [fundef_cong]:
  "r = r' \<Longrightarrow> (\<And>x. r' = Inr x \<Longrightarrow> f x = g x) \<Longrightarrow> bind_result r f = bind_result r' g"
  by (cases r') auto

lemma skip_crlf_le: "skip_crlf buf i = Inr k \<Longrightarrow> i \<le> k"
  by (auto simp: skip_crlf_def buf_at_def bind_result_Inr_iff split: if_splits)

lemma extract_decimal_le: "extract_decimal buf i num = Inr (n, k) \<Longrightarrow> i \<le> k"
proof (induction buf i num rule: extract_decimal.induct)
  case (1 buf i num)
  then show ?case
    by (subst (asm) extract_decimal.simps) (auto simp: bind_result_Inr_iff split: if_splits dest: skip_crlf_le)
qed

lemma copy_bytes_le: "copy_bytes buf i j n str = Inr (k, l, str') \<Longrightarrow> i \<le> k"
  by (induction n arbitrary: i j str) (fastforce simp: bind_result_Inr_iff split: if_splits)+

lemma copy_to_cr_le: "copy_to_cr buf i j str = Inr (k, l, str') \<Longrightarrow> i \<le> k"
proof (induction buf i j str rule: copy_to_cr.induct)
  case (1 buf i j str)
  then show ?case by (subst (asm) copy_to_cr.simps) (auto simp: fun_upd_def split: if_splits)
qed

lemma extract_string_le: "extract_string buf i str n = Inr (j, k, str') \<Longrightarrow> i \<le> k"
  by (auto simp: extract_string_def bind_result_Inr_iff split: if_splits dest!: copy_bytes_le copy_to_cr_le skip_crlf_le)

lemma resp_step_progress: "resp_step buf s = Inr s' \<Longrightarrow> rs_i s < rs_i s'"
  by (auto simp: resp_step_def resp_bulk_def resp_simple_def resp_error_def bind_result_Inr_iff split: if_splits
      dest!: extract_decimal_le extract_string_le)

function resp_loop :: "u8 list \<Rightarrow> nat \<Rightarrow> resp_state \<Rightarrow> resp_state c_result" where
  "resp_loop buf buflen s = (if rs_i s < buflen then bind_result (resp_step buf s) (resp_loop buf buflen) else Inr s)"
  by pat_completeness auto
termination
  by (relation "measure (\<lambda>(buf, buflen, s). buflen - rs_i s)") (auto dest: resp_step_progress)

declare resp_loop.simps [simp del]

definition deserialize_redis_data :: "u8 list \<Rightarrow> nat \<Rightarrow> buffer \<Rightarrow> int \<Rightarrow> redis_command_t \<Rightarrow> redis_command_t c_result" where
  "deserialize_redis_data buf buflen stale arr_len redis =
     bind_result (resp_loop buf buflen \<lparr>rs_i = 0, rs_arr_len = arr_len, rs_str = stale,
         rs_cmd = redis\<lparr>cmd_get := False, cmd_set := False, rd_key := (rd_key redis)(0 := 0), rd_value := (rd_value redis)(0 := 0),
           rd_response := (rd_response redis)(0 := 0)\<rparr>\<rparr>)
       (\<lambda>s. Inr (rs_cmd s))"

subsection \<open>Reading what was written\<close>

function decimal :: "nat \<Rightarrow> u8 list" where
  "decimal n = (if n < 10 then [of_nat (48 + n)] else decimal (n div 10) @ [of_nat (48 + n mod 10)])"
  by pat_completeness auto
termination by (relation "measure id") auto

declare decimal.simps [simp del]

definition bulk :: "u8 list \<Rightarrow> u8 list" where
  "bulk w = RESP_BULKSTR # decimal (length w) @ [CR, LF] @ w @ [CR, LF]"

definition command :: "u8 list list \<Rightarrow> u8 list" where
  "command ws = RESP_ARRAY # decimal (length ws) @ [CR, LF] @ concat (map bulk ws)"

lemma drop_Cons_nth: "drop i buf = x # xs \<Longrightarrow> i < length buf \<and> buf ! i = x \<and> drop (Suc i) buf = xs"
  by (metis Cons_nth_drop_Suc drop_eq_Nil list.distinct(1) list.inject not_le)

lemma buf_at_drop: "drop i buf = x # xs \<Longrightarrow> buf_at buf i = Inr x"
  using drop_Cons_nth [of i buf x xs] by (simp add: buf_at_def)

lemma skip_crlf_drop: "drop i buf = CR # LF # xs \<Longrightarrow> skip_crlf buf i = Inr (i + 2)"
  using drop_Cons_nth [of i buf CR "LF # xs"] by (simp add: skip_crlf_def buf_at_drop)

lemma digit_byte:
  assumes "d < 10"
  shows "uint (of_nat (48 + d) :: u8) = 48 + int d" "(48 :: u8) \<le> of_nat (48 + d)" "(of_nat (48 + d) :: u8) < 58"
proof -
  have u: "unat (of_nat (48 + d) :: u8) = 48 + d" using assms by (simp add: unat_of_nat take_bit_nat_eq_self del: of_nat_add)
  then show "uint (of_nat (48 + d) :: u8) = 48 + int d" using uint_nat [of "of_nat (48 + d) :: u8"] by (simp del: of_nat_add)
  show "(48 :: u8) \<le> of_nat (48 + d)" "(of_nat (48 + d) :: u8) < 58"
    using assms u by (simp_all add: word_le_nat_alt word_less_nat_alt del: of_nat_add)
qed

lemma extract_decimal_digits:
  assumes "drop i buf = decimal n @ xs" "n + 48 < 2 ^ 31"
  shows "extract_decimal buf i 0 = extract_decimal buf (i + length (decimal n)) (int n)"
  using assms
proof (induction n arbitrary: xs rule: decimal.induct)
  case (1 n)
  have digit: "extract_decimal buf k (int m) = extract_decimal buf (Suc k) (int (10 * m + d))"
    if "drop k buf = of_nat (48 + d) # ys" "d < 10" "10 * m + d + 48 < 2 ^ 31" for k m d ys
  proof -
    have sum: "int m * 10 + (48 + int d) - 48 = int (10 * m + d)" "\<not> 2 ^ 31 \<le> int m * 10 + (48 + int d)"
      using that(3) by (simp_all add: mult.commute)
    show ?thesis
      using drop_Cons_nth [OF that(1)] digit_byte [OF that(2)] sum
      by (subst extract_decimal.simps) (simp only: if_True if_False simp_thms not_le [symmetric] not_less)
  qed
  show ?case
  proof (cases "n < 10")
    case True
    then show ?thesis
      using digit [of i n xs 0] 1(2) by (simp add: decimal.simps [of n] del: of_nat_add)
  next
    case False
    then have dec: "decimal n = decimal (n div 10) @ [of_nat (48 + n mod 10)]" by (subst decimal.simps) simp
    let ?k = "i + length (decimal (n div 10))"
    have "extract_decimal buf i 0 = extract_decimal buf ?k (int (n div 10))"
      using 1(1) [OF False, of "of_nat (48 + n mod 10) # xs"] 1(2,3) dec by simp
    also have "\<dots> = extract_decimal buf (Suc ?k) (int (10 * (n div 10) + n mod 10))"
    proof (rule digit)
      have "drop ?k buf = drop (length (decimal (n div 10))) (drop i buf)" by (simp add: add.commute)
      then show "drop ?k buf = of_nat (48 + n mod 10) # xs" using 1(2) by (simp add: dec)
      show "10 * (n div 10) + n mod 10 + 48 < 2 ^ 31" using 1(3) by simp
    qed simp
    finally show ?thesis by (simp add: dec)
  qed
qed

lemma extract_decimal_drop:
  assumes "drop i buf = decimal n @ CR # LF # xs" "n + 48 < 2 ^ 31"
  shows "extract_decimal buf i 0 = Inr (int n, i + length (decimal n) + 2)"
proof -
  let ?k = "i + length (decimal n)"
  have k: "drop ?k buf = CR # LF # xs" using arg_cong [OF assms(1), of "drop (length (decimal n))"] by (simp add: add.commute)
  then have "extract_decimal buf ?k (int n) = Inr (int n, ?k + 2)"
    using drop_Cons_nth [OF k] skip_crlf_drop [OF k] by (subst extract_decimal.simps) (simp add: word_le_nat_alt)
  then show ?thesis using extract_decimal_digits [OF assms] by simp
qed

lemma copy_bytes_drop:
  assumes "drop i buf = w @ xs" "j + length w \<le> MAXSTRLEN"
  shows "copy_bytes buf i j (length w) str = Inr (i + length w, j + length w, store_bytes j w str)"
  using assms
proof (induction w arbitrary: i j str)
  case Nil
  then show ?case by (auto simp: store_bytes_def fun_eq_iff)
next
  case (Cons c w)
  note d = drop_Cons_nth [of i buf c "w @ xs"]
  have "store_bytes (Suc j) w (str(j := c)) = store_bytes j (c # w) str"
    by (auto simp: store_bytes_def fun_eq_iff nth_Cons' Suc_diff_le)
  then show ?case using Cons d by (simp add: buf_at_drop fun_upd_def)
qed

definition stored :: "u8 list \<Rightarrow> buffer \<Rightarrow> buffer" where
  "stored w str = (store_bytes 0 w str)(length w := 0)"

lemma extract_string_drop:
  assumes "drop i buf = w @ CR # LF # xs" "w \<noteq> []" "length w < MAXSTRLEN"
  shows "extract_string buf i str (int (length w)) = Inr (length w, i + length w + 2, stored w str)"
proof -
  have k: "drop (i + length w) buf = CR # LF # xs" using arg_cong [OF assms(1), of "drop (length w)"] by (simp add: add.commute)
  then show ?thesis
    using assms(2,3) copy_bytes_drop [OF assms(1), of 0 str] skip_crlf_drop [OF k] by (simp add: extract_string_def stored_def)
qed

text \<open>One bulk string, read from the position where it starts.\<close>

lemma resp_step_bulk:
  assumes "drop (rs_i s) buf = bulk w @ r" "w \<noteq> []" "length w < MAXSTRLEN"
  shows "resp_step buf s = Inr (s\<lparr>rs_i := rs_i s + length (bulk w), rs_str := stored w (rs_str s),
           rs_cmd := resp_bulk_cmd (rs_arr_len s) (stored w (rs_str s)) (int (length w)) (rs_cmd s), rs_arr_len := rs_arr_len s - 1\<rparr>)"
proof -
  let ?d = "decimal (length w)"
  have 0: "drop (rs_i s) buf = RESP_BULKSTR # ?d @ CR # LF # w @ CR # LF # r" using assms(1) by (simp add: bulk_def)
  then have 1: "drop (rs_i s + 1) buf = ?d @ CR # LF # w @ CR # LF # r" using drop_Cons_nth by force
  have 2: "drop (rs_i s + 1 + length ?d + 2) buf = w @ CR # LF # r"
    using arg_cong [OF 1, of "drop (length ?d + 2)"] by (simp add: drop_drop ac_simps)
  show ?thesis
    using extract_decimal_drop [OF 1] extract_string_drop [OF 2 assms(2,3), of "rs_str s"] assms(3)
    by (simp add: resp_step_def buf_at_drop [OF 0] resp_bulk_def bulk_def)
qed

lemma resp_step_array:
  assumes "drop (rs_i s) buf = RESP_ARRAY # decimal n @ [CR, LF] @ r" "n + 48 < 2 ^ 31"
  shows "resp_step buf s = Inr (s\<lparr>rs_i := rs_i s + length (decimal n) + 3, rs_arr_len := int n\<rparr>)"
proof -
  have 1: "drop (rs_i s + 1) buf = decimal n @ CR # LF # r" using assms(1) drop_Cons_nth by force
  show ?thesis
    using extract_decimal_drop [OF 1 assms(2)] by (simp add: resp_step_def buf_at_drop [OF assms(1)])
qed

lemma cstr_stored:
  assumes "0 \<notin> set w" "0 \<notin> set v"
  shows "cstr_is (stored w str) v \<longleftrightarrow> w = v"
proof
  assume c: "cstr_is (stored w str) v"
  have v: "k < length v \<Longrightarrow> stored w str k = v ! k" for k
    using c by (metis cstr_is_def add_0 diff_zero length_upt nth_map nth_upt)
  have end_v: "stored w str (length v) = 0" using c by (simp add: cstr_is_def)
  have w: "k < length w \<Longrightarrow> stored w str k = w ! k" for k by (simp add: stored_def store_bytes_def)
  have end_w: "stored w str (length w) = 0" by (simp add: stored_def)
  have "\<not> length v < length w" using w end_v assms(1) by (metis nth_mem)
  moreover have "\<not> length w < length v" using v end_w assms(2) by (metis nth_mem)
  ultimately show "w = v" using v w by (metis linorder_neqE_nat nth_equalityI)
next
  assume "w = v"
  then show "cstr_is (stored w str) v"
    by (auto simp: cstr_is_def stored_def store_bytes_def intro: nth_equalityI)
qed

definition start_state :: "int \<Rightarrow> buffer \<Rightarrow> redis_command_t \<Rightarrow> resp_state" where
  "start_state n stale redis = \<lparr>rs_i = 0, rs_arr_len = n, rs_str = stale,
     rs_cmd = redis\<lparr>cmd_get := False, cmd_set := False, rd_key := (rd_key redis)(0 := 0), rd_value := (rd_value redis)(0 := 0),
       rd_response := (rd_response redis)(0 := 0)\<rparr>\<rparr>"

text \<open>A written command is read word by word: the loop folds \<open>resp_bulk_cmd\<close> over the words.\<close>

fun read_words :: "u8 list list \<Rightarrow> int \<Rightarrow> buffer \<Rightarrow> redis_command_t \<Rightarrow> redis_command_t" where
  "read_words [] n str redis = redis"
| "read_words (w # ws) n str redis =
     read_words ws (n - 1) (stored w str) (resp_bulk_cmd n (stored w str) (int (length w)) redis)"

lemma resp_loop_words:
  assumes "drop (rs_i s) buf = concat (map bulk ws)" "\<forall>w \<in> set ws. w \<noteq> [] \<and> length w < MAXSTRLEN"
    and "rs_i s + length (concat (map bulk ws)) = length buf"
  shows "\<exists>s'. resp_loop buf (length buf) s = Inr s' \<and> rs_cmd s' = read_words ws (rs_arr_len s) (rs_str s) (rs_cmd s)"
  using assms
proof (induction ws arbitrary: s)
  case Nil
  then show ?case by (simp add: resp_loop.simps)
next
  case (Cons w ws)
  let ?s = "s\<lparr>rs_i := rs_i s + length (bulk w), rs_str := stored w (rs_str s),
           rs_cmd := resp_bulk_cmd (rs_arr_len s) (stored w (rs_str s)) (int (length w)) (rs_cmd s), rs_arr_len := rs_arr_len s - 1\<rparr>"
  have "resp_step buf s = Inr ?s" using Cons.prems by (intro resp_step_bulk) auto
  moreover have "rs_i s < length buf" using Cons.prems(3) by (simp add: bulk_def)
  ultimately have "resp_loop buf (length buf) s = resp_loop buf (length buf) ?s" by (simp add: resp_loop.simps [of buf _ s])
  moreover have "drop (rs_i ?s) buf = concat (map bulk ws)"
    using arg_cong [OF Cons.prems(1), of "drop (length (bulk w))"] by (simp add: drop_drop ac_simps)
  then have "\<exists>s'. resp_loop buf (length buf) ?s = Inr s' \<and> rs_cmd s' = read_words ws (rs_arr_len ?s) (rs_str ?s) (rs_cmd ?s)"
    using Cons.prems by (intro Cons.IH) auto
  ultimately show ?case by simp
qed

lemma deserialize_command:
  assumes "\<forall>w \<in> set ws. w \<noteq> [] \<and> length w < MAXSTRLEN" "length ws + 48 < 2 ^ 31"
  shows "deserialize_redis_data (command ws) (length (command ws)) stale n redis =
           Inr (read_words ws (int (length ws)) stale (rs_cmd (start_state n stale redis)))"
proof -
  let ?s = "start_state n stale redis" and ?c = "command ws" and ?d = "length (decimal (length ws)) + 3"
  let ?t = "?s\<lparr>rs_i := ?d, rs_arr_len := int (length ws)\<rparr>"
  have "resp_step ?c ?s = Inr ?t"
    using resp_step_array [of ?s ?c "length ws" "concat (map bulk ws)"] assms(2) by (simp add: start_state_def command_def)
  then have "resp_loop ?c (length ?c) ?s = resp_loop ?c (length ?c) ?t"
    by (simp add: resp_loop.simps [of _ _ ?s]) (simp add: start_state_def command_def)
  moreover have "\<exists>s'. resp_loop ?c (length ?c) ?t = Inr s' \<and> rs_cmd s' = read_words ws (rs_arr_len ?t) (rs_str ?t) (rs_cmd ?t)"
    using assms(1) by (intro resp_loop_words) (auto simp: command_def numeral_3_eq_3)
  ultimately show ?thesis by (auto simp: deserialize_redis_data_def start_state_def)
qed

lemma memcpy_stored: "k \<le> length w \<Longrightarrow> memcpy_str dst (stored w str) (int (length w) + 1) k = (w @ [0]) ! k"
  by (auto simp: memcpy_str_def stored_def store_bytes_def nth_append)

lemma cstr_memcpy: "cstr_is (memcpy_str dst (stored w str) (int (length w) + 1)) w"
  by (auto simp: cstr_is_def memcpy_stored nth_append intro: nth_equalityI)

definition resp_word :: "u8 list \<Rightarrow> bool" where
  "resp_word w \<longleftrightarrow> w \<noteq> [] \<and> length w < MAXSTRLEN \<and> 0 \<notin> set w \<and> w \<noteq> REDIS_CMD_GET \<and> w \<noteq> REDIS_CMD_SET"

text \<open>
  C27: A \<open>GET\<close> or \<open>SET\<close> command, written as a Redis client writes it (an array of bulk strings), is
  read without an access out of bounds: exactly the flag of the command is set, and key and value with
  their lengths are those that were written.  Key and value are non-empty, shorter than the buffers,
  without zero bytes, and not themselves the words \<open>GET\<close> and \<open>SET\<close>.
\<close>

theorem resp_roundtrip:
  assumes "resp_word k" "resp_word v"
  shows "(\<exists>r. deserialize_redis_data (command [REDIS_CMD_GET, k]) (length (command [REDIS_CMD_GET, k])) stale n redis = Inr r
            \<and> cmd_get r \<and> \<not> cmd_set r \<and> cstr_is (rd_key r) k \<and> key_len r = int (length k) \<and> cstr_is (rd_value r) [])
       \<and> (\<exists>r. deserialize_redis_data (command [REDIS_CMD_SET, k, v]) (length (command [REDIS_CMD_SET, k, v])) stale n redis = Inr r
            \<and> cmd_set r \<and> \<not> cmd_get r \<and> cstr_is (rd_key r) k \<and> key_len r = int (length k)
            \<and> cstr_is (rd_value r) v \<and> val_len r = int (length v))"
  using assms
  by (auto simp: deserialize_command resp_word_def resp_bulk_cmd_def cstr_stored cstr_memcpy start_state_def)
    (simp_all add: cstr_is_def)

text \<open>The command \<open>GET k\<close> and \<open>SET k v\<close> with one-letter words.\<close>

theorem resp_roundtrip_witness:
  "resp_word [107] \<and> resp_word [118]
   \<and> (\<exists>r. deserialize_redis_data (command [REDIS_CMD_SET, [107], [118]]) (length (command [REDIS_CMD_SET, [107], [118]]))
         (\<lambda>_. 1) 0 \<lparr>cmd_get = True, cmd_set = True, key_len = 7, val_len = 7, rd_key = (\<lambda>_. 1), rd_value = (\<lambda>_. 1),
           rd_response = (\<lambda>_. 1), rd_error = (\<lambda>_. 1)\<rparr> = Inr r
        \<and> cmd_set r \<and> cstr_is (rd_key r) [107] \<and> cstr_is (rd_value r) [118])"
proof -
  have w: "resp_word [107]" "resp_word [118]" by (simp_all add: resp_word_def)
  then show ?thesis
    using resp_roundtrip [OF w, of "\<lambda>_. 1" 0 "\<lparr>cmd_get = True, cmd_set = True, key_len = 7, val_len = 7, rd_key = (\<lambda>_. 1),
      rd_value = (\<lambda>_. 1), rd_response = (\<lambda>_. 1), rd_error = (\<lambda>_. 1)\<rparr>"]
    by blast
qed

subsection \<open>Error replies\<close>

lemma copy_to_cr_drop:
  assumes "drop i buf = w @ CR # xs" "CR \<notin> set w" "j + length w \<le> MAXSTRLEN"
  shows "copy_to_cr buf i j str = Inr (i + length w, j + length w, store_bytes j w str)"
  using assms
proof (induction w arbitrary: i j str)
  case Nil
  then show ?case using drop_Cons_nth [of i buf CR xs] by (subst copy_to_cr.simps) (auto simp: store_bytes_def fun_eq_iff)
next
  case (Cons c w)
  have "store_bytes (Suc j) w (str(j := c)) = store_bytes j (c # w) str"
    by (auto simp: store_bytes_def fun_eq_iff nth_Cons' Suc_diff_le)
  then show ?case
    using Cons drop_Cons_nth [of i buf c "w @ CR # xs"] by (subst copy_to_cr.simps) (simp add: fun_upd_def)
qed

lemma extract_string_cr:
  assumes "drop i buf = w @ CR # LF # xs" "CR \<notin> set w" "length w < MAXSTRLEN"
  shows "extract_string buf i str 0 = Inr (length w, i + length w + 2, stored w str)"
proof -
  have k: "drop (i + length w) buf = CR # LF # xs" using arg_cong [OF assms(1), of "drop (length w)"] by (simp add: add.commute)
  then show ?thesis
    using assms copy_to_cr_drop [OF assms(1,2), of 0 str] skip_crlf_drop [OF k] by (simp add: extract_string_def stored_def)
qed

text \<open>
  An error reply is not read to its end: as the case for errors runs into the case for simple
  strings, the parser looks for a second line behind the message and reads out of bounds.
\<close>

theorem resp_error_overruns:
  assumes "CR \<notin> set e" "length e < MAXSTRLEN"
  shows "deserialize_redis_data (RESP_ERROR # e @ [CR, LF]) (length e + 3) stale n redis = Inl OutOfBounds"
proof -
  let ?b = "RESP_ERROR # e @ [CR, LF]" and ?s = "start_state n stale redis"
  have "extract_string ?b 1 stale 0 = Inr (length e, length e + 3, stored e stale)"
    using extract_string_cr [of 1 ?b e "[]" stale] assms by simp
  moreover have "extract_string ?b (4 + length e) str 0 = Inl OutOfBounds" for str
    by (simp add: extract_string_def copy_to_cr.simps [of _ "4 + length e"])
  ultimately have "resp_step ?b ?s = Inl OutOfBounds"
    by (simp add: resp_step_def start_state_def buf_at_def resp_error_def resp_simple_def)
  then show ?thesis by (simp add: deserialize_redis_data_def start_state_def resp_loop.simps)
qed

theorem resp_error_overruns_witness:
  "CR \<notin> set [69, 82, 82 :: u8] \<and> length [69, 82, 82 :: u8] < MAXSTRLEN
   \<and> deserialize_redis_data (RESP_ERROR # [69, 82, 82] @ [CR, LF]) (length [69, 82, 82 :: u8] + 3) (\<lambda>_. 0) 0
       \<lparr>cmd_get = False, cmd_set = False, key_len = 0, val_len = 0, rd_key = (\<lambda>_. 0), rd_value = (\<lambda>_. 0),
        rd_response = (\<lambda>_. 0), rd_error = (\<lambda>_. 0)\<rparr> = Inl OutOfBounds"
proof -
  have e: "CR \<notin> set [69, 82, 82 :: u8]" "length [69, 82, 82 :: u8] < MAXSTRLEN" by simp_all
  show ?thesis using e resp_error_overruns [OF e] by blast
qed

end
