(* ===== verification/AP4_System.thy ===== *)
theory AP4_System
  imports AP4_Control
begin

text \<open>
  The running system: the control thread interleaved, step by step, with the receive and transmit
  filters on the shared application contexts, and what holds in every reachable state.
\<close>

subsection \<open>The step relation\<close>

inductive sys_step ::
  "('h \<Rightarrow> ('a, 'h) app_ops) \<Rightarrow> cksum_fn \<Rightarrow> (u64 \<Rightarrow> u64) \<Rightarrow> (u64 \<Rightarrow> u64) \<Rightarrow> ('a, 'h) ctrl_state \<Rightarrow> ('a, 'h) ctrl_state \<Rightarrow> bool"
  for ops cksum to_us to_ms where
  control: "ctrl_step ops cksum to_us env s = Inr s' \<Longrightarrow> sys_step ops cksum to_us to_ms s s'"
| receive: "decap_packet ops now (cs_apps s) m = Inr (apps', m') \<Longrightarrow> sys_step ops cksum to_us to_ms s (s\<lparr>cs_apps := apps'\<rparr>)"
| transmit: "encap_packet ops to_ms now (cs_apps s) m = Inr (apps', m') \<Longrightarrow> sys_step ops cksum to_us to_ms s (s\<lparr>cs_apps := apps'\<rparr>)"

inductive_cases sys_stepE: "sys_step ops cksum to_us to_ms s s'"

inductive sys_reach ::
  "('h \<Rightarrow> ('a, 'h) app_ops) \<Rightarrow> cksum_fn \<Rightarrow> (u64 \<Rightarrow> u64) \<Rightarrow> (u64 \<Rightarrow> u64) \<Rightarrow> ('a, 'h) active_apps_t \<Rightarrow> ('a, 'h) ctrl_state \<Rightarrow> bool"
  for ops cksum to_us to_ms apps where
  start: "sys_reach ops cksum to_us to_ms apps (ctrl_init apps)"
| step: "sys_reach ops cksum to_us to_ms apps s \<Longrightarrow> sys_step ops cksum to_us to_ms s s' \<Longrightarrow> sys_reach ops cksum to_us to_ms apps s'"

subsection \<open>What the filters may do to a context under a snapshot\<close>

text \<open>During a snapshot only data and valid marks change, and marks are only ever set.\<close>

definition snap_mono :: "('a, 'h) activep4_context_t \<Rightarrow> ('a, 'h) activep4_context_t \<Rightarrow> bool" where
  "snap_mono c c' \<longleftrightarrow> status c' = status c \<and> valid_stages (allocation c') = valid_stages (allocation c)
     \<and> syncmap (allocation c') = syncmap (allocation c)
     \<and> (\<forall>i. mem_start (sync_data (allocation c') i) = mem_start (sync_data (allocation c) i)
          \<and> mem_end (sync_data (allocation c') i) = mem_end (sync_data (allocation c) i)
          \<and> (\<forall>j. ms_valid (sync_data (allocation c) i) j \<noteq> 0 \<longrightarrow> ms_valid (sync_data (allocation c') i) j \<noteq> 0))"

lemma snap_mono_refl [simp]: "snap_mono c c"
  by (simp add: snap_mono_def)

lemma decap_packet_cases:
  assumes "decap_packet ops now apps m = Inr (apps', m')"
  obtains "apps' = apps"
  | i c' flags seq offset m1 where "i < num_apps apps" "rx_dispatch ops now flags seq offset (apps_ctxt apps i) m1 = Inr (c', m')"
      "apps' = set_ctxt i c' apps"
proof (cases "apps' = apps")
  case False
  then obtain i c' flags seq offset m1 fid where "find_ctxt apps fid = Some i"
    "rx_dispatch ops now flags seq offset (apps_ctxt apps i) m1 = Inr (c', m')" "apps' = apps\<lparr>apps_ctxt := (apps_ctxt apps)(i := c')\<rparr>"
    using assms
    by (auto simp: decap_packet_def Let_def bind_result_Inr_iff split: if_splits option.splits)
  then show ?thesis
    using find_ctxt_some that(2) [of i flags seq offset m1 c'] by (auto simp: set_ctxt_def)
qed (use that in blast)

lemma rx_dispatch_snap_mono:
  assumes "rx_dispatch ops now flags seq offset c m = Inr (c', m')" "status c = SNAPSHOTTING"
  shows "snap_mono c c'"
  using assms
  by (auto simp: rx_dispatch_def bind_result_Inr_iff rx_snapshot_def Let_def snap_mono_def set_slot_def split: if_splits)

lemma decap_snap_mono:
  assumes "decap_packet ops now apps m = Inr (apps', m')" "status (apps_ctxt apps a) = SNAPSHOTTING"
  shows "snap_mono (apps_ctxt apps a) (apps_ctxt apps' a)"
  using assms(1)
proof (cases rule: decap_packet_cases)
  case (2 i c' flags seq offset m1)
  then show ?thesis using assms(2) rx_dispatch_snap_mono [OF 2(2)] by auto
qed simp

lemma encap_same_control:
  assumes "encap_packet ops to_ms now apps m = Inr (apps', m')"
  shows "same_control (apps_ctxt apps' i) (apps_ctxt apps i) \<and> num_apps apps' = num_apps apps"
proof (cases "load16 (mb_data m) 12 = htons RTE_ETHER_TYPE_IPV4")
  case False
  then show ?thesis using assms by (simp add: encap_packet_def same_control_def)
next
  case True
  obtain r apps1 where g: "get_app_context_from_packet (mb_data m) 14 apps = (r, apps1)" by force
  note same = get_app_context_same_control [OF g]
  have n: "num_apps apps1 = num_apps apps"
    using g by (auto simp: get_app_context_from_packet_def Let_def split: if_splits)
  show ?thesis
    using assms True g same [of i] n insert_same_control [of ops "apps_ctxt apps1 i" m]
    by (cases r) (auto simp: encap_packet_def Let_def bind_result_Inr_iff same_control_def split: if_splits)
qed

lemma same_control_snap_mono: "same_control c' c \<Longrightarrow> snap_mono c c'"
  by (simp add: same_control_def snap_mono_def)

subsection \<open>The invariant of the scanning loops\<close>

definition words_synced :: "('a, 'h) activep4_context_t \<Rightarrow> nat \<Rightarrow> nat \<Rightarrow> bool" where
  "words_synced c i n \<longleftrightarrow> (\<forall>j<n. unat (mem_start (sync_data (allocation c) i)) \<le> j \<longrightarrow> ms_valid (sync_data (allocation c) i) j \<noteq> 0)"

definition stages_synced :: "('a, 'h) activep4_context_t \<Rightarrow> nat \<Rightarrow> bool" where
  "stages_synced c n \<longleftrightarrow> (\<forall>i<n. scan_stage Snap c i \<longrightarrow> words_synced c i (Suc (unat (mem_end (sync_data (allocation c) i)))))"

fun scan_inv :: "scan_kind \<Rightarrow> ('a, 'h) activep4_context_t \<Rightarrow> bool \<Rightarrow> nat \<Rightarrow> nat option \<Rightarrow> bool" where
  "scan_inv Snap c f i w \<longleftrightarrow> status c = SNAPSHOTTING
     \<and> (\<not> f \<longrightarrow> stages_synced c i \<and> (case w of None \<Rightarrow> True | Some j \<Rightarrow> words_synced c i j))"
| "scan_inv Inval c f i w \<longleftrightarrow> status c = SNAPSHOTTING"
| "scan_inv Remap c f i w \<longleftrightarrow> status c \<in> {REMAPPING, UPDATING, SNAPSHOTTING}"

definition sys_inv :: "('a, 'h) ctrl_state \<Rightarrow> bool" where
  "sys_inv s \<longleftrightarrow> (\<forall>k a f i w. cs_pc s = Scan k a f i w \<longrightarrow> scan_inv k (apps_ctxt (cs_apps s) a) f i w)"

lemma snap_mono_synced:
  assumes "snap_mono c c'"
  shows "words_synced c i n \<Longrightarrow> words_synced c' i n" "stages_synced c n \<Longrightarrow> stages_synced c' n"
  using assms by (auto simp: snap_mono_def words_synced_def stages_synced_def)

lemma scan_inv_mono: "scan_inv Snap c f i w \<Longrightarrow> snap_mono c c' \<Longrightarrow> scan_inv Snap c' f i w"
  using snap_mono_synced [of c c'] by (auto simp: snap_mono_def split: option.splits)

lemma words_synced_Suc:
  "words_synced c i j \<Longrightarrow> ms_valid (sync_data (allocation c) i) j \<noteq> 0 \<Longrightarrow> words_synced c i (Suc j)"
  by (auto simp: words_synced_def less_Suc_eq)

lemma stages_synced_Suc:
  "stages_synced c i \<Longrightarrow> (scan_stage Snap c i \<Longrightarrow> words_synced c i (Suc (unat (mem_end (sync_data (allocation c) i)))))
     \<Longrightarrow> stages_synced c (Suc i)"
  by (auto simp: stages_synced_def less_Suc_eq)

lemma words_synced_le: "words_synced c i n \<Longrightarrow> m \<le> n \<Longrightarrow> words_synced c i m"
  by (auto simp: words_synced_def)

lemma scan_word_inv:
  assumes "scan_word cksum env k a f i j s = Inr s'" "scan_inv k (apps_ctxt (cs_apps s) a) f i (Some j)"
  shows "sys_inv s'"
proof -
  let ?c = "apps_ctxt (cs_apps s) a"
  note fr = scan_word_frame [OF assms(1)]
  show ?thesis
  proof (cases k)
    case Snap
    have over: "stages_synced ?c (Suc i)" if "unat (mem_end (sync_data (allocation ?c) i)) < j" "\<not> f"
      using assms(2) that Snap by (auto intro!: stages_synced_Suc elim: words_synced_le)
    have skip: "words_synced ?c i (Suc j)" if "scan_skip Snap ?c i j" "\<not> f"
      using assms(2) that Snap by (auto intro: words_synced_Suc)
    have pc: "cs_pc s' = Scan Snap a f (Suc i) None \<and> unat (mem_end (sync_data (allocation ?c) i)) < j
        \<or> cs_pc s' = Scan Snap a f i (Some (Suc j)) \<and> scan_skip Snap ?c i j \<or> (\<exists>i' w'. cs_pc s' = Scan Snap a True i' w')"
      using assms(1) Snap by (auto simp: scan_word_def Let_def bind_result_Inr_iff split: if_splits)
    have st: "status ?c = SNAPSHOTTING" and sy: "\<not> f \<longrightarrow> stages_synced ?c i" using assms(2) Snap by auto
    show ?thesis
      using pc over skip st sy fr unfolding sys_inv_def by fastforce
  qed (use fr assms(2) in \<open>auto simp: sys_inv_def\<close>)
qed

lemma end_of_pass_inv:
  assumes "end_of_pass ops env k a f s = Inr s'" "scan_inv k (apps_ctxt (cs_apps s) a) f i w"
  shows "sys_inv s'"
  using assms
  by (cases k) (auto simp: sys_inv_def leave_snapshot_def finish_snapshot_def consume_memory_objects_def Let_def
      bind_result_Inr_iff case_prod_beta stages_synced_def split: if_splits option.splits)

lemma scan_step_inv:
  assumes "scan_step ops cksum env k a f i w s = Inr s'" "scan_inv k (apps_ctxt (cs_apps s) a) f i w"
  shows "sys_inv s'"
proof (cases w)
  case (Some j)
  then show ?thesis using assms scan_word_inv by (auto simp: scan_step_def)
next
  case None
  show ?thesis
  proof (cases "20 \<le> i")
    case True
    then show ?thesis using assms None end_of_pass_inv by (auto simp: scan_step_def)
  next
    case False
    then show ?thesis
      using assms None
      by (cases k) (auto simp: scan_step_def sys_inv_def words_synced_def intro!: stages_synced_Suc split: if_splits)
  qed
qed

lemma poll_app_inv:
  assumes "poll_app ops cksum to_us env a s = Inr s'"
  shows "sys_inv s'"
  using assms
  by (cases "status (apps_ctxt (cs_apps s) a)")
    (auto simp: poll_app_def Let_def finish_poll_def start_remap_def reset_memory_region_def case_prod_beta bind_result_Inr_iff
      sys_inv_def stages_synced_def split: if_splits option.splits)

lemma ctrl_step_inv:
  assumes "ctrl_step ops cksum to_us env s = Inr s'" "sys_inv s"
  shows "sys_inv s'"
proof (cases "cs_pc s")
  case (Poll a)
  then show ?thesis
    using assms poll_app_inv [of ops cksum to_us env a s s'] by (auto simp: ctrl_step_def sys_inv_def split: if_splits)
next
  case (Scan k a f i w)
  then show ?thesis
    using assms scan_step_inv [of ops cksum env k a f i w s s'] by (auto simp: ctrl_step_def sys_inv_def)
qed (use assms in \<open>auto simp: ctrl_step_def sys_inv_def split: if_splits\<close>)

lemma rx_dispatch_remap_status:
  assumes "rx_dispatch ops now flags seq offset c m = Inr (c', m')" "status c \<in> {REMAPPING, UPDATING, SNAPSHOTTING}"
  shows "status c' \<in> {REMAPPING, UPDATING, SNAPSHOTTING}"
proof (cases "status c")
  case UPDATING
  then obtain d where "rx_write_ack (mb_data m) flags c = Inr d"
    "rx_deliver ops now flags offset (rx_remap_start flags seq d) m = Inr (c', m')"
    using assms(1) by (auto simp: rx_dispatch_def bind_result_Inr_iff)
  then show ?thesis
    using rx_deliver_status rx_remap_start_status [of flags seq d] rx_write_ack_status UPDATING by fastforce
qed (use assms in \<open>auto simp: rx_dispatch_def bind_result_Inr_iff dest!: rx_snapshot_status rx_write_ack_status\<close>)

lemma decap_scan_inv:
  assumes "decap_packet ops now apps m = Inr (apps', m')" "scan_inv k (apps_ctxt apps a) f i w"
  shows "scan_inv k (apps_ctxt apps' a) f i w"
proof (cases k)
  case Snap
  then show ?thesis
    using assms decap_snap_mono [OF assms(1), of a] scan_inv_mono by (metis scan_inv.simps(1))
next
  case Inval
  then show ?thesis
    using assms decap_snap_mono [OF assms(1), of a] by (auto simp: snap_mono_def)
next
  case Remap
  from assms(1) show ?thesis
  proof (cases rule: decap_packet_cases)
    case (2 b c' flags seq offset m1)
    then show ?thesis using assms(2) rx_dispatch_remap_status [OF 2(2)] Remap by (cases "b = a") auto
  qed (use assms(2) in simp)
qed

lemma encap_scan_inv:
  assumes "encap_packet ops to_ms now apps m = Inr (apps', m')" "scan_inv k (apps_ctxt apps a) f i w"
  shows "scan_inv k (apps_ctxt apps' a) f i w"
proof -
  have same: "same_control (apps_ctxt apps' a) (apps_ctxt apps a)" using encap_same_control [OF assms(1)] by blast
  show ?thesis
  proof (cases k)
    case Snap
    then show ?thesis using assms(2) scan_inv_mono same_control_snap_mono [OF same] by (simp only:)
  qed (use same assms(2) in \<open>auto simp: same_control_def\<close>)
qed

lemma sys_inv_step:
  assumes "sys_step ops cksum to_us to_ms s s'" "sys_inv s"
  shows "sys_inv s'"
  using assms(1)
proof (cases rule: sys_step.cases)
  case (control env)
  then show ?thesis using assms(2) ctrl_step_inv by blast
next
  case (receive now m apps' m')
  then show ?thesis using assms(2) decap_scan_inv [OF receive(2)] by (simp add: sys_inv_def)
next
  case (transmit now m apps' m')
  then show ?thesis using assms(2) encap_scan_inv [OF transmit(2)] by (simp add: sys_inv_def)
qed

lemma sys_inv_reach: "sys_reach ops cksum to_us to_ms apps s \<Longrightarrow> sys_inv s"
  by (induction rule: sys_reach.induct) (simp add: sys_inv_def ctrl_init_def, rule sys_inv_step)

subsection \<open>A finished snapshot is complete\<close>

lemma snapshot_exit:
  assumes "ctrl_step ops cksum to_us env s = Inr s'" "cs_pc s = Scan Snap a f i w" "\<forall>f' i' w'. cs_pc s' \<noteq> Scan Snap a f' i' w'"
  shows "\<not> f \<and> NUM_STAGES \<le> i \<and> w = None"
  using assms scan_word_frame [of cksum env Snap a f i _ s s']
  by (auto simp: ctrl_step_def scan_step_def split: option.splits if_splits)

text \<open>
  C1: in every interleaving of the control thread with the packet filters, the control thread
  leaves the snapshot loop of an application only when every word of every region that is to be
  synchronised has been received.
\<close>

theorem snapshot_complete:
  assumes "sys_reach ops cksum to_us to_ms apps s"
    and "ctrl_step ops cksum to_us env s = Inr s'"
    and "cs_pc s = Scan Snap a f i w" "\<forall>f' i' w'. cs_pc s' \<noteq> Scan Snap a f' i' w'"
    and "st < NUM_STAGES" "valid_stages (allocation (apps_ctxt (cs_apps s) a)) st \<noteq> 0"
    and "syncmap (allocation (apps_ctxt (cs_apps s) a)) st \<noteq> 0"
    and "unat (mem_start (sync_data (allocation (apps_ctxt (cs_apps s) a)) st)) \<le> j" "j \<le> unat (mem_end (sync_data (allocation (apps_ctxt (cs_apps s) a)) st))"
  shows "ms_valid (sync_data (allocation (apps_ctxt (cs_apps s) a)) st) j \<noteq> 0"
proof -
  have x: "\<not> f" "NUM_STAGES \<le> i" using snapshot_exit [OF assms(2-4)] by auto
  have "scan_inv Snap (apps_ctxt (cs_apps s) a) f i w"
    using sys_inv_reach [OF assms(1)] assms(3) by (simp add: sys_inv_def)
  then have "stages_synced (apps_ctxt (cs_apps s) a) i" using x by simp
  then show ?thesis
    using assms(5-9) x(2) by (auto simp: stages_synced_def words_synced_def)
qed

subsection \<open>The scanning loops finish\<close>

text \<open>\<open>sched n s P\<close>: whatever the environment answers, \<open>n\<close> steps of the thread end in \<open>P\<close>.\<close>

definition sched ::
  "('h \<Rightarrow> ('a, 'h) app_ops) \<Rightarrow> cksum_fn \<Rightarrow> (u64 \<Rightarrow> u64) \<Rightarrow> nat \<Rightarrow> ('a, 'h) ctrl_state \<Rightarrow> (('a, 'h) ctrl_state \<Rightarrow> bool) \<Rightarrow> bool" where
  "sched ops cksum to_us n s P \<longleftrightarrow>
     (\<forall>es. length es = n \<longrightarrow> (\<exists>t. ctrl_run ops cksum to_us es s = Inr t \<and> P t))"

lemma sched_0 [simp]: "sched ops cksum to_us 0 s P \<longleftrightarrow> P s"
  by (simp add: sched_def)

lemma sched_Suc:
  assumes "\<And>e. \<exists>t. ctrl_step ops cksum to_us e s = Inr t \<and> sched ops cksum to_us n t P"
  shows "sched ops cksum to_us (Suc n) s P"
  unfolding sched_def
proof (intro allI impI)
  fix es :: "ctrl_env list"
  assume "length es = Suc n"
  then obtain e es' where es: "es = e # es'" "length es' = n" by (auto simp: length_Suc_conv)
  then show "\<exists>t. ctrl_run ops cksum to_us es s = Inr t \<and> P t"
    using assms [of e] by (auto simp: sched_def)
qed

lemma sched_trans:
  assumes "sched ops cksum to_us m s P" "\<And>t. P t \<Longrightarrow> sched ops cksum to_us n t Q"
  shows "sched ops cksum to_us (m + n) s Q"
  unfolding sched_def
proof (intro allI impI)
  fix es :: "ctrl_env list"
  assume l: "length es = m + n"
  obtain t where t: "ctrl_run ops cksum to_us (take m es) s = Inr t" "P t"
    using assms(1) l by (force simp: sched_def)
  then obtain u where "ctrl_run ops cksum to_us (drop m es) t = Inr u" "Q u"
    using assms(2) l by (force simp: sched_def)
  then show "\<exists>u. ctrl_run ops cksum to_us es s = Inr u \<and> Q u"
    using t ctrl_run_append [of ops cksum to_us "take m es" "drop m es" s] by simp
qed

lemma sched_mono: "sched ops cksum to_us n s P \<Longrightarrow> (\<And>t. P t \<Longrightarrow> Q t) \<Longrightarrow> sched ops cksum to_us n s Q"
  by (fastforce simp: sched_def)

definition iset_ok :: "('a, 'h) activep4_context_t \<Rightarrow> bool" where
  "iset_ok c \<longleftrightarrow> num_instr (instr_set c) \<le> MAXINSTRSET \<and> knows (instr_set c) sync_mnemonics"

lemma memset_total:
  assumes "s < NUM_STAGES" "num_instr iset \<le> MAXINSTRSET" "knows iset sync_mnemonics"
  shows "\<exists>cache'. construct_memset_program (int s) iset cache = Inr (Some s, cache')"
    "\<exists>cache'. construct_memsync_program (int s) iset cache = Inr (Some s, cache')"
proof -
  show "\<exists>cache'. construct_memset_program (int s) iset cache = Inr (Some s, cache')"
    using construct_memset_ok [where s = s and cache = cache, OF assms(1) _ assms(2,3)] assms(1)
    by (cases "proglen (cache s) = 0") (auto simp: construct_memset_program_def)
  show "\<exists>cache'. construct_memsync_program (int s) iset cache = Inr (Some s, cache')"
    using construct_memsync_ok [where s = s and cache = cache, OF assms(1) _ assms(2,3)] assms(1)
    by (cases "proglen (cache s) = 0") (auto simp: construct_memsync_program_def)
qed

lemma scan_send_ok:
  assumes "i < NUM_STAGES" "iset_ok (apps_ctxt (cs_apps s) a)"
  shows "\<exists>s'. scan_send cksum mac m k a i j s = Inr s'"
  using memset_total(1) [of i "instr_set (apps_ctxt (cs_apps s) a)" "cs_memset s"]
    memset_total(2) [of i "instr_set (apps_ctxt (cs_apps s) a)" "cs_memsync s"] assms
  by (cases k; cases mac)
    (auto simp: iset_ok_def construct_memremap_packet_def construct_snapshot_packet_def Let_def)

text \<open>The number of steps a pass takes depends on the regions only.\<close>

definition stage_steps :: "scan_kind \<Rightarrow> ('a, 'h) activep4_context_t \<Rightarrow> nat \<Rightarrow> nat" where
  "stage_steps k c i = (if scan_stage k c i
     then 2 + (Suc (unat (mem_end (sync_data (allocation c) i))) - unat (mem_start (sync_data (allocation c) i))) else 1)"

definition regions_fit :: "('a, 'h) activep4_context_t \<Rightarrow> bool" where
  "regions_fit c \<longleftrightarrow> (\<forall>i<NUM_STAGES. valid_stages (allocation c) i \<noteq> 0 \<longrightarrow> unat (mem_end (sync_data (allocation c) i)) < MAX_DATA)"

lemma scan_stage_fits: "regions_fit c \<Longrightarrow> scan_stage k c i \<Longrightarrow> i < NUM_STAGES \<Longrightarrow> unat (mem_end (sync_data (allocation c) i)) < MAX_DATA"
  by (cases k) (auto simp: regions_fit_def)

definition pass_at :: "scan_kind \<Rightarrow> nat \<Rightarrow> ('a, 'h) ctrl_state \<Rightarrow> nat \<Rightarrow> ('a, 'h) ctrl_state \<Rightarrow> bool" where
  "pass_at k a s i t \<longleftrightarrow> cs_apps t = cs_apps s \<and> (\<exists>f. cs_pc t = Scan k a f i None)"

lemma pass_at_upd [simp]: "pass_at k a (s\<lparr>cs_pc := p\<rparr>) i = pass_at k a s i"
  by (simp add: pass_at_def fun_eq_iff)

lemma pass_at_eq: "cs_apps t = cs_apps s \<Longrightarrow> pass_at k a t i = pass_at k a s i"
  by (simp add: pass_at_def fun_eq_iff)

lemma scan_words_finish:
  assumes "cs_pc s = Scan k a f i (Some j)" "i < NUM_STAGES" "iset_ok (apps_ctxt (cs_apps s) a)"
    and "unat (mem_end (sync_data (allocation (apps_ctxt (cs_apps s) a)) i)) < MAX_DATA"
  shows "sched ops cksum to_us (Suc (Suc (unat (mem_end (sync_data (allocation (apps_ctxt (cs_apps s) a)) i))) - j)) s (pass_at k a s (Suc i))"
  using assms
proof (induction "Suc (unat (mem_end (sync_data (allocation (apps_ctxt (cs_apps s) a)) i))) - j" arbitrary: s j f)
  case 0
  then show ?case
    by (auto intro!: sched_Suc simp: ctrl_step_def scan_step_def scan_word_def Let_def pass_at_def)
next
  case (Suc n)
  let ?e = "unat (mem_end (sync_data (allocation (apps_ctxt (cs_apps s) a)) i))"
  have j: "\<not> ?e < j" "\<not> MAX_DATA \<le> j" "Suc ?e - j = Suc n" "n = Suc ?e - Suc j" using Suc.hyps(2) Suc.prems(4) by auto
  have next_word: "sched ops cksum to_us (Suc n) t (pass_at k a s (Suc i))" if "cs_apps t = cs_apps s" "cs_pc t = Scan k a f' i (Some (Suc j))" for t f'
    using Suc.hyps(1) [of t "Suc j" f'] Suc.prems that j pass_at_eq [OF that(1), of k a "Suc i"] by auto
  have "\<exists>t. ctrl_step ops cksum to_us env s = Inr t \<and> sched ops cksum to_us (Suc n) t (pass_at k a s (Suc i))" for env
  proof (cases "scan_skip k (apps_ctxt (cs_apps s) a) i j")
    case True
    then show ?thesis
      using Suc.prems(1) j next_word [of _ f] by (simp add: ctrl_step_def scan_step_def scan_word_def)
  next
    case False
    show ?thesis
    proof (cases "env_mbuf env")
      case None
      with False show ?thesis
        using Suc.prems(1) j next_word [of _ True] by (simp add: ctrl_step_def scan_step_def scan_word_def Let_def)
    next
      case (Some m)
      obtain s' where "scan_send cksum (env_mac env) m k a i j s = Inr s'" using scan_send_ok Suc.prems(2,3) by blast
      with False Some show ?thesis
        using Suc.prems(1) j next_word [of _ True] scan_send_frame [of cksum "env_mac env" m k a i j s s']
        by (simp add: ctrl_step_def scan_step_def scan_word_def Let_def)
    qed
  qed
  then show ?case using sched_Suc j(3) by metis
qed

lemma scan_pass_finish:
  assumes "cs_pc s = Scan k a f i None" "i \<le> NUM_STAGES" "iset_ok (apps_ctxt (cs_apps s) a)" "regions_fit (apps_ctxt (cs_apps s) a)"
  shows "sched ops cksum to_us (sum_list (map (stage_steps k (apps_ctxt (cs_apps s) a)) [i..<NUM_STAGES])) s (pass_at k a s NUM_STAGES)"
  using assms(2,1,3,4)
proof (induction i arbitrary: s f rule: inc_induct)
  case base
  then show ?case by (auto simp: pass_at_def)
next
  case (step i)
  let ?c = "apps_ctxt (cs_apps s) a"
  have one: "sched ops cksum to_us (stage_steps k ?c i) s (pass_at k a s (Suc i))"
  proof (cases "scan_stage k ?c i")
    case True
    let ?s = "s\<lparr>cs_pc := Scan k a f i (Some (unat (mem_start (sync_data (allocation ?c) i))))\<rparr>"
    have w: "sched ops cksum to_us (Suc (Suc (unat (mem_end (sync_data (allocation ?c) i))) - unat (mem_start (sync_data (allocation ?c) i)))) ?s (pass_at k a s (Suc i))"
      using scan_words_finish [of ?s k a f i] step.hyps step.prems scan_stage_fits [OF step.prems(3) True] by simp
    show ?thesis
      using True step.prems(1) step.hyps w
      by (auto simp: stage_steps_def ctrl_step_def scan_step_def intro!: sched_Suc)
  next
    case False
    then show ?thesis
      using step.prems(1) step.hyps
      by (auto simp: stage_steps_def ctrl_step_def scan_step_def pass_at_def intro!: sched_Suc)
  qed
  have rest: "sched ops cksum to_us (sum_list (map (stage_steps k ?c) [Suc i..<NUM_STAGES])) t (pass_at k a s NUM_STAGES)"
    if pt: "pass_at k a s (Suc i) t" for t
  proof -
    obtain f' where t: "cs_apps t = cs_apps s" "cs_pc t = Scan k a f' (Suc i) None" using pt by (auto simp: pass_at_def)
    then show ?thesis using step.IH [of t f'] step.prems pass_at_eq [OF t(1), of k a 20] by simp
  qed
  have "[i..<20] = i # [Suc i..<20]" using step.hyps by (simp add: upt_rec)
  then show ?case using sched_trans [OF one rest] by simp
qed

lemma stage_steps_le: "regions_fit c \<Longrightarrow> i < NUM_STAGES \<Longrightarrow> stage_steps k c i \<le> MAX_DATA + 2"
  using scan_stage_fits [of c k i] by (cases "scan_stage k c i") (auto simp: stage_steps_def)

lemma sum_list_bounded: "(\<And>x. x \<in> set xs \<Longrightarrow> f x \<le> (b :: nat)) \<Longrightarrow> sum_list (map f xs) \<le> length xs * b"
  by (induction xs) (auto simp: add_mono)

lemma pass_steps_le: "regions_fit c \<Longrightarrow> sum_list (map (stage_steps k c) [i..<NUM_STAGES]) \<le> NUM_STAGES * (MAX_DATA + 2)"
  using sum_list_bounded [of "[i..<20]" "stage_steps k c" "94208 + 2"] stage_steps_le [of c _ k] by fastforce

text \<open>
  C16: a remapping or updating application is handed back to transmission after a bounded number of
  steps of the control thread, whatever the buffer pool, the clock and the port answer.  The thread
  makes a single pass over the regions: the marks for acknowledged writes in the write buffer are
  those it started with, so writes that were never sent or never acknowledged do not hold it back.
\<close>

theorem remap_terminates:
  fixes s :: "('a, 'h) ctrl_state"
  assumes "cs_pc s = Poll a" "a < num_apps (cs_apps s)" "is_active (apps_ctxt (cs_apps s) a)"
    and "status (apps_ctxt (cs_apps s) a) \<in> {REMAPPING, UPDATING}"
    and "iset_ok (apps_ctxt (cs_apps s) a)" "regions_fit (apps_ctxt (cs_apps s) a)"
  shows "\<exists>n \<le> NUM_STAGES * (MAX_DATA + 2) + 2. sched ops cksum to_us n s
    (\<lambda>t. cs_pc t = Poll (Suc a) \<and> status (apps_ctxt (cs_apps t) a) = TRANSMITTING
       \<and> membuf (apps_ctxt (cs_apps t) a) = updated_region (apps_ctxt (cs_apps s) a))"
proof -
  let ?c = "apps_ctxt (cs_apps s) a"
  let ?P = "\<lambda>t. cs_pc t = Poll (Suc a) \<and> status (apps_ctxt (cs_apps t) a) = TRANSMITTING
       \<and> membuf (apps_ctxt (cs_apps t) a) = updated_region ?c"
  obtain c' r where reset: "reset_memory_region ops (updated_region ?c) (?c\<lparr>membuf := updated_region ?c\<rparr>) = (c', r)" by force
  have c': "membuf c' = updated_region ?c" "allocation c' = allocation ?c" "instr_set c' = instr_set ?c"
    using reset by (auto simp: reset_memory_region_def split: option.splits prod.splits)
  have step: "ctrl_step ops cksum to_us e s = start_remap ops a s ?c" for e
    using assms(1-4) by (auto simp: ctrl_step_def poll_app_def Let_def)
  show ?thesis
  proof (cases r)
    case False
    have "sched ops cksum to_us (Suc 0) s ?P"
      by (rule sched_Suc) (simp add: step start_remap_def reset False c')
    then show ?thesis by (intro exI [of _ 1]) simp
  next
    case True
    let ?s = "s\<lparr>cs_apps := set_ctxt a c' (cs_apps s), cs_pc := Scan Remap a False 0 None\<rparr>"
    let ?n = "sum_list (map (stage_steps Remap c') [0..<20])"
    have fit: "regions_fit c'" "iset_ok c'" using assms(5,6) c' by (simp_all add: regions_fit_def iset_ok_def)
    then have pass: "sched ops cksum to_us ?n ?s (pass_at Remap a ?s 20)"
      using scan_pass_finish [of ?s Remap a False 0] by simp
    have "sched ops cksum to_us (Suc 0) t ?P" if "pass_at Remap a ?s 20 t" for t
      using that by (intro sched_Suc) (auto simp: pass_at_def ctrl_step_def scan_step_def c')
    then have "sched ops cksum to_us (?n + Suc 0) ?s ?P" using sched_trans [OF pass] by blast
    then have "sched ops cksum to_us (Suc (?n + Suc 0)) s ?P"
      by (intro sched_Suc) (simp add: step start_remap_def reset True)
    then show ?thesis
      using pass_steps_le [OF fit(1), of Remap 0] by (intro exI [of _ "Suc (?n + Suc 0)"]) simp
  qed
qed

subsection \<open>Snapshots end once every word has arrived\<close>

definition snapshot_arrived :: "('a, 'h) activep4_context_t \<Rightarrow> bool" where
  "snapshot_arrived c \<longleftrightarrow> (\<forall>i<NUM_STAGES. valid_stages (allocation c) i \<noteq> 0 \<and> syncmap (allocation c) i \<noteq> 0
     \<longrightarrow> words_synced c i (Suc (unat (mem_end (sync_data (allocation c) i)))))"

definition quiet_at :: "nat \<Rightarrow> bool \<Rightarrow> ('a, 'h) ctrl_state \<Rightarrow> nat \<Rightarrow> ('a, 'h) ctrl_state \<Rightarrow> bool" where
  "quiet_at a f s i t \<longleftrightarrow> t = s\<lparr>cs_pc := Scan Snap a f i None\<rparr>"

lemma quiet_words:
  assumes "cs_pc s = Scan Snap a f i (Some j)" "unat (mem_end (sync_data (allocation (apps_ctxt (cs_apps s) a)) i)) < MAX_DATA"
    and "words_synced (apps_ctxt (cs_apps s) a) i (Suc (unat (mem_end (sync_data (allocation (apps_ctxt (cs_apps s) a)) i))))"
    and "unat (mem_start (sync_data (allocation (apps_ctxt (cs_apps s) a)) i)) \<le> j"
  shows "sched ops cksum to_us (Suc (Suc (unat (mem_end (sync_data (allocation (apps_ctxt (cs_apps s) a)) i))) - j)) s (quiet_at a f s (Suc i))"
  using assms
proof (induction "Suc (unat (mem_end (sync_data (allocation (apps_ctxt (cs_apps s) a)) i))) - j" arbitrary: s j)
  case 0
  then show ?case
    by (auto intro!: sched_Suc simp: ctrl_step_def scan_step_def scan_word_def Let_def quiet_at_def)
next
  case (Suc n)
  let ?e = "unat (mem_end (sync_data (allocation (apps_ctxt (cs_apps s) a)) i))"
  have j: "\<not> ?e < j" "\<not> MAX_DATA \<le> j" "Suc ?e - j = Suc n" "n = Suc ?e - Suc j" using Suc.hyps(2) Suc.prems(2) by auto
  have skip: "ms_valid (sync_data (allocation (apps_ctxt (cs_apps s) a)) i) j \<noteq> 0"
    using Suc.prems(3,4) j by (auto simp: words_synced_def)
  let ?t = "s\<lparr>cs_pc := Scan Snap a f i (Some (Suc j))\<rparr>"
  have "sched ops cksum to_us (Suc n) ?t (quiet_at a f ?t (Suc i))"
    using Suc.hyps(1) [of ?t "Suc j"] Suc.prems j by simp
  then have "sched ops cksum to_us (Suc n) ?t (quiet_at a f s (Suc i))" by (simp add: quiet_at_def [abs_def])
  then show ?case
    using Suc.prems(1) j skip
    by (auto intro!: sched_Suc simp: ctrl_step_def scan_step_def scan_word_def Let_def simp del: diff_Suc_Suc)
qed

lemma quiet_pass:
  assumes "cs_pc s = Scan Snap a f i None" "i \<le> NUM_STAGES" "regions_fit (apps_ctxt (cs_apps s) a)" "snapshot_arrived (apps_ctxt (cs_apps s) a)"
  shows "sched ops cksum to_us (sum_list (map (stage_steps Snap (apps_ctxt (cs_apps s) a)) [i..<NUM_STAGES])) s (quiet_at a f s NUM_STAGES)"
  using assms(2,1,3,4)
proof (induction i arbitrary: s rule: inc_induct)
  case base
  then show ?case by (auto simp: quiet_at_def)
next
  case (step i)
  let ?c = "apps_ctxt (cs_apps s) a"
  let ?t = "s\<lparr>cs_pc := Scan Snap a f (Suc i) None\<rparr>"
  have one: "sched ops cksum to_us (stage_steps Snap ?c i) s (quiet_at a f s (Suc i))"
  proof (cases "scan_stage Snap ?c i")
    case True
    let ?s = "s\<lparr>cs_pc := Scan Snap a f i (Some (unat (mem_start (sync_data (allocation ?c) i))))\<rparr>"
    have "sched ops cksum to_us (Suc (Suc (unat (mem_end (sync_data (allocation ?c) i))) - unat (mem_start (sync_data (allocation ?c) i)))) ?s (quiet_at a f ?s (Suc i))"
      using quiet_words [of ?s a f i] step.hyps step.prems(3) True scan_stage_fits [OF step.prems(2) True]
      by (simp add: snapshot_arrived_def)
    then show ?thesis
      using True step.prems(1) step.hyps
      by (auto simp: stage_steps_def ctrl_step_def scan_step_def quiet_at_def [abs_def] intro!: sched_Suc)
  next
    case False
    then show ?thesis
      using step.prems(1) step.hyps
      by (auto simp: stage_steps_def ctrl_step_def scan_step_def quiet_at_def intro!: sched_Suc)
  qed
  have rest: "sched ops cksum to_us (sum_list (map (stage_steps Snap ?c) [Suc i..<NUM_STAGES])) t (quiet_at a f s NUM_STAGES)"
    if "quiet_at a f s (Suc i) t" for t
    using that step.IH [of ?t] step.prems by (simp add: quiet_at_def [abs_def])
  have "[i..<20] = i # [Suc i..<20]" using step.hyps by (simp add: upt_rec)
  then show ?case using sched_trans [OF one rest] by simp
qed

text \<open>
  C13: once every word of the regions under synchronisation has been received, the control thread
  reaches the end of a clean pass - the state in which it leaves the snapshot loop - within a
  bounded number of steps, sends no further packet and changes no context on the way.
\<close>

theorem snapshot_finishes:
  assumes "cs_pc s = Scan Snap a f i None" "i \<le> NUM_STAGES"
    and "regions_fit (apps_ctxt (cs_apps s) a)" "snapshot_arrived (apps_ctxt (cs_apps s) a)"
  shows "\<exists>n \<le> 2 * NUM_STAGES * (MAX_DATA + 2) + 1. sched ops cksum to_us n s
    (\<lambda>t. cs_pc t = Scan Snap a False NUM_STAGES None \<and> cs_apps t = cs_apps s \<and> cs_sent t = cs_sent s)"
proof -
  let ?c = "apps_ctxt (cs_apps s) a"
  let ?P = "\<lambda>t. cs_pc t = Scan Snap a False NUM_STAGES None \<and> cs_apps t = cs_apps s \<and> cs_sent t = cs_sent s"
  let ?n = "\<lambda>i. sum_list (map (stage_steps Snap ?c) [i..<20])"
  note first = quiet_pass [OF assms, of ops cksum to_us]
  show ?thesis
  proof (cases f)
    case False
    then show ?thesis
      using pass_steps_le [OF assms(3), of Snap i] sched_mono [OF first, of ?P]
      by (intro exI [of _ "?n i"]) (auto simp: quiet_at_def)
  next
    case True
    let ?t = "s\<lparr>cs_pc := Scan Snap a False 0 None\<rparr>"
    have "sched ops cksum to_us (?n 0) ?t (quiet_at a False ?t 20)" using quiet_pass [of ?t a False 0] assms by simp
    then have "sched ops cksum to_us (?n 0) ?t ?P" by (rule sched_mono) (simp add: quiet_at_def)
    then have "sched ops cksum to_us (Suc (?n 0)) t ?P" if "quiet_at a f s 20 t" for t
      using that True by (intro sched_Suc) (simp add: quiet_at_def ctrl_step_def scan_step_def)
    then have "sched ops cksum to_us (?n i + Suc (?n 0)) s ?P" using sched_trans [OF first] by blast
    then show ?thesis
      using pass_steps_le [OF assms(3), of Snap i] pass_steps_le [OF assms(3), of Snap 0]
      by (intro exI [of _ "?n i + Suc (?n 0)"]) simp
  qed
qed

subsection \<open>The control protocol\<close>

text \<open>
  The edges the control thread takes.  \<open>overwritten\<close> is a race: a remap notification that arrives
  while an update is being written moves the application to snapshotting, and the thread then
  declares it transmitting.
\<close>

inductive ctrl_edge :: "active_state \<Rightarrow> active_state \<Rightarrow> bool" where
  snap_realloc: "ctrl_edge SNAPSHOTTING REALLOCATING"
| snap_remap: "ctrl_edge SNAPSHOTTING REMAPPING"
| remap_done: "ctrl_edge REMAPPING TRANSMITTING"
| update_done: "ctrl_edge UPDATING TRANSMITTING"
| overwritten: "ctrl_edge SNAPSHOTTING TRANSMITTING"
| timer_update: "ctrl_edge TRANSMITTING UPDATING"
| timer_snapshot: "ctrl_edge TRANSMITTING SNAPSHOTTING"

definition protocol_edge :: "active_state \<Rightarrow> active_state \<Rightarrow> bool" where
  "protocol_edge s t \<longleftrightarrow> s = t \<or> rx_edge s t \<or> ctrl_edge s t"

lemma rx_edge_iff:
  "rx_edge s t \<longleftrightarrow> (s, t) \<in> {(INITIALIZING, ALLOCATING), (ALLOCATING, REMAPPING), (REALLOCATING, REMAPPING),
     (TRANSMITTING, SNAPSHOTTING), (UPDATING, SNAPSHOTTING)}"
  by (auto elim: rx_edge.cases intro: rx_edge.intros)

lemma ctrl_edge_iff:
  "ctrl_edge s t \<longleftrightarrow> (s, t) \<in> {(SNAPSHOTTING, REALLOCATING), (SNAPSHOTTING, REMAPPING), (REMAPPING, TRANSMITTING),
     (UPDATING, TRANSMITTING), (SNAPSHOTTING, TRANSMITTING), (TRANSMITTING, UPDATING), (TRANSMITTING, SNAPSHOTTING)}"
  by (auto elim: ctrl_edge.cases intro: ctrl_edge.intros)

text \<open>The steps of the control thread that do not depend on the application's timer.\<close>

lemma poll_app_edge_waiting:
  assumes "poll_app ops cksum to_us env a s = Inr s'" "status (apps_ctxt (cs_apps s) a) \<noteq> TRANSMITTING"
  shows "protocol_edge (status (apps_ctxt (cs_apps s) a)) (status (apps_ctxt (cs_apps s') a))"
  using assms
  by (cases "status (apps_ctxt (cs_apps s) a)")
    (auto simp: poll_app_def Let_def finish_poll_def start_remap_def case_prod_beta bind_result_Inr_iff
      poll_initializing_def poll_allocating_def poll_reallocating_def reset_memory_region_def protocol_edge_def ctrl_edge_iff
      split: if_splits option.splits)

lemma scan_step_edge:
  assumes "scan_step ops cksum env k a f i w s = Inr s'" "scan_inv k (apps_ctxt (cs_apps s) a) f i w"
  shows "protocol_edge (status (apps_ctxt (cs_apps s) a)) (status (apps_ctxt (cs_apps s') a))"
proof (cases w)
  case (Some j)
  then show ?thesis using assms scan_word_frame by (fastforce simp: scan_step_def protocol_edge_def)
next
  case None
  then show ?thesis
    using assms
    by (cases k) (auto simp: scan_step_def finish_snapshot_def leave_snapshot_def consume_memory_objects_def Let_def case_prod_beta
        bind_result_Inr_iff protocol_edge_def ctrl_edge_iff split: if_splits option.splits)
qed

text \<open>What an application promises the control plane.\<close>

locale active_application =
  fixes ops :: "'h \<Rightarrow> ('a, 'h) app_ops"
  assumes on_allocation_status: "on_allocation_keeps_status ops"
    and timer_status: "op_timer (ops h) = Some f \<Longrightarrow> f now c = Inr c' \<Longrightarrow>
      status c' = status c \<or> status c' = UPDATING \<or> status c' = SNAPSHOTTING"
begin

lemma poll_transmitting_status:
  assumes "poll_transmitting ops cksum to_us env now c = Inr (c', ms)"
  shows "status c' = status c \<or> status c' = UPDATING \<or> status c' = SNAPSHOTTING"
  using assms timer_status
  by (fastforce simp: poll_transmitting_def poll_heartbeat_def poll_timer_def bind_result_Inr_iff split: if_splits option.splits)

lemma poll_app_edge:
  assumes "poll_app ops cksum to_us env a s = Inr s'"
  shows "protocol_edge (status (apps_ctxt (cs_apps s) a)) (status (apps_ctxt (cs_apps s') a))"
proof (cases "status (apps_ctxt (cs_apps s) a)")
  case TRANSMITTING
  then show ?thesis
    using assms poll_transmitting_status
    by (fastforce simp: poll_app_def Let_def finish_poll_def bind_result_Inr_iff protocol_edge_def ctrl_edge_iff split: if_splits)
qed (use assms poll_app_edge_waiting [OF assms] in simp_all)

lemma ctrl_step_edge:
  assumes "ctrl_step ops cksum to_us env s = Inr s'" "sys_inv s"
  shows "protocol_edge (status (apps_ctxt (cs_apps s) b)) (status (apps_ctxt (cs_apps s') b))"
proof (cases "pc_app (cs_pc s) = Some b")
  case True
  then consider "cs_pc s = Poll b" | k f i w where "cs_pc s = Scan k b f i w" by (cases "cs_pc s") auto
  then show ?thesis
  proof cases
    case 1
    then show ?thesis
      using assms(1) poll_app_edge [of cksum to_us env b s s'] by (auto simp: ctrl_step_def protocol_edge_def split: if_splits)
  next
    case 2
    then show ?thesis
      using assms scan_step_edge [of ops cksum env k b f i w s s'] by (auto simp: ctrl_step_def sys_inv_def)
  qed
next
  case False
  then show ?thesis using ctrl_step_frame [OF assms(1)] by (auto simp: protocol_edge_def)
qed

lemma sys_step_edge:
  assumes "sys_step ops cksum to_us to_ms s s'" "sys_inv s"
  shows "protocol_edge (status (apps_ctxt (cs_apps s) b)) (status (apps_ctxt (cs_apps s') b))"
  using assms(1)
proof (cases rule: sys_step.cases)
  case (control env)
  then show ?thesis using ctrl_step_edge assms(2) by blast
next
  case (receive now m apps' m')
  from receive(2) show ?thesis
  proof (cases rule: decap_packet_cases)
    case 1
    then show ?thesis using receive(1) by (simp add: protocol_edge_def)
  next
    case (2 i c' flags seq offset m1)
    then show ?thesis
      using rx_dispatch_edge [OF 2(2) on_allocation_status] receive(1) by (auto simp: protocol_edge_def)
  qed
next
  case (transmit now m apps' m')
  then show ?thesis using encap_same_control [OF transmit(2), of b] by (auto simp: same_control_def protocol_edge_def)
qed

text \<open>Every application moves through the protocol, and an application that starts well stays well.\<close>

lemma reach_protocol:
  assumes "sys_reach ops cksum to_us to_ms apps s"
  shows "protocol_edge\<^sup>*\<^sup>* (status (apps_ctxt apps b)) (status (apps_ctxt (cs_apps s) b))"
  using assms
proof (induction rule: sys_reach.induct)
  case start
  then show ?case by (simp add: ctrl_init_def)
next
  case (step s s')
  then show ?case
    using sys_step_edge [OF step.hyps(2) sys_inv_reach [OF step.hyps(1)], of b] by (meson rtranclp.rtrancl_into_rtrancl)
qed

end

lemma protocol_closed:
  assumes "protocol_edge\<^sup>*\<^sup>* s t" "s = INITIALIZING"
  shows "t \<in> {INITIALIZING, ALLOCATING, REMAPPING, TRANSMITTING, UPDATING, SNAPSHOTTING, REALLOCATING}"
  using assms by (induction rule: rtranclp_induct) (auto simp: protocol_edge_def rx_edge_iff ctrl_edge_iff)

subsection \<open>Sending control packets\<close>

text \<open>
  Polling an application sends a control packet only for an active application, and only when
  the sending interval has passed since its last control packet; a heartbeat needs the longer
  heartbeat interval.  Requests restart the interval, and one poll sends at most two packets.
\<close>

theorem control_rate_limit:
  assumes "ctrl_step ops cksum to_us env s = Inr s'" "cs_pc s = Poll a" "cs_sent s' \<noteq> cs_sent s"
  shows "is_active (apps_ctxt (cs_apps s) a)
    \<and> CTRL_SEND_INTVL_US \<le> to_us (cs_now s - ctrl_ts_lastsent (apps_ctxt (cs_apps s) a))
    \<and> (\<exists>ms. cs_sent s' = cs_sent s @ ms \<and> length ms \<le> 2)
    \<and> (if status (apps_ctxt (cs_apps s) a) = TRANSMITTING
       then active_heartbeat_enabled (apps_ctxt (cs_apps s) a)
         \<and> CTRL_HEARTBEAT_ITVL \<le> to_us (cs_now s - ctrl_ts_lastsent (apps_ctxt (cs_apps s) a))
       else status (apps_ctxt (cs_apps s) a) \<in> {INITIALIZING, ALLOCATING, REALLOCATING}
         \<and> ctrl_ts_lastsent (apps_ctxt (cs_apps s') a) = cs_now s)"
proof -
  have a: "poll_app ops cksum to_us env a s = Inr s'" "a < num_apps (cs_apps s)"
    using assms by (auto simp: ctrl_step_def split: if_splits)
  have trans: "(100 :: u64) \<le> x" if "1000 \<le> x" for x :: u64
    using that by (rule order_trans [rotated]) simp
  show ?thesis
  proof (cases "status (apps_ctxt (cs_apps s) a)")
    case TRANSMITTING
    then show ?thesis
      using a assms(3)
      by (auto simp: poll_app_def Let_def finish_poll_def poll_transmitting_def poll_heartbeat_def bind_result_Inr_iff
          intro: trans split: if_splits option.splits)
  qed (use a assms(3) in \<open>auto simp: poll_app_def Let_def finish_poll_def start_remap_def case_prod_beta bind_result_Inr_iff
      poll_initializing_def poll_allocating_def poll_reallocating_def split: if_splits option.splits\<close>)
qed

text \<open>
  A step of the control thread changes the context of the application it is at and of no other,
  never adds or removes applications, and polling an inactive application changes nothing.
\<close>

theorem control_isolation:
  assumes "ctrl_step ops cksum to_us env s = Inr s'"
  shows "num_apps (cs_apps s') = num_apps (cs_apps s)
    \<and> (\<forall>b. pc_app (cs_pc s) \<noteq> Some b \<longrightarrow> apps_ctxt (cs_apps s') b = apps_ctxt (cs_apps s) b)
    \<and> (\<forall>a. cs_pc s = Poll a \<and> a < num_apps (cs_apps s) \<and> \<not> is_active (apps_ctxt (cs_apps s) a) \<longrightarrow> s' = s\<lparr>cs_pc := Poll (Suc a)\<rparr>)"
  using ctrl_step_frame [OF assms] assms by (auto simp: ctrl_step_def poll_app_def Let_def)

text \<open>
  The race behind \<open>overwritten\<close>: a remap notification received during the last steps of an update is
  lost, because the thread declares the application transmitting without looking at its state.
\<close>

lemma update_overwrites_snapshot:
  assumes "cs_pc s = Scan Remap a f NUM_STAGES None"
    and "decap_packet ops now (cs_apps s) m = Inr (apps', m')" "status (apps_ctxt apps' a) = SNAPSHOTTING"
  shows "\<exists>t. sys_step ops cksum to_us to_ms s (s\<lparr>cs_apps := apps'\<rparr>) \<and> sys_step ops cksum to_us to_ms (s\<lparr>cs_apps := apps'\<rparr>) t
    \<and> status (apps_ctxt (cs_apps t) a) = TRANSMITTING \<and> allocation (apps_ctxt (cs_apps t) a) = allocation (apps_ctxt apps' a)"
proof -
  let ?t = "s\<lparr>cs_apps := set_ctxt a ((apps_ctxt apps' a)\<lparr>status := TRANSMITTING\<rparr>) apps', cs_pc := Poll (Suc a)\<rparr>"
  have "ctrl_step ops cksum to_us env (s\<lparr>cs_apps := apps'\<rparr>) = Inr ?t" for env
    using assms(1) by (simp add: ctrl_step_def scan_step_def)
  then show ?thesis using sys_step.receive [OF assms(2)] sys_step.control by (intro exI [of _ ?t]) fastforce
qed

subsection \<open>Examples\<close>

text \<open>One application that synchronises one word of stage 4, already received.\<close>

definition demo_sync_ctxt :: "(unit, unit) activep4_context_t" where
  "demo_sync_ctxt = demo_ctxt\<lparr>allocation := demo_memory\<lparr>syncmap := valid_stages demo_memory,
     sync_data := (\<lambda>_. zero_stage\<lparr>ms_valid := (\<lambda>_. 1)\<rparr>)\<rparr>\<rparr>"

definition demo_sync_apps :: "(unit, unit) active_apps_t" where
  "demo_sync_apps = demo_apps\<lparr>apps_ctxt := (\<lambda>_. demo_sync_ctxt)\<rparr>"

definition demo_env :: ctrl_env where
  "demo_env = \<lparr>env_running = True, env_now = 1000, env_mbuf = Some demo_mbuf, env_mbuf2 = None, env_mac = Some [1, 2, 3, 4, 5, 6]\<rparr>"

lemma demo_sync_simps:
  "apps_ctxt demo_sync_apps a = demo_sync_ctxt" "num_apps demo_sync_apps = 1" "status demo_sync_ctxt = SNAPSHOTTING"
  "is_active demo_sync_ctxt" "regions_fit demo_sync_ctxt" "snapshot_arrived demo_sync_ctxt" "iset_ok demo_sync_ctxt"
  by (simp_all add: demo_sync_apps_def demo_apps_def demo_sync_ctxt_def demo_ctxt_def regions_fit_def snapshot_arrived_def
      words_synced_def iset_ok_def demo_ctxt_iset zero_stage_def)

lemma sys_reach_run:
  "sys_reach ops cksum to_us to_ms apps s \<Longrightarrow> ctrl_run ops cksum to_us es s = Inr t \<Longrightarrow> sys_reach ops cksum to_us to_ms apps t"
proof (induction es arbitrary: s)
  case (Cons e es)
  then show ?case
    using sys_reach.step [OF Cons.prems(1) sys_step.control] by (auto simp: bind_result_Inr_iff)
qed simp

text \<open>The control thread has begun the snapshot.\<close>

definition demo_scan :: "(unit, unit) ctrl_state" where
  "demo_scan = (ctrl_init demo_sync_apps)\<lparr>cs_now := 1000, cs_pc := Scan Snap 0 False 0 None,
     cs_apps := set_ctxt 0 (demo_sync_ctxt\<lparr>allocation := (allocation demo_sync_ctxt)\<lparr>sync_start_time := 1000\<rparr>\<rparr>) demo_sync_apps\<rparr>"

lemma demo_scan_run: "ctrl_run demo_ops (\<lambda>_ _. 0) id [demo_env, demo_env] (ctrl_init demo_sync_apps) = Inr demo_scan"
  by (simp add: ctrl_step_def ctrl_init_def demo_env_def demo_sync_simps poll_app_def Let_def demo_scan_def)

lemma demo_scan_simps:
  "regions_fit (apps_ctxt (cs_apps demo_scan) 0)" "snapshot_arrived (apps_ctxt (cs_apps demo_scan) 0)"
  "cs_pc demo_scan = Scan Snap 0 False 0 None"
  using demo_sync_simps(5,6)
  by (simp_all add: demo_scan_def regions_fit_def snapshot_arrived_def words_synced_def)

theorem snapshot_finishes_witness:
  "\<exists>n. sched demo_ops (\<lambda>_ _. 0) id n demo_scan (\<lambda>t. cs_pc t = Scan Snap 0 False 20 None \<and> cs_sent t = cs_sent demo_scan)"
proof -
  obtain n where "sched demo_ops (\<lambda>_ _. 0) id n demo_scan
      (\<lambda>t. cs_pc t = Scan Snap 0 False 20 None \<and> cs_apps t = cs_apps demo_scan \<and> cs_sent t = cs_sent demo_scan)"
    using snapshot_finishes [OF demo_scan_simps(3) _ demo_scan_simps(1,2), of demo_ops "\<lambda>_ _. 0" id] by auto
  then show ?thesis by (blast intro: sched_mono)
qed

theorem snapshot_complete_witness:
  "\<exists>s s'. sys_reach demo_ops (\<lambda>_ _. 0) id id demo_sync_apps s \<and> ctrl_step demo_ops (\<lambda>_ _. 0) id demo_env s = Inr s'
    \<and> cs_pc s = Scan Snap 0 False 20 None \<and> cs_pc s' = Poll 1
    \<and> ms_valid (sync_data (allocation (apps_ctxt (cs_apps s) 0)) 4) 0 \<noteq> 0"
proof -
  let ?s = "demo_scan\<lparr>cs_pc := Scan Snap 0 False 20 None\<rparr>"
  obtain n where "sched demo_ops (\<lambda>_ _. 0) id n demo_scan (quiet_at 0 False demo_scan 20)"
    using quiet_pass [OF demo_scan_simps(3) _ demo_scan_simps(1,2), of demo_ops "\<lambda>_ _. 0" id] by auto
  then have "ctrl_run demo_ops (\<lambda>_ _. 0) id (replicate n demo_env) demo_scan = Inr ?s"
    by (auto simp: sched_def quiet_at_def dest: spec [of _ "replicate n demo_env"])
  then have r: "sys_reach demo_ops (\<lambda>_ _. 0) id id demo_sync_apps ?s"
    using sys_reach_run [OF sys_reach_run [OF sys_reach.start demo_scan_run]] by blast
  obtain s' where s': "ctrl_step demo_ops (\<lambda>_ _. 0) id demo_env ?s = Inr s'" "cs_pc s' = Poll 1"
    by (simp add: ctrl_step_def scan_step_def finish_snapshot_def consume_memory_objects_def demo_ops_def leave_snapshot_def Let_def)
  have "ms_valid (sync_data (allocation (apps_ctxt (cs_apps ?s) 0)) 4) 0 \<noteq> 0"
    using s' by (intro snapshot_complete [OF r s'(1), where f = False and i = 20 and w = None])
      (simp_all add: demo_scan_def demo_sync_ctxt_def demo_memory_def zero_stage_def)
  with r s' show ?thesis by (intro exI [of _ ?s] exI [of _ s']) simp
qed

theorem remap_terminates_witness:
  "\<exists>n. sched demo_ops (\<lambda>_ _. 0) id n ((ctrl_init (set_ctxt 0 (demo_sync_ctxt\<lparr>status := REMAPPING\<rparr>) demo_sync_apps))\<lparr>cs_pc := Poll 0\<rparr>)
     (\<lambda>t. status (apps_ctxt (cs_apps t) 0) = TRANSMITTING)"
proof -
  let ?s = "(ctrl_init (set_ctxt 0 (demo_sync_ctxt\<lparr>status := REMAPPING\<rparr>) demo_sync_apps))\<lparr>cs_pc := Poll 0\<rparr>"
  have "iset_ok (apps_ctxt (cs_apps ?s) 0)" "regions_fit (apps_ctxt (cs_apps ?s) 0)"
    using demo_sync_simps(5,7) by (simp_all add: ctrl_init_def iset_ok_def regions_fit_def)
  then obtain n where "sched demo_ops (\<lambda>_ _. 0) id n ?s (\<lambda>t. cs_pc t = Poll (Suc 0) \<and> status (apps_ctxt (cs_apps t) 0) = TRANSMITTING
       \<and> membuf (apps_ctxt (cs_apps t) 0) = updated_region (apps_ctxt (cs_apps ?s) 0))"
    using remap_terminates [of ?s 0 demo_ops "\<lambda>_ _. 0" id] by (auto simp: ctrl_init_def demo_sync_simps)
  then show ?thesis by (blast intro: sched_mono)
qed

theorem control_isolation_witness:
  "\<exists>s'. ctrl_step demo_ops (\<lambda>_ _. 0) id demo_env ((ctrl_init demo_sync_apps)\<lparr>cs_pc := Poll 0\<rparr>) = Inr s'
    \<and> apps_ctxt (cs_apps s') 1 = demo_sync_ctxt"
proof -
  let ?s = "(ctrl_init demo_sync_apps)\<lparr>cs_pc := Poll 0\<rparr>"
  obtain s' where s': "ctrl_step demo_ops (\<lambda>_ _. 0) id demo_env ?s = Inr s'"
    by (simp add: ctrl_step_def ctrl_init_def demo_env_def demo_sync_simps poll_app_def Let_def)
  then have "apps_ctxt (cs_apps s') 1 = apps_ctxt (cs_apps ?s) 1" using control_isolation [OF s'] by simp
  with s' show ?thesis by (auto simp: ctrl_init_def demo_sync_simps)
qed

theorem control_rate_limit_witness:
  "\<exists>s'. ctrl_step demo_ops (\<lambda>_ _. 0) id demo_env
      ((ctrl_init (set_ctxt 0 (demo_sync_ctxt\<lparr>status := ALLOCATING\<rparr>) demo_sync_apps))\<lparr>cs_pc := Poll 0, cs_now := 1000\<rparr>) = Inr s'
    \<and> length (cs_sent s') = 1 \<and> ctrl_ts_lastsent (apps_ctxt (cs_apps s') 0) = 1000"
proof -
  let ?s = "(ctrl_init (set_ctxt 0 (demo_sync_ctxt\<lparr>status := ALLOCATING\<rparr>) demo_sync_apps))\<lparr>cs_pc := Poll 0, cs_now := 1000\<rparr>"
  have last: "ctrl_ts_lastsent demo_sync_ctxt = 0" by (simp add: demo_sync_ctxt_def demo_ctxt_def)
  obtain s' where s': "ctrl_step demo_ops (\<lambda>_ _. 0) id demo_env ?s = Inr s'" "length (cs_sent s') = 1"
    by (simp add: ctrl_step_def ctrl_init_def demo_env_def demo_sync_simps poll_app_def Let_def last finish_poll_def
        poll_allocating_def construct_getalloc_packet_def)
  then have "cs_sent s' \<noteq> cs_sent ?s" by (auto simp: ctrl_init_def)
  then have "ctrl_ts_lastsent (apps_ctxt (cs_apps s') 0) = cs_now ?s"
    using control_rate_limit [OF s'(1), of 0] by (simp add: ctrl_init_def)
  with s' show ?thesis by simp
qed

end
