(* ===== verification/AP4_App.thy ===== *)
theory AP4_App
  imports AP4_System
begin

text \<open>
  The second contract between the runtime and an application: a predicate on the application's
  identifier and private state (\<open>app_context\<close>) that every handler keeps, holds in every reachable
  state of the system.  The runtime itself never looks into that state and never changes the
  identifier or replaces the handlers.
\<close>

lemma update_current_program_app [simp]:
  "ctx_fid (update_current_program c f) = ctx_fid c" "handlers (update_current_program c f) = handlers c"
  "app_context (update_current_program c f) = app_context c"
  by (simp_all add: update_current_program_def)

locale application_invariant =
  fixes ops :: "'h \<Rightarrow> ('a, 'h) app_ops"
    and good :: "int \<Rightarrow> 'h \<Rightarrow> 'a \<Rightarrow> bool"
  assumes tx_mux: "good f h a \<Longrightarrow> op_tx_mux (ops h) b a p = (a', p') \<Longrightarrow> good f h a'"
    and tx_handler: "good f h a \<Longrightarrow> op_tx_handler (ops h) b pos d mem a = Inr (d', a') \<Longrightarrow> good f h a'"
    and rx_handler: "good f h a \<Longrightarrow> op_rx_handler (ops h) now ih args pkt b a = Inr (b', a') \<Longrightarrow> good f h a'"
    and consume: "good f h a \<Longrightarrow> op_memory_consume (ops h) = Some k \<Longrightarrow> k now mem a = Inr a' \<Longrightarrow> good f h a'"
    and reset: "good f h a \<Longrightarrow> op_memory_reset (ops h) = Some g \<Longrightarrow> g mem a = (a', r) \<Longrightarrow> good f h a'"
    and timer: "good (ctx_fid c) (handlers c) (app_context c) \<Longrightarrow> op_timer (ops (handlers c)) = Some t \<Longrightarrow> t now c = Inr c' \<Longrightarrow>
      good (ctx_fid c') (handlers c') (app_context c')"
    and on_allocation: "good (ctx_fid c) (handlers c) (app_context c) \<Longrightarrow> op_on_allocation (ops (handlers c)) = Some u \<Longrightarrow>
      good (ctx_fid (u c)) (handlers (u c)) (app_context (u c))"
begin

definition ctxt_good :: "('a, 'h) activep4_context_t \<Rightarrow> bool" where
  "ctxt_good c \<longleftrightarrow> good (ctx_fid c) (handlers c) (app_context c)"

lemma ctxt_good_cong: "ctx_fid c' = ctx_fid c \<Longrightarrow> handlers c' = handlers c \<Longrightarrow> app_context c' = app_context c \<Longrightarrow> ctxt_good c' = ctxt_good c"
  by (simp add: ctxt_good_def)

lemma ctxt_good_status: "ctxt_good (c\<lparr>status := st\<rparr>) = ctxt_good c"
  by (simp add: ctxt_good_def)

lemma poll_heartbeat_good: "poll_heartbeat cksum to_us env now c = Inr (c', ms) \<Longrightarrow> ctxt_good c' = ctxt_good c"
  by (auto simp: poll_heartbeat_def bind_result_Inr_iff ctxt_good_def split: if_splits option.splits)

lemma poll_timer_good: "poll_timer ops to_us env now c = Inr c' \<Longrightarrow> ctxt_good c \<Longrightarrow> ctxt_good c'"
  using timer [of c _ "env_now env"]
  by (auto simp: poll_timer_def bind_result_Inr_iff ctxt_good_def split: if_splits option.splits)

lemma poll_transmitting_good:
  "poll_transmitting ops cksum to_us env now c = Inr (c', ms) \<Longrightarrow> ctxt_good c \<Longrightarrow> ctxt_good c'"
  using poll_heartbeat_good poll_timer_good by (fastforce simp: poll_transmitting_def bind_result_Inr_iff)

lemma reset_good: "reset_memory_region ops mem c = (c', r) \<Longrightarrow> ctxt_good c \<Longrightarrow> ctxt_good c'"
  using reset [of "ctx_fid c" "handlers c" "app_context c" _ mem]
  by (auto simp: reset_memory_region_def ctxt_good_def split: option.splits prod.splits)

lemma poll_app_good:
  assumes "poll_app ops cksum to_us env a s = Inr s'" "ctxt_good (apps_ctxt (cs_apps s) a)"
  shows "ctxt_good (apps_ctxt (cs_apps s') a)"
proof (cases "status (apps_ctxt (cs_apps s) a)")
  case TRANSMITTING
  then show ?thesis
    using assms poll_transmitting_good
    by (fastforce simp: poll_app_def Let_def finish_poll_def bind_result_Inr_iff split: if_splits)
next
  case UPDATING
  then show ?thesis
    using assms reset_good
    by (fastforce simp: poll_app_def start_remap_def Let_def ctxt_good_def split: if_splits prod.splits)
next
  case REMAPPING
  then show ?thesis
    using assms reset_good
    by (fastforce simp: poll_app_def start_remap_def Let_def ctxt_good_def split: if_splits prod.splits)
qed (use assms in \<open>auto simp: poll_app_def Let_def finish_poll_def bind_result_Inr_iff poll_initializing_def poll_allocating_def
    poll_reallocating_def telemetry_allocation_start_def ctxt_good_def split: if_splits option.splits\<close>)

lemma finish_snapshot_good:
  assumes "finish_snapshot ops env a s = Inr s'" "ctxt_good (apps_ctxt (cs_apps s) a)"
  shows "ctxt_good (apps_ctxt (cs_apps s') a)"
  using assms consume
  by (fastforce simp: finish_snapshot_def consume_memory_objects_def leave_snapshot_def Let_def case_prod_beta bind_result_Inr_iff
      ctxt_good_def split: if_splits option.splits)

lemma scan_step_good:
  assumes "scan_step ops cksum env k a f i w s = Inr s'" "ctxt_good (apps_ctxt (cs_apps s) a)"
  shows "ctxt_good (apps_ctxt (cs_apps s') a)"
proof (cases w)
  case (Some j)
  then show ?thesis using assms scan_word_frame by (fastforce simp: scan_step_def)
next
  case None
  then show ?thesis
    using assms finish_snapshot_good
    by (cases k) (auto simp: scan_step_def leave_snapshot_def ctxt_good_def split: if_splits)
qed

lemma ctrl_step_good:
  assumes "ctrl_step ops cksum to_us env s = Inr s'" "\<forall>b. ctxt_good (apps_ctxt (cs_apps s) b)"
  shows "ctxt_good (apps_ctxt (cs_apps s') b)"
proof (cases "pc_app (cs_pc s) = Some b")
  case True
  then consider "cs_pc s = Poll b" | k f i w where "cs_pc s = Scan k b f i w" by (cases "cs_pc s") auto
  then show ?thesis
    using assms poll_app_good scan_step_good by cases (auto simp: ctrl_step_def split: if_splits)
next
  case False
  then show ?thesis using ctrl_step_frame [OF assms(1)] assms(2) by auto
qed

lemma on_allocation_good:
  "ctxt_good c \<Longrightarrow> h = handlers c \<Longrightarrow> ctxt_good (case op_on_allocation (ops h) of None \<Rightarrow> c | Some u \<Rightarrow> u c)"
  using on_allocation [of c] by (auto simp: ctxt_good_def split: option.splits)

lemma rx_allocated_good:
  assumes "rx_allocated ops now b flags seq c = Inr c'" "ctxt_good c"
  shows "ctxt_good c'"
proof -
  have "ctxt_good (update_current_program (c\<lparr>allocation := mem, telemetry := t\<rparr>) f\<lparr>telemetry := t', status := st\<rparr>)"
    for mem t f t' st
    using assms(2) by (simp add: ctxt_good_def)
  then show ?thesis
    using assms by (auto simp: rx_allocated_def Let_def bind_result_Inr_iff intro!: on_allocation_good split: if_splits)
qed

lemma rx_deliver_good:
  assumes "rx_deliver ops now flags offset c m = Inr (c', m')" "ctxt_good c"
  shows "ctxt_good c'"
  using assms rx_handler
  by (auto simp: rx_deliver_def Let_def bind_result_Inr_iff ctxt_good_def split: if_splits)

lemma rx_words_good:
  "rx_snapshot b flags c = Inr c' \<Longrightarrow> ctxt_good c' = ctxt_good c"
  "rx_write_ack b flags c = Inr c' \<Longrightarrow> ctxt_good c' = ctxt_good c"
  "ctxt_good (rx_remap_start flags seq c) = ctxt_good c"
  by (auto simp: rx_snapshot_def rx_write_ack_def rx_remap_start_def Let_def ctxt_good_def split: if_splits)

lemma rx_dispatch_good:
  assumes "rx_dispatch ops now flags seq offset c m = Inr (c', m')" "ctxt_good c"
  shows "ctxt_good c'"
  using assms rx_allocated_good rx_deliver_good rx_words_good
  by (cases "status c") (auto simp: rx_dispatch_def bind_result_Inr_iff ctxt_good_status split: if_splits)

lemma insert_headers_good:
  assumes "insert_active_program_headers ops c m = Inr (c', m')" "ctxt_good c"
  shows "ctxt_good c'"
proof -
  obtain app p where mux: "op_tx_mux (ops (handlers c)) (mb_data m) (app_context c) (current_pid c) = (app, p)" by force
  then have "good (ctx_fid c) (handlers c) app" using tx_mux assms(2) by (auto simp: ctxt_good_def)
  with tx_handler show ?thesis
    using assms(1) mux
    by (auto simp: insert_active_program_headers_def Let_def bind_result_Inr_iff ctxt_good_def split: if_splits)
qed

lemma get_app_context_good:
  "ctxt_good (apps_ctxt (snd (get_app_context_from_packet b pos apps)) j) = ctxt_good (apps_ctxt apps j)"
  by (auto simp: get_app_context_from_packet_def Let_def ctxt_good_def)

lemma encap_good:
  assumes "encap_packet ops to_ms now apps m = Inr (apps', m')" "\<forall>j. ctxt_good (apps_ctxt apps j)"
  shows "ctxt_good (apps_ctxt apps' j)"
proof -
  obtain r apps1 where g: "get_app_context_from_packet (mb_data m) sizeof_eth apps = (r, apps1)" by force
  then have good1: "\<forall>j. ctxt_good (apps_ctxt apps1 j)"
    using get_app_context_good [of "mb_data m" sizeof_eth apps] assms(2) by simp
  show ?thesis
    using assms g good1 insert_headers_good
    by (cases r) (auto simp: encap_packet_def Let_def bind_result_Inr_iff split: if_splits)
qed

lemma sys_step_good:
  assumes "sys_step ops cksum to_us to_ms s s'" "\<forall>b. ctxt_good (apps_ctxt (cs_apps s) b)"
  shows "ctxt_good (apps_ctxt (cs_apps s') b)"
  using assms(1)
proof (cases rule: sys_step.cases)
  case (control env)
  then show ?thesis using ctrl_step_good assms(2) by blast
next
  case (receive now m apps' m')
  from receive(2) show ?thesis
  proof (cases rule: decap_packet_cases)
    case 1
    then show ?thesis using receive(1) assms(2) by simp
  next
    case (2 i c' flags seq offset m1)
    then show ?thesis using rx_dispatch_good [OF 2(2)] receive(1) assms(2) by auto
  qed
next
  case (transmit now m apps' m')
  then show ?thesis using encap_good assms(2) by auto
qed

lemma reach_good:
  assumes "sys_reach ops cksum to_us to_ms apps s" "\<forall>b. good (ctx_fid (apps_ctxt apps b)) (handlers (apps_ctxt apps b)) (app_context (apps_ctxt apps b))"
  shows "good (ctx_fid (apps_ctxt (cs_apps s) b)) (handlers (apps_ctxt (cs_apps s) b)) (app_context (apps_ctxt (cs_apps s) b))"
proof -
  have "\<forall>b. ctxt_good (apps_ctxt (cs_apps s) b)"
    using assms
  proof (induction rule: sys_reach.induct)
    case start
    then show ?case by (simp add: ctrl_init_def ctxt_good_def)
  next
    case (step s s')
    then show ?case using sys_step_good by blast
  qed
  then show ?thesis by (simp add: ctxt_good_def)
qed

end

end
