(* ===== verification/AP4_Config.thy ===== *)
theory AP4_Config
  imports AP4_Isa
begin

text \<open>
  The configuration files of the shim (\<open>include/c/dpdk/utils.h\<close>, types in \<open>include/c/dpdk/types.h\<close>): a
  file of programs with one \<open>name,directory\<close> line each and a file of applications with one
  \<open>port,name,program,...\<close> line each.
\<close>

abbreviation (input) MAX_APPS :: nat where "MAX_APPS \<equiv> 1024"
abbreviation (input) MAX_PROGRAMS_APP :: nat where "MAX_PROGRAMS_APP \<equiv> 8"

subsection \<open>Configuration files\<close>

record active_program_path_t =
  program_path :: string
  program_name :: string

text \<open>\<open>app_functions\<close> holds pointers into \<open>active_programs\<close>, here their indices.\<close>

record active_application_t =
  aa_app_id :: int
  appname :: string
  app_functions :: "nat arr"
  num_functions :: nat

record active_config_t =
  cfg_num_apps :: nat
  cfg_num_programs :: nat
  active_apps :: "active_application_t arr"
  active_programs :: "active_program_path_t arr"

definition zero_config :: active_config_t where
  "zero_config = \<lparr>cfg_num_apps = 0, cfg_num_programs = 0,
     active_apps = (\<lambda>_. \<lparr>aa_app_id = 0, appname = [], app_functions = (\<lambda>_. 0), num_functions = 0\<rparr>),
     active_programs = (\<lambda>_. \<lparr>program_path = [], program_name = []\<rparr>)\<rparr>"

definition config_tokens :: "string \<Rightarrow> string list" where
  "config_tokens = strtok_first [CHR '',''] [CHR '','', CHR 0x0A]"

text \<open>One line of the program configuration, stored at index \<open>n\<close>.\<close>

definition program_line :: "nat \<Rightarrow> string list \<Rightarrow> active_config_t \<Rightarrow> active_config_t c_result" where
  "program_line n toks cfg =
     (case toks of
        [] \<Rightarrow> Inr cfg
      | nm # rest \<Rightarrow>
          if MAX_APPS \<le> n \<or> 50 \<le> length nm then Inl OutOfBounds
          else let p = (active_programs cfg n)\<lparr>program_name := nm\<rparr>;
                   p = (case rest of [] \<Rightarrow> p | path # _ \<Rightarrow> p\<lparr>program_path := path\<rparr>)
               in Inr (cfg\<lparr>active_programs := (active_programs cfg)(n := p)\<rparr>))"

fun program_lines :: "nat \<Rightarrow> string list \<Rightarrow> active_config_t \<Rightarrow> active_config_t c_result" where
  "program_lines n [] cfg = Inr (cfg\<lparr>cfg_num_programs := n\<rparr>)"
| "program_lines n (l # ls) cfg = bind_result (program_line n (config_tokens l) cfg) (program_lines (Suc n) ls)"

definition read_active_program_config :: "string option \<Rightarrow> active_config_t \<Rightarrow> active_config_t c_result" where
  "read_active_program_config file cfg =
     (case file of None \<Rightarrow> Inl AssertFail | Some content \<Rightarrow> program_lines 0 (fgets_all 1023 content) cfg)"

text \<open>The first program of the given name, if there is one.\<close>

definition program_index :: "active_config_t \<Rightarrow> string \<Rightarrow> nat option" where
  "program_index cfg nm = find (\<lambda>j. program_name (active_programs cfg j) = nm) [0..<cfg_num_programs cfg]"

fun assign_functions :: "active_config_t \<Rightarrow> string list \<Rightarrow> nat \<Rightarrow> nat arr \<Rightarrow> (nat arr \<times> nat) c_result" where
  "assign_functions cfg [] m fs = Inr (fs, m)"
| "assign_functions cfg (tok # toks) m fs =
     (case program_index cfg tok of
        None \<Rightarrow> assign_functions cfg toks m fs
      | Some j \<Rightarrow> if MAX_PROGRAMS_APP \<le> m then Inl OutOfBounds else assign_functions cfg toks (Suc m) (fs(m := j)))"

definition app_line :: "nat \<Rightarrow> string list \<Rightarrow> active_config_t \<Rightarrow> active_config_t c_result" where
  "app_line n toks cfg =
     (if MAX_APPS \<le> n \<or> (case toks of _ # nm # _ \<Rightarrow> 128 \<le> length nm | _ \<Rightarrow> False) then Inl OutOfBounds
      else let app = active_apps cfg n;
               app = (case toks of [] \<Rightarrow> app | t # _ \<Rightarrow> app\<lparr>aa_app_id := atoi t\<rparr>);
               app = (case toks of _ # nm # _ \<Rightarrow> app\<lparr>appname := nm\<rparr> | _ \<Rightarrow> app)
           in bind_result (assign_functions cfg (drop 2 toks) 0 (app_functions app))
                (\<lambda>(fs, m). Inr (cfg\<lparr>active_apps := (active_apps cfg)(n := app\<lparr>app_functions := fs, num_functions := m\<rparr>)\<rparr>)))"

fun app_lines :: "nat \<Rightarrow> string list \<Rightarrow> active_config_t \<Rightarrow> active_config_t c_result" where
  "app_lines n [] cfg = Inr (cfg\<lparr>cfg_num_apps := n\<rparr>)"
| "app_lines n (l # ls) cfg = bind_result (app_line n (config_tokens l) cfg) (app_lines (Suc n) ls)"

definition read_activep4_config :: "string option \<Rightarrow> active_config_t \<Rightarrow> active_config_t c_result" where
  "read_activep4_config file cfg =
     (case file of None \<Rightarrow> Inl AssertFail | Some content \<Rightarrow> app_lines 0 (fgets_all 1023 content) cfg)"

subsection \<open>Configuration files read back\<close>

fun csv_body :: "string list \<Rightarrow> string" where
  "csv_body [] = []"
| "csv_body [f] = f"
| "csv_body (f # g # fs) = f @ CHR '','' # csv_body (g # fs)"

definition csv_line :: "string list \<Rightarrow> string" where
  "csv_line fs = csv_body fs @ [CHR 0x0A]"

definition config_field :: "string \<Rightarrow> bool" where
  "config_field t \<longleftrightarrow> t \<noteq> [] \<and> CHR '','' \<notin> set t \<and> CHR 0x0A \<notin> set t"

text \<open>A line of a configuration file: at least two fields, short enough for one \<open>fgets\<close>.\<close>

definition config_fields :: "string list \<Rightarrow> bool" where
  "config_fields fs \<longleftrightarrow> 2 \<le> length fs \<and> (\<forall>f\<in>set fs. config_field f) \<and> length (csv_body fs) < 1023"

lemma strtok_csv_line:
  "\<forall>f\<in>set fs. config_field f \<Longrightarrow> strtok_all [CHR '','', CHR 0x0A] (csv_line fs) = fs"
proof (induction fs rule: csv_body.induct)
  case 1
  then show ?case by (simp add: csv_line_def strtok_all.simps)
next
  case (2 f)
  then show ?case
    using strtok_field [of f "[CHR '','', CHR 0x0A]" "CHR 0x0A" "[]"]
    by (auto simp: csv_line_def config_field_def strtok_all.simps [of _ "[]"])
next
  case (3 f g fs)
  then show ?case
    using strtok_field [of f "[CHR '','', CHR 0x0A]" "CHR '',''" "csv_line (g # fs)"]
    by (auto simp: csv_line_def config_field_def)
qed

lemma config_tokens_line:
  assumes "config_fields fs"
  shows "config_tokens (csv_line fs) = fs"
proof -
  obtain f g rest where fs: "fs = f # g # rest"
    using assms by (cases fs rule: csv_body.cases) (auto simp: config_fields_def)
  have f: "f \<noteq> []" "CHR '','' \<notin> set f" using assms fs by (auto simp: config_fields_def config_field_def)
  have line: "csv_line fs = f @ CHR '','' # csv_line (g # rest)" by (simp add: fs csv_line_def)
  have "dropWhile (\<lambda>c. c \<in> set [CHR '','']) (csv_line fs) = csv_line fs"
    using f line by (cases f) auto
  moreover have "takeWhile (\<lambda>c. c \<notin> set [CHR '','']) (csv_line fs) = f"
    "dropWhile (\<lambda>c. c \<notin> set [CHR '','']) (csv_line fs) = CHR '','' # csv_line (g # rest)"
    unfolding line using f(2) by (auto simp: takeWhile_append dropWhile_append intro!: takeWhile_eq_all_conv [THEN iffD2])
  ultimately show ?thesis
    using strtok_csv_line [of "g # rest"] assms fs f
    by (simp add: config_tokens_def strtok_first_def Let_def config_fields_def) (simp add: csv_line_def)
qed

lemma config_lines:
  assumes "\<forall>fs\<in>set fss. config_fields fs"
  shows "fgets_all 1023 (concat (map csv_line fss)) = map csv_line fss"
proof -
  have newline: "CHR 0x0A \<notin> set (csv_body fs)" if "\<forall>f\<in>set fs. config_field f" for fs
    using that by (induction fs rule: csv_body.induct) (auto simp: config_field_def)
  have lines: "map csv_line fss = map (\<lambda>b. b @ [CHR 0x0A]) (map csv_body fss)" by (simp add: csv_line_def)
  show ?thesis
    unfolding lines by (rule fgets_all_lines) (use assms newline in \<open>auto simp: config_fields_def\<close>)
qed

lemma program_lines_read:
  assumes "\<forall>p\<in>set ps. config_fields [fst p, snd p] \<and> length (fst p) < 50" "n + length ps \<le> MAX_APPS"
  shows "program_lines n (map (\<lambda>p. csv_line [fst p, snd p]) ps) cfg = Inr (cfg\<lparr>cfg_num_programs := n + length ps,
    active_programs := (\<lambda>i. if n \<le> i \<and> i < n + length ps then \<lparr>program_path = snd (ps ! (i - n)), program_name = fst (ps ! (i - n))\<rparr>
      else active_programs cfg i)\<rparr>)"
  using assms
proof (induction ps arbitrary: n cfg)
  case Nil
  then show ?case by (auto simp: fun_eq_iff intro!: active_config_t.equality)
next
  case (Cons p ps)
  let ?cfg = "cfg\<lparr>active_programs := (active_programs cfg)(n := \<lparr>program_path = snd p, program_name = fst p\<rparr>)\<rparr>"
  have "program_line n [fst p, snd p] cfg = Inr ?cfg"
    using Cons.prems by (cases "active_programs cfg n") (simp add: program_line_def)
  then have "program_lines n (map (\<lambda>p. csv_line [fst p, snd p]) (p # ps)) cfg = program_lines (Suc n) (map (\<lambda>p. csv_line [fst p, snd p]) ps) ?cfg"
    using Cons.prems by (simp add: config_tokens_line)
  also have "\<dots> = Inr (?cfg\<lparr>cfg_num_programs := Suc n + length ps,
    active_programs := (\<lambda>i. if Suc n \<le> i \<and> i < Suc n + length ps
      then \<lparr>program_path = snd (ps ! (i - Suc n)), program_name = fst (ps ! (i - Suc n))\<rparr> else active_programs ?cfg i)\<rparr>)"
    using Cons.prems by (intro Cons.IH) auto
  also have "(\<lambda>i. if Suc n \<le> i \<and> i < Suc n + length ps
      then \<lparr>program_path = snd (ps ! (i - Suc n)), program_name = fst (ps ! (i - Suc n))\<rparr> else active_programs ?cfg i)
    = (\<lambda>i. if n \<le> i \<and> i < n + length (p # ps) then \<lparr>program_path = snd ((p # ps) ! (i - n)), program_name = fst ((p # ps) ! (i - n))\<rparr>
      else active_programs cfg i)"
    by (auto simp: fun_eq_iff nth_Cons' Suc_diff_Suc)
  finally show ?case by simp
qed

lemma find_upt: "k < n \<Longrightarrow> P k \<Longrightarrow> (\<And>j. j < k \<Longrightarrow> \<not> P j) \<Longrightarrow> find P [0..<n] = Some k"
  by (auto simp: find_Some_iff intro!: exI [of _ k])

lemma program_index_unique:
  assumes "k < cfg_num_programs cfg" "program_name (active_programs cfg k) = f"
    "\<And>j. j < k \<Longrightarrow> program_name (active_programs cfg j) \<noteq> f"
  shows "program_index cfg f = Some k"
  unfolding program_index_def by (rule find_upt) (use assms in auto)

lemma assign_functions_read:
  assumes "\<forall>f\<in>set fs. program_index cfg f \<noteq> None" "m + length fs \<le> MAX_PROGRAMS_APP"
  shows "assign_functions cfg fs m gs =
    Inr (\<lambda>j. if m \<le> j \<and> j < m + length fs then the (program_index cfg (fs ! (j - m))) else gs j, m + length fs)"
  using assms
proof (induction fs arbitrary: m gs)
  case Nil
  then show ?case by (auto simp: fun_eq_iff)
next
  case (Cons f fs)
  then show ?case by (auto simp: fun_eq_iff nth_Cons' Suc_diff_Suc)
qed

lemma app_line_read:
  assumes "length nm < 128" "n < MAX_APPS" "\<forall>f\<in>set fs. program_index cfg f \<noteq> None" "length fs \<le> MAX_PROGRAMS_APP"
  shows "\<exists>app. app_line n (t # nm # fs) cfg = Inr (cfg\<lparr>active_apps := (active_apps cfg)(n := app)\<rparr>)
    \<and> aa_app_id app = atoi t \<and> appname app = nm \<and> num_functions app = length fs
    \<and> (\<forall>j<length fs. program_index cfg (fs ! j) = Some (app_functions app j))"
proof -
  let ?app = "(active_apps cfg n)\<lparr>aa_app_id := atoi t, appname := nm,
    app_functions := (\<lambda>j. if j < length fs then the (program_index cfg (fs ! j)) else app_functions (active_apps cfg n) j),
    num_functions := length fs\<rparr>"
  have "app_line n (t # nm # fs) cfg = Inr (cfg\<lparr>active_apps := (active_apps cfg)(n := ?app)\<rparr>)"
    using assms assign_functions_read [of fs cfg 0] by (simp add: app_line_def Let_def cong: if_cong)
  then show ?thesis using assms(3) by (intro exI [of _ ?app]) (auto simp: all_set_conv_all_nth)
qed

text \<open>What reading one application line gives.\<close>

definition app_read :: "active_config_t \<Rightarrow> string \<times> string \<times> string list \<Rightarrow> active_application_t \<Rightarrow> bool" where
  "app_read cfg a app \<longleftrightarrow> aa_app_id app = atoi (fst a) \<and> appname app = fst (snd a) \<and> num_functions app = length (snd (snd a))
     \<and> (\<forall>j<length (snd (snd a)). program_index cfg (snd (snd a) ! j) = Some (app_functions app j))"

definition app_fields :: "string \<times> string \<times> string list \<Rightarrow> string list" where
  "app_fields a = fst a # fst (snd a) # snd (snd a)"

definition app_valid :: "active_config_t \<Rightarrow> string \<times> string \<times> string list \<Rightarrow> bool" where
  "app_valid cfg a \<longleftrightarrow> config_fields (app_fields a) \<and> length (fst (snd a)) < 128 \<and> length (snd (snd a)) \<le> MAX_PROGRAMS_APP
     \<and> (\<forall>f\<in>set (snd (snd a)). program_index cfg f \<noteq> None)"

lemma app_lines_read:
  assumes "\<forall>a\<in>set as. app_valid cfg a" "n + length as \<le> MAX_APPS"
  shows "\<exists>cfg'. app_lines n (map (\<lambda>a. csv_line (app_fields a)) as) cfg = Inr cfg' \<and> cfg_num_apps cfg' = n + length as
    \<and> cfg_num_programs cfg' = cfg_num_programs cfg \<and> active_programs cfg' = active_programs cfg
    \<and> (\<forall>i<length as. app_read cfg (as ! i) (active_apps cfg' (n + i)))
    \<and> (\<forall>i<n. active_apps cfg' i = active_apps cfg i)"
  using assms
proof (induction as arbitrary: n cfg)
  case Nil
  then show ?case by simp
next
  case (Cons a as)
  obtain app where app: "app_line n (app_fields a) cfg = Inr (cfg\<lparr>active_apps := (active_apps cfg)(n := app)\<rparr>)" "app_read cfg a app"
    using app_line_read [of "fst (snd a)" n "snd (snd a)" cfg "fst a"] Cons.prems
    by (auto simp: app_valid_def app_read_def app_fields_def)
  let ?cfg = "cfg\<lparr>active_apps := (active_apps cfg)(n := app)\<rparr>"
  have pi: "program_index ?cfg = program_index cfg" by (simp add: program_index_def fun_eq_iff)
  then have "\<forall>a\<in>set as. app_valid ?cfg a" using Cons.prems by (simp add: app_valid_def)
  from Cons.IH [OF this, of "Suc n"] Cons.prems obtain cfg' where
    cfg': "app_lines (Suc n) (map (\<lambda>a. csv_line (app_fields a)) as) ?cfg = Inr cfg'" "cfg_num_apps cfg' = Suc n + length as"
      "cfg_num_programs cfg' = cfg_num_programs cfg" "active_programs cfg' = active_programs cfg"
      "\<forall>i<length as. app_read ?cfg (as ! i) (active_apps cfg' (Suc n + i))" "\<forall>i<Suc n. active_apps cfg' i = active_apps ?cfg i"
    by auto
  have "app_lines n (map (\<lambda>a. csv_line (app_fields a)) (a # as)) cfg = Inr cfg'"
    using app(1) cfg'(1) Cons.prems by (simp add: config_tokens_line app_valid_def)
  moreover have "app_read cfg ((a # as) ! i) (active_apps cfg' (n + i))" if "i < length (a # as)" for i
    using that cfg'(5) cfg'(6) [rule_format, of n] app(2) pi by (cases i) (auto simp: app_read_def)
  ultimately show ?case using cfg' by auto
qed

text \<open>
  A configuration written as one line per program and one line per application is read back
  field by field: every program with its directory, every application with its port, its name and
  its programs in order, each resolved to the program of that name.
\<close>

theorem config_roundtrip:
  assumes "\<forall>p\<in>set ps. config_fields [fst p, snd p] \<and> length (fst p) < 50" "length ps \<le> MAX_APPS" "distinct (map fst ps)"
    and "\<forall>a\<in>set as. config_fields (app_fields a) \<and> length (fst (snd a)) < 128 \<and> length (snd (snd a)) \<le> MAX_PROGRAMS_APP
      \<and> set (snd (snd a)) \<subseteq> fst ` set ps" "length as \<le> MAX_APPS"
  shows "\<exists>cfg0 cfg. read_active_program_config (Some (concat (map (\<lambda>p. csv_line [fst p, snd p]) ps))) zero_config = Inr cfg0
    \<and> read_activep4_config (Some (concat (map (\<lambda>a. csv_line (app_fields a)) as))) cfg0 = Inr cfg
    \<and> cfg_num_programs cfg = length ps \<and> cfg_num_apps cfg = length as
    \<and> (\<forall>i<length ps. active_programs cfg i = \<lparr>program_path = snd (ps ! i), program_name = fst (ps ! i)\<rparr>)
    \<and> (\<forall>i<length as. aa_app_id (active_apps cfg i) = atoi (fst (as ! i)) \<and> appname (active_apps cfg i) = fst (snd (as ! i))
        \<and> num_functions (active_apps cfg i) = length (snd (snd (as ! i)))
        \<and> (\<forall>j<length (snd (snd (as ! i))).
             app_functions (active_apps cfg i) j < length ps
             \<and> program_name (active_programs cfg (app_functions (active_apps cfg i) j)) = snd (snd (as ! i)) ! j))"
proof -
  let ?P = "map (\<lambda>p. [fst p, snd p]) ps" and ?A = "map app_fields as"
  define cfg0 where "cfg0 = zero_config\<lparr>cfg_num_programs := length ps,
    active_programs := (\<lambda>i. if i < length ps then \<lparr>program_path = snd (ps ! i), program_name = fst (ps ! i)\<rparr> else active_programs zero_config i)\<rparr>"
  have "fgets_all 1023 (concat (map csv_line ?P)) = map csv_line ?P" "fgets_all 1023 (concat (map csv_line ?A)) = map csv_line ?A"
    by (rule config_lines; use assms(1,4) in force)+
  then have lines: "fgets_all 1023 (concat (map (\<lambda>p. csv_line [fst p, snd p]) ps)) = map (\<lambda>p. csv_line [fst p, snd p]) ps"
    "fgets_all 1023 (concat (map (\<lambda>a. csv_line (app_fields a)) as)) = map (\<lambda>a. csv_line (app_fields a)) as"
    by (simp_all add: comp_def)
  have r0: "read_active_program_config (Some (concat (map (\<lambda>p. csv_line [fst p, snd p]) ps))) zero_config = Inr cfg0"
    using program_lines_read [OF assms(1), of 0 zero_config] assms(2) by (simp add: read_active_program_config_def lines cfg0_def cong: if_cong)
  have index: "program_index cfg0 (fst (ps ! k)) = Some k" if "k < length ps" for k
    using that assms(3) by (intro program_index_unique) (auto simp: cfg0_def distinct_conv_nth)
  have "program_index cfg0 f \<noteq> None" if f: "f \<in> fst ` set ps" for f
  proof -
    obtain k where "k < length ps" "f = fst (ps ! k)" using f by (auto simp: in_set_conv_nth)
    then show ?thesis using index [of k] by simp
  qed
  then have "\<forall>a\<in>set as. app_valid cfg0 a"
    unfolding app_valid_def using assms(4) by blast
  from app_lines_read [OF this, of 0] assms(5) obtain cfg where
    cfg: "app_lines 0 (map (\<lambda>a. csv_line (app_fields a)) as) cfg0 = Inr cfg" "cfg_num_apps cfg = length as"
      "cfg_num_programs cfg = length ps" "active_programs cfg = active_programs cfg0" "\<forall>i<length as. app_read cfg0 (as ! i) (active_apps cfg i)"
    by (auto simp: cfg0_def)
  have r: "read_activep4_config (Some (concat (map (\<lambda>a. csv_line (app_fields a)) as))) cfg0 = Inr cfg"
    using cfg(1) by (simp add: read_activep4_config_def lines)
  have ps: "active_programs cfg i = \<lparr>program_path = snd (ps ! i), program_name = fst (ps ! i)\<rparr>" if "i < length ps" for i
    using that cfg(4) by (simp add: cfg0_def)
  have funs: "app_functions (active_apps cfg i) j < length ps
      \<and> program_name (active_programs cfg (app_functions (active_apps cfg i) j)) = snd (snd (as ! i)) ! j"
    if "i < length as" "j < length (snd (snd (as ! i)))" for i j
  proof -
    have "program_index cfg0 (snd (snd (as ! i)) ! j) = Some (app_functions (active_apps cfg i) j)"
      using cfg(5) that by (simp add: app_read_def)
    then show ?thesis using cfg(4) by (auto simp: program_index_def find_Some_iff cfg0_def)
  qed
  show ?thesis
    by (rule exI [of _ cfg0], rule exI [of _ cfg]) (use r0 r ps cfg(2,3,5) funs in \<open>unfold app_read_def, blast\<close>)
qed

theorem config_roundtrip_witness:
  "\<exists>cfg0 cfg. read_active_program_config (Some (''get,/opt/kv'' @ [CHR 0x0A])) zero_config = Inr cfg0
    \<and> read_activep4_config (Some (''5678,cache,get'' @ [CHR 0x0A])) cfg0 = Inr cfg
    \<and> cfg_num_apps cfg = 1 \<and> appname (active_apps cfg 0) = ''cache'' \<and> aa_app_id (active_apps cfg 0) = 5678
    \<and> program_path (active_programs cfg (app_functions (active_apps cfg 0) 0)) = ''/opt/kv''"
  using config_roundtrip [of "[(''get'', ''/opt/kv'')]" "[(''5678'', ''cache'', [''get''])]"]
  by (auto simp: config_fields_def config_field_def csv_line_def app_fields_def atoi_def is_space_def is_digit_def)

end
