(* ===== verification/AP4_Region.thy ===== *)
theory AP4_Region
  imports AP4_System
begin

text \<open>
  What the applications share: copying the valid stages to the synchronisation map, and the
  arithmetic of addresses inside an allocated region.
\<close>

definition sync_valid_stages :: "memory_t \<Rightarrow> memory_t" where
  "sync_valid_stages mem = mem\<lparr>syncmap := (\<lambda>i. if i < NUM_STAGES then valid_stages mem i else syncmap mem i)\<rparr>"

definition load64 :: "buffer \<Rightarrow> nat \<Rightarrow> u64" where
  "load64 b i = ucast (load32 b i) OR push_bit 32 (ucast (load32 b (i + 4)))"

lemma mod_in_region:
  fixes lo v :: u32 and n :: nat
  assumes "0 < n" "unat lo + n \<le> MAX_DATA"
  shows "unat lo \<le> unat (lo + v mod of_nat n)" "unat (lo + v mod of_nat n) < unat lo + n"
proof -
  have sz: "unat (of_nat n :: u32) = n" using assms(2) by (simp add: unat_of_nat take_bit_nat_eq_self)
  have m: "unat (v mod of_nat n) < n" using assms(1) by (simp add: unat_mod sz)
  then have "unat (lo + v mod of_nat n) = unat lo + unat (v mod of_nat n)"
    using assms(2) unat_add_lem [of lo "v mod of_nat n"] by simp
  with m show "unat lo \<le> unat (lo + v mod of_nat n)" "unat (lo + v mod of_nat n) < unat lo + n"
    by simp_all
qed

lemma sint_small:
  fixes x :: u32
  assumes "unat x < 2 ^ 31"
  shows "sint x = int (unat x)"
proof -
  have u: "uint x = int (unat x)" by (rule uint_nat)
  show ?thesis unfolding sint_uint u using assms by (intro signed_take_bit_int_eq_self) (simp_all del: of_nat_unat)
qed

lemma unat_min: "unat (min x y) = min (unat x) (unat y)"
  by (simp add: min_def word_le_nat_alt)

lemma unat_region_size:
  fixes lo hi :: u32
  assumes "lo \<le> hi" "unat hi < MAX_DATA"
  shows "unat (hi - lo + 1) = unat hi - unat lo + 1"
proof -
  have "unat (hi - lo) = unat hi - unat lo" using assms(1) by (simp add: unat_sub)
  moreover from this have "unat (hi - lo) < 4294967295" using assms(2) by simp
  ultimately show ?thesis using unat_add_lem [of "hi - lo" 1] by simp
qed

lemma region_size:
  fixes lo hi :: u32
  assumes "lo \<le> hi" "unat hi < MAX_DATA"
  shows "sint (hi - lo + 1) = int (unat hi - unat lo + 1)"
  using sint_small [of "hi - lo + 1"] unat_region_size [OF assms] assms(2) by simp

end
