(* ===== verification/AP4_Cache.thy ===== *)
theory AP4_Cache
  imports AP4_Region "HOL-Library.Multiset"
begin

text \<open>
  The in-network cache application of the shim, \<open>shim/dpdk/apps/active_cache.h\<close>.

  Three pieces of other projects are parameters: \<open>crc\<close> is \<open>rte_hash_crc_8byte\<close> with initial value
  0, \<open>to_ms\<close> converts cycles to milliseconds, and \<open>uthash\<close> gives the three operations of the hash
  table library the handler uses.  \<open>HASH_FIND_INT\<close> and \<open>HASH_ADD_INT\<close> use the first four bytes of the
  64-bit key field, so the key they see is the low half.  A table is the list of its items in
  iteration order.
\<close>

abbreviation (input) MAX_SAMPLES_CACHE :: nat where "MAX_SAMPLES_CACHE \<equiv> 100000"
abbreviation (input) STATS_ITVL_MS_CACHE :: u64 where "STATS_ITVL_MS_CACHE \<equiv> 1"
abbreviation (input) HH_ITVL_MIN_US :: int where "HH_ITVL_MIN_US \<equiv> 100000"
abbreviation (input) HH_ITVL_MAX_US :: int where "HH_ITVL_MAX_US \<equiv> 10000000"
abbreviation (input) PAYLOAD_MINLENGTH :: int where "PAYLOAD_MINLENGTH \<equiv> 16"
abbreviation (input) MAX_CACHE_SIZE :: nat where "MAX_CACHE_SIZE \<equiv> 100000"

subsection \<open>Model\<close>

record cache_item_t =
  ci_vaddr :: u32
  ci_paddr :: u32
  ci_key :: u64
  ci_value :: u32
  ci_freq :: u32
  ci_collisions :: u32

record cache_stats_t =
  cst_ts :: u64
  rx_hits :: u32
  rx_total :: u32

record cache_context_t =
  cc_ts_ref :: u64
  cc_last_ts :: u64
  cc_rx_stats :: "cache_stats_t arr"
  cc_num_samples :: nat
  stage_id_key_0 :: nat
  stage_id_key_1 :: nat
  stage_id_value :: nat
  cc_memory_start :: u32
  cc_memory_size :: int
  requested_items :: "cache_item_t list"
  timer_reset_trigger :: u8

record uthash =
  hash_find :: "u32 \<Rightarrow> cache_item_t list \<Rightarrow> nat option"
  hash_add :: "cache_item_t \<Rightarrow> cache_item_t list \<Rightarrow> cache_item_t list"
  hash_sort :: "(cache_item_t \<Rightarrow> cache_item_t \<Rightarrow> int) \<Rightarrow> cache_item_t list \<Rightarrow> cache_item_t list"

definition zero_item :: cache_item_t where
  "zero_item = \<lparr>ci_vaddr = 0, ci_paddr = 0, ci_key = 0, ci_value = 0, ci_freq = 0, ci_collisions = 0\<rparr>"

definition zero_cache :: cache_context_t where
  "zero_cache = \<lparr>cc_ts_ref = 0, cc_last_ts = 0, cc_rx_stats = (\<lambda>_. \<lparr>cst_ts = 0, rx_hits = 0, rx_total = 0\<rparr>), cc_num_samples = 0,
     stage_id_key_0 = 0, stage_id_key_1 = 0, stage_id_value = 0, cc_memory_start = 0, cc_memory_size = 0,
     requested_items = [], timer_reset_trigger = 0\<rparr>"

definition key_hi :: "u64 \<Rightarrow> u32" where
  "key_hi key = ucast (drop_bit 32 key)"

definition key_lo :: "u64 \<Rightarrow> u32" where
  "key_lo key = ucast (key AND 0xFFFFFFFF)"

definition compare_elements_cache :: "cache_item_t \<Rightarrow> cache_item_t \<Rightarrow> int" where
  "compare_elements_cache a b = sint (ci_freq b - ci_freq a)"

definition tx_mux_cache :: "buffer \<Rightarrow> 'a \<Rightarrow> nat \<Rightarrow> 'a \<times> nat" where
  "tx_mux_cache b app p = (app, p)"

text \<open>The item of a key is found or created, then updated in place.\<close>

definition count_request :: "uthash \<Rightarrow> u64 \<Rightarrow> u32 \<Rightarrow> u32 \<Rightarrow> cache_item_t list \<Rightarrow> cache_item_t list" where
  "count_request ut key vaddr paddr items =
     (let items = (if hash_find ut (ucast key) items = None then hash_add ut (zero_item\<lparr>ci_key := key\<rparr>) items else items)
      in case hash_find ut (ucast key) items of
           None \<Rightarrow> items
         | Some k \<Rightarrow> items[k := (items ! k)\<lparr>ci_vaddr := vaddr, ci_paddr := paddr, ci_freq := ci_freq (items ! k) + 1\<rparr>])"

definition payload_parser_cache ::
  "uthash \<Rightarrow> (u64 \<Rightarrow> u32) \<Rightarrow> buffer \<Rightarrow> nat \<Rightarrow> activep4_data_t \<Rightarrow> memory_t \<Rightarrow> cache_context_t
     \<Rightarrow> (activep4_data_t \<times> cache_context_t) c_result" where
  "payload_parser_cache ut crc b pos ap4data alloc cache_ctxt =
     (if load8 b (pos + 9) \<noteq> IPPROTO_UDP then Inr (ap4data, cache_ctxt)
      else if cc_memory_size cache_ctxt < 2 then Inr (\<lambda>_. 0, cache_ctxt)
      else let key = load64 b (pos + 28);
               vaddr = crc key;
               paddr = cc_memory_start cache_ctxt + vaddr mod word_of_int (cc_memory_size cache_ctxt)
           in Inr ((\<lambda>_. 0)(ACTIVE_DEFAULT_ARG_MAR := htonl paddr, ACTIVE_DEFAULT_ARG_MBR := htonl (key_hi key),
                     ACTIVE_DEFAULT_ARG_MBR2 := htonl (key_lo key)),
                   cache_ctxt\<lparr>requested_items := count_request ut key vaddr paddr (requested_items cache_ctxt)\<rparr>))"

definition count_reply :: "(u64 \<Rightarrow> u64) \<Rightarrow> u64 \<Rightarrow> bool \<Rightarrow> cache_context_t \<Rightarrow> cache_context_t c_result" where
  "count_reply to_ms now hit cache_ctxt =
     (if MAX_SAMPLES_CACHE \<le> cc_num_samples cache_ctxt then Inl OutOfBounds
      else let n = cc_num_samples cache_ctxt;
               st = cc_rx_stats cache_ctxt n;
               st = (if hit then st\<lparr>rx_hits := rx_hits st + 1\<rparr> else st);
               st = st\<lparr>rx_total := rx_total st + 1\<rparr>
           in Inr (if STATS_ITVL_MS_CACHE \<le> to_ms (now - cc_last_ts cache_ctxt) \<and> n < MAX_SAMPLES_CACHE
                then cache_ctxt\<lparr>cc_last_ts := now, cc_num_samples := Suc n,
                       cc_rx_stats := (cc_rx_stats cache_ctxt)(n := st\<lparr>cst_ts := to_ms (now - cc_ts_ref cache_ctxt)\<rparr>)\<rparr>
                else cache_ctxt\<lparr>cc_rx_stats := (cc_rx_stats cache_ctxt)(n := st)\<rparr>))"

text \<open>The switch returned the request to its sender, so the handler turns the port numbers around.\<close>

definition active_rx_handler_cache ::
  "(u64 \<Rightarrow> u64) \<Rightarrow> u64 \<Rightarrow> activep4_ih \<Rightarrow> activep4_data_t option \<Rightarrow> inet_pkt_t \<Rightarrow> buffer \<Rightarrow> cache_context_t
     \<Rightarrow> (buffer \<times> cache_context_t) c_result" where
  "active_rx_handler_cache to_ms now ap4ih ap4args inet_pkt b cache_ctxt =
     (if payload_length inet_pkt < PAYLOAD_MINLENGTH then Inr (b, cache_ctxt)
      else case ap4args of
        None \<Rightarrow> Inr (b, cache_ctxt)
      | Some args \<Rightarrow>
          (case (hdr_udp inet_pkt, payload inet_pkt) of
             (Some udp, Some pl) \<Rightarrow>
               (let tmp = load16 b udp;
                    b = store16 (udp + 2) tmp (store16 udp (load16 b (udp + 2)) b);
                    hit = ntohl (args ACTIVE_DEFAULT_ARG_RESULT) \<noteq> 0;
                    b = (if hit then store16 (udp + 6) 0 (store32 (pl + 12) 1 b) else b)
                in bind_result (count_reply to_ms now hit cache_ctxt) (\<lambda>cache_ctxt. Inr (b, cache_ctxt)))
           | _ \<Rightarrow> Inl NullDeref))"

definition memory_consume_cache :: "u64 \<Rightarrow> memory_t \<Rightarrow> cache_context_t \<Rightarrow> cache_context_t c_result" where
  "memory_consume_cache now mem cache_ctxt = Inr cache_ctxt"

definition memory_invalidate_cache :: "memory_t \<Rightarrow> memory_t \<times> bool" where
  "memory_invalidate_cache mem =
     (sync_valid_stages (mem\<lparr>sync_data := (\<lambda>i. if i < NUM_STAGES
        then (sync_data mem i)\<lparr>ms_data := (\<lambda>j. if j < MAX_DATA then 0 else ms_data (sync_data mem i) j)\<rparr>
        else sync_data mem i)\<rparr>), True)"

text \<open>The first three valid stages, as far as there are three, become the stages of the cache.\<close>

definition assign_stages :: "nat list \<Rightarrow> cache_context_t \<Rightarrow> cache_context_t" where
  "assign_stages is c =
     c\<lparr>stage_id_key_0 := (if 0 < length is then is ! 0 else stage_id_key_0 c),
       stage_id_key_1 := (if 1 < length is then is ! 1 else stage_id_key_1 c),
       stage_id_value := (if 2 < length is then is ! 2 else stage_id_value c)\<rparr>"

definition memory_reset_cache :: "memory_t \<Rightarrow> cache_context_t \<Rightarrow> cache_context_t \<times> bool" where
  "memory_reset_cache mem cache_ctxt =
     (if timer_reset_trigger cache_ctxt = 1 then (cache_ctxt\<lparr>timer_reset_trigger := 0\<rparr>, True)
      else let c = assign_stages (filter (\<lambda>i. valid_stages mem i \<noteq> 0) [0..<NUM_STAGES]) cache_ctxt;
               s0 = sync_data mem (stage_id_key_0 c); s1 = sync_data mem (stage_id_key_1 c); sv = sync_data mem (stage_id_value c);
               lo = max (max (mem_start s0) (mem_start s1)) (mem_start sv);
               hi = min (min (mem_end s0) (mem_end s1)) (mem_end sv)
           in (c\<lparr>cc_memory_start := lo, cc_memory_size := sint (hi - lo + 1)\<rparr>, False))"

text \<open>
  Filling the write buffer from the requested items, most frequent first; an address is written
  once.  \<open>bloom\<close> has \<open>MAX_CACHE_SIZE\<close> entries and the stage arrays \<open>MAX_DATA\<close> words.
\<close>

definition store_item :: "cache_context_t \<Rightarrow> cache_item_t \<Rightarrow> memory_t \<Rightarrow> memory_t" where
  "store_item c item mem =
     (let p = unat (ci_paddr item);
          mem = set_slot (stage_id_key_0 c) (\<lambda>st. st\<lparr>ms_data := (ms_data st)(p := key_hi (ci_key item))\<rparr>) mem;
          mem = set_slot (stage_id_key_1 c) (\<lambda>st. st\<lparr>ms_data := (ms_data st)(p := key_lo (ci_key item))\<rparr>) mem
      in set_slot (stage_id_value c) (\<lambda>st. st\<lparr>ms_data := (ms_data st)(p := 1)\<rparr>) mem)"

fun store_items ::
  "cache_context_t \<Rightarrow> cache_item_t list \<Rightarrow> nat \<Rightarrow> nat set \<Rightarrow> memory_t \<Rightarrow> (nat \<times> memory_t) c_result" where
  "store_items c [] num_stored bloom mem = Inr (num_stored, mem)"
| "store_items c (item # items) num_stored bloom mem =
     (if cc_memory_size c \<le> int num_stored then Inr (num_stored, mem)
      else if MAX_CACHE_SIZE \<le> unat (ci_paddr item) then Inl OutOfBounds
      else if unat (ci_paddr item) \<in> bloom then store_items c items num_stored bloom mem
      else if ci_key item = 0 then Inl AssertFail
      else if MAX_DATA \<le> unat (ci_paddr item) then Inl OutOfBounds
      else store_items c items (Suc num_stored) (insert (unat (ci_paddr item)) bloom) (store_item c item mem))"

definition next_interval :: "int \<Rightarrow> int" where
  "next_interval t =
     (if t = 0 then HH_ITVL_MIN_US
      else if t < HH_ITVL_MAX_US then min (t * 2) HH_ITVL_MAX_US
      else t)"

definition timer_cache ::
  "uthash \<Rightarrow> cache_context_t \<Rightarrow> ('a, 'h) activep4_context_t \<Rightarrow> (cache_context_t \<times> ('a, 'h) activep4_context_t) c_result" where
  "timer_cache ut cache_ctxt ctxt =
     (let ctxt = ctxt\<lparr>timer_interval_us := next_interval (timer_interval_us ctxt)\<rparr>;
          items = hash_sort ut compare_elements_cache (requested_items cache_ctxt);
          cache_ctxt = cache_ctxt\<lparr>requested_items := items\<rparr> in
      bind_result (store_items cache_ctxt items 0 {} zero_memory)
        (\<lambda>(num_stored, mem).
          let ctxt = ctxt\<lparr>membuf := mem, allocation := sync_valid_stages (allocation ctxt)\<rparr>
          in Inr (if 0 < num_stored then (cache_ctxt\<lparr>timer_reset_trigger := 1\<rparr>, ctxt\<lparr>status := UPDATING\<rparr>)
                  else (cache_ctxt, ctxt))))"

definition on_allocation_cache :: "('a, 'h) activep4_context_t \<Rightarrow> ('a, 'h) activep4_context_t" where
  "on_allocation_cache ctxt = ctxt\<lparr>timer_interval_us := HH_ITVL_MIN_US\<rparr>"

subsection \<open>Keys and addresses\<close>

lemma key_halves: "push_bit 32 (ucast (key_hi key)) OR ucast (key_lo key) = key"
proof (rule bit_word_eqI)
  fix n
  assume "n < LENGTH(64)"
  moreover have "key AND 0xFFFFFFFF = take_bit 32 key" by (simp add: take_bit_eq_mask mask_eq_exp_minus_1)
  ultimately show "bit (push_bit 32 (ucast (key_hi key)) OR ucast (key_lo key) :: u64) n = bit key n"
    by (cases "n < 32") (auto simp: key_hi_def key_lo_def bit_simps not_less)
qed

text \<open>The three stages of the cache after a reset, and the region common to them.\<close>

definition cache_stages :: "memory_t \<Rightarrow> nat list" where
  "cache_stages mem = take 3 (filter (\<lambda>i. valid_stages mem i \<noteq> 0) [0..<NUM_STAGES])"

definition common_start :: "memory_t \<Rightarrow> u32" where
  "common_start mem = Max (set (map (\<lambda>i. mem_start (sync_data mem i)) (cache_stages mem)))"

definition common_end :: "memory_t \<Rightarrow> u32" where
  "common_end mem = Min (set (map (\<lambda>i. mem_end (sync_data mem i)) (cache_stages mem)))"

lemma reset_cache_region:
  assumes "memory_reset_cache mem c = (c', False)" "3 \<le> length (filter (\<lambda>i. valid_stages mem i \<noteq> 0) [0..<NUM_STAGES])"
  shows "cache_stages mem = [stage_id_key_0 c', stage_id_key_1 c', stage_id_value c']"
    "cc_memory_start c' = common_start mem" "cc_memory_size c' = sint (common_end mem - common_start mem + 1)"
    "requested_items c' = requested_items c"
proof -
  let ?f = "filter (\<lambda>i. valid_stages mem i \<noteq> 0) [0..<NUM_STAGES]"
  obtain x y z zs where f: "?f = x # y # z # zs"
    using assms(2) by (metis One_nat_def Suc_le_length_iff numeral_3_eq_3)
  have t: "timer_reset_trigger c \<noteq> 1" using assms(1) by (auto simp: memory_reset_cache_def)
  have c': "c' = (let c = assign_stages (x # y # z # zs) c;
      lo = max (max (mem_start (sync_data mem x)) (mem_start (sync_data mem y))) (mem_start (sync_data mem z));
      hi = min (min (mem_end (sync_data mem x)) (mem_end (sync_data mem y))) (mem_end (sync_data mem z))
      in c\<lparr>cc_memory_start := lo, cc_memory_size := sint (hi - lo + 1)\<rparr>)"
    using assms(1) t unfolding memory_reset_cache_def f by (simp add: Let_def assign_stages_def)
  have cs: "cache_stages mem = [x, y, z]" unfolding cache_stages_def f by (simp add: numeral_3_eq_3)
  show "cache_stages mem = [stage_id_key_0 c', stage_id_key_1 c', stage_id_value c']" "requested_items c' = requested_items c"
    by (simp_all add: cs c' Let_def assign_stages_def)
  have m: "common_start mem = max (max (mem_start (sync_data mem x)) (mem_start (sync_data mem y))) (mem_start (sync_data mem z))"
    "common_end mem = min (min (mem_end (sync_data mem x)) (mem_end (sync_data mem y))) (mem_end (sync_data mem z))"
    by (simp_all add: common_start_def common_end_def cs max.assoc min.assoc)
  show "cc_memory_start c' = common_start mem" "cc_memory_size c' = sint (common_end mem - common_start mem + 1)"
    by (simp_all only: m) (simp_all add: c' Let_def assign_stages_def)
qed

lemma common_bounds:
  assumes "i \<in> set (cache_stages mem)"
  shows "mem_start (sync_data mem i) \<le> common_start mem" "common_end mem \<le> mem_end (sync_data mem i)"
  using assms by (auto simp: common_start_def common_end_def)

text \<open>
  C20: after a new allocation with at least three stages whose regions overlap, every request the
  cache sends to the switch addresses a word that lies inside the allocated region of each of its
  three stages, and carries the request's key unchanged in its two key arguments.
\<close>

theorem cache_addresses_in_region:
  assumes "memory_reset_cache mem c = (c', False)"
    and "3 \<le> length (filter (\<lambda>i. valid_stages mem i \<noteq> 0) [0..<NUM_STAGES])"
    and "common_start mem < common_end mem" "unat (common_end mem) < MAX_DATA"
    and "load8 b (pos + 9) = IPPROTO_UDP"
  shows "\<exists>data c''. payload_parser_cache ut crc b pos d alloc c' = Inr (data, c'')
    \<and> (\<forall>i\<in>set (cache_stages mem). mem_start (sync_data mem i) \<le> ntohl (data ACTIVE_DEFAULT_ARG_MAR)
         \<and> ntohl (data ACTIVE_DEFAULT_ARG_MAR) \<le> mem_end (sync_data mem i))
    \<and> push_bit 32 (ucast (ntohl (data ACTIVE_DEFAULT_ARG_MBR))) OR ucast (ntohl (data ACTIVE_DEFAULT_ARG_MBR2)) = load64 b (pos + 28)"
proof -
  let ?lo = "common_start mem" and ?hi = "common_end mem"
  note R = reset_cache_region [OF assms(1,2)]
  have le: "unat ?lo < unat ?hi" using assms(3) by (simp add: word_less_nat_alt)
  let ?n = "unat ?hi - unat ?lo + 1"
  have sz: "cc_memory_size c' = int ?n"
    using region_size [of ?lo ?hi] assms(3,4) by (simp add: R(3))
  let ?p = "?lo + crc (load64 b (pos + 28)) mod of_nat ?n"
  have p: "unat ?lo \<le> unat ?p" "unat ?p \<le> unat ?hi"
    using mod_in_region [of ?n ?lo "crc (load64 b (pos + 28))"] le assms(4) by simp_all
  have "payload_parser_cache ut crc b pos d alloc c' = Inr ((\<lambda>_. 0)(0 := htonl ?p, 1 := htonl (key_hi (load64 b (pos + 28))),
      2 := htonl (key_lo (load64 b (pos + 28)))), c'\<lparr>requested_items := count_request ut (load64 b (pos + 28))
        (crc (load64 b (pos + 28))) ?p (requested_items c')\<rparr>)"
    using assms(5) le unfolding payload_parser_cache_def Let_def R(2) sz by (simp del: of_nat_add of_nat_Suc of_nat_diff)
  moreover have "mem_start (sync_data mem i) \<le> ?p \<and> ?p \<le> mem_end (sync_data mem i)" if "i \<in> set (cache_stages mem)" for i
    using common_bounds [OF that] p by (meson order_trans word_le_nat_alt)
  ultimately show ?thesis by (simp add: key_halves)
qed

subsection \<open>The write buffer the timer prepares\<close>

definition slots :: "cache_context_t \<Rightarrow> memory_t \<Rightarrow> nat \<Rightarrow> u32 \<times> u32 \<times> u32" where
  "slots c mem p = (ms_data (sync_data mem (stage_id_key_0 c)) p, ms_data (sync_data mem (stage_id_key_1 c)) p,
     ms_data (sync_data mem (stage_id_value c)) p)"

definition entry :: "cache_item_t \<Rightarrow> u32 \<times> u32 \<times> u32" where
  "entry item = (key_hi (ci_key item), key_lo (ci_key item), 1)"

definition region :: "cache_context_t \<Rightarrow> nat set" where
  "region c = {unat (cc_memory_start c) ..< unat (cc_memory_start c) + nat (cc_memory_size c)}"

definition cache_ctxt_ok :: "cache_context_t \<Rightarrow> bool" where
  "cache_ctxt_ok c \<longleftrightarrow> distinct [stage_id_key_0 c, stage_id_key_1 c, stage_id_value c]
     \<and> unat (cc_memory_start c) + nat (cc_memory_size c) \<le> MAX_DATA
     \<and> (\<forall>it\<in>set (requested_items c). ci_key it \<noteq> 0 \<and> unat (ci_paddr it) \<in> region c)"

lemma slots_simps [simp]:
  "slots c zero_memory p = (0, 0, 0)" "slots (c\<lparr>requested_items := items\<rparr>) mem p = slots c mem p"
  by (simp_all add: slots_def zero_memory_def zero_stage_def)

lemma slots_store_item:
  "distinct [stage_id_key_0 c, stage_id_key_1 c, stage_id_value c] \<Longrightarrow>
     slots c (store_item c it mem) p = (if p = unat (ci_paddr it) then entry it else slots c mem p)"
  by (auto simp: slots_def store_item_def entry_def set_slot_def Let_def)

lemma store_items_spec:
  assumes "distinct [stage_id_key_0 c, stage_id_key_1 c, stage_id_value c]"
    and "region c \<subseteq> {..<MAX_DATA}" "\<forall>it\<in>set items. ci_key it \<noteq> 0 \<and> unat (ci_paddr it) \<in> region c"
    and "bloom \<subseteq> region c" "card bloom = n"
  shows "\<exists>mem'. store_items c items n bloom mem = Inr (card (bloom \<union> (\<lambda>it. unat (ci_paddr it)) ` set items), mem')
    \<and> (\<forall>p. slots c mem' p = (if p \<in> bloom then slots c mem p
         else case find (\<lambda>it. unat (ci_paddr it) = p) items of None \<Rightarrow> slots c mem p | Some it \<Rightarrow> entry it))"
  using assms(3-5)
proof (induction items arbitrary: n bloom mem)
  case Nil
  then show ?case by simp
next
  case (Cons it items)
  have fin: "finite (region c)" "card (region c) = nat (cc_memory_size c)" by (simp_all add: region_def)
  let ?p = "unat (ci_paddr it)"
  have p: "?p \<in> region c" "?p < MAX_DATA" "ci_key it \<noteq> 0" using Cons.prems(1) assms(2) by auto
  show ?case
  proof (cases "cc_memory_size c \<le> int n")
    case True
    then have "card (region c) \<le> card bloom" using fin(2) Cons.prems(3) by simp
    then have full: "bloom = region c" using card_seteq [OF fin(1) Cons.prems(2)] by blast
    then have "bloom \<union> (\<lambda>it. unat (ci_paddr it)) ` set (it # items) = bloom" using Cons.prems(1) by auto
    moreover have "find (\<lambda>it. unat (ci_paddr it) = q) (it # items) = None" if "q \<notin> bloom" for q
      using that Cons.prems(1) full by (auto simp: find_None_iff)
    ultimately show ?thesis
      using True Cons.prems(3) by (intro exI [of _ mem]) (simp del: find.simps)
  next
    case False
    show ?thesis
    proof (cases "?p \<in> bloom")
      case True
      have eq: "bloom \<union> (\<lambda>it. unat (ci_paddr it)) ` set (it # items) = bloom \<union> (\<lambda>it. unat (ci_paddr it)) ` set items"
        using True by auto
      show ?thesis
        using Cons.IH [of bloom n mem] Cons.prems False p True unfolding eq by fastforce
    next
      case fresh: False
      have "card (insert ?p bloom) = Suc n"
        using fresh Cons.prems(2,3) fin(1) by (simp add: finite_subset)
      then obtain mem' where m: "store_items c items (Suc n) (insert ?p bloom) (store_item c it mem)
          = Inr (card (insert ?p bloom \<union> (\<lambda>it. unat (ci_paddr it)) ` set items), mem')"
        "\<forall>q. slots c mem' q = (if q \<in> insert ?p bloom then slots c (store_item c it mem) q
           else case find (\<lambda>it. unat (ci_paddr it) = q) items of None \<Rightarrow> slots c (store_item c it mem) q | Some it \<Rightarrow> entry it)"
        using Cons.IH [of "insert ?p bloom" "Suc n" "store_item c it mem"] Cons.prems p(1) by auto
      then show ?thesis
        using False fresh p slots_store_item [OF assms(1), of it mem]
        by (intro exI [of _ mem']) (auto split: option.splits)
    qed
  qed
qed

text \<open>
  The documented behaviour of \<open>HASH_SORT\<close>: with a comparison that is a total preorder on the items it
  permutes them into ascending order.
\<close>

definition consistent_cmp :: "('b \<Rightarrow> 'b \<Rightarrow> int) \<Rightarrow> 'b list \<Rightarrow> bool" where
  "consistent_cmp cmp xs \<longleftrightarrow> (\<forall>a\<in>set xs. \<forall>b\<in>set xs. cmp a b \<le> 0 \<or> cmp b a \<le> 0)
     \<and> (\<forall>a\<in>set xs. \<forall>b\<in>set xs. \<forall>c\<in>set xs. cmp a b \<le> 0 \<and> cmp b c \<le> 0 \<longrightarrow> cmp a c \<le> 0)"

definition uthash_sorts :: "uthash \<Rightarrow> bool" where
  "uthash_sorts ut \<longleftrightarrow> (\<forall>cmp xs. consistent_cmp cmp xs \<longrightarrow>
     mset (hash_sort ut cmp xs) = mset xs \<and> sorted_wrt (\<lambda>a b. cmp a b \<le> 0) (hash_sort ut cmp xs))"

lemma compare_elements_cache_eq:
  assumes "unat (ci_freq a) < 2 ^ 31" "unat (ci_freq b) < 2 ^ 31"
  shows "compare_elements_cache a b = int (unat (ci_freq b)) - int (unat (ci_freq a))"
proof -
  have "sint (ci_freq b - ci_freq a) = signed_take_bit 31 (sint (ci_freq b) - sint (ci_freq a))"
    by (simp add: sint_word_ariths)
  also have "\<dots> = int (unat (ci_freq b)) - int (unat (ci_freq a))"
    unfolding sint_small [OF assms(1)] sint_small [OF assms(2)] using assms
    by (intro signed_take_bit_int_eq_self) (simp_all del: of_nat_unat)
  finally show ?thesis by (simp add: compare_elements_cache_def)
qed

lemma first_in_sorted:
  assumes "sorted_wrt R xs" "find P xs = Some x" "y \<in> set xs" "P y"
  shows "x = y \<or> R x y"
  using assms by (induction xs) (auto split: if_splits)

text \<open>
  When a sorted permutation of the items has been stored with the first item of each address
  winning, each address holds the most frequent of its items and every other word is empty.
\<close>

lemma stored_best:
  assumes "mset items = mset r" "sorted_wrt (\<lambda>a b. compare_elements_cache a b \<le> 0) items"
    and "\<forall>it\<in>set r. unat (ci_freq it) < 2 ^ 31"
    and "\<forall>p. slots c mem p = (case find (\<lambda>it. addr it = p) items of None \<Rightarrow> (0, 0, 0) | Some it \<Rightarrow> entry it)"
  shows "p \<notin> addr ` set r \<Longrightarrow> slots c mem p = (0, 0, 0)"
    and "it \<in> set r \<Longrightarrow> \<exists>best\<in>set r. addr best = addr it \<and> slots c mem (addr it) = entry best
      \<and> (\<forall>it'\<in>set r. addr it' = addr it \<longrightarrow> ci_freq it' \<le> ci_freq best)"
proof -
  have items: "set items = set r" using assms(1) by (metis set_mset_mset)
  show "slots c mem p = (0, 0, 0)" if "p \<notin> addr ` set r"
  proof -
    have "find (\<lambda>it. addr it = p) items = None" using that items by (auto simp: find_None_iff)
    then show ?thesis using assms(4) by simp
  qed
  show "\<exists>best\<in>set r. addr best = addr it \<and> slots c mem (addr it) = entry best
      \<and> (\<forall>it'\<in>set r. addr it' = addr it \<longrightarrow> ci_freq it' \<le> ci_freq best)" if it: "it \<in> set r"
  proof -
    let ?P = "\<lambda>i. addr i = addr it"
    obtain best where b: "find ?P items = Some best" using it items by (cases "find ?P items") (auto simp: find_None_iff)
    then have best: "best \<in> set r" "addr best = addr it"
      using items by (auto simp: find_Some_iff)
    moreover have "ci_freq it' \<le> ci_freq best" if "it' \<in> set r" "addr it' = addr it" for it'
      using first_in_sorted [OF assms(2) b, of it'] that items assms(3) best(1)
      by (auto simp: compare_elements_cache_eq word_le_def)
    ultimately show ?thesis using assms(4) b by auto
  qed
qed

lemma sorted_requests:
  assumes "uthash_sorts ut" "\<forall>it\<in>set r. unat (ci_freq it) < 2 ^ 31"
  shows "mset (hash_sort ut compare_elements_cache r) = mset r"
    "sorted_wrt (\<lambda>a b. compare_elements_cache a b \<le> 0) (hash_sort ut compare_elements_cache r)"
proof -
  have "consistent_cmp compare_elements_cache r"
    using assms(2) by (auto simp: consistent_cmp_def compare_elements_cache_eq)
  then show "mset (hash_sort ut compare_elements_cache r) = mset r"
    "sorted_wrt (\<lambda>a b. compare_elements_cache a b \<le> 0) (hash_sort ut compare_elements_cache r)"
    using assms(1) by (auto simp: uthash_sorts_def)
qed


subsection \<open>Replies and invalidation\<close>

text \<open>
  A reply with arguments to a UDP request of at least 16 bytes is counted once, and as a hit
  exactly when the switch returned a value; the two port numbers are exchanged, a hit is flagged in
  the payload, and all other bytes of the packet stay as they are.
\<close>

theorem cache_reply_counted:
  assumes "PAYLOAD_MINLENGTH \<le> payload_length pkt" "hdr_udp pkt = Some u" "payload pkt = Some (u + 8)"
    and "cc_num_samples c < MAX_SAMPLES_CACHE"
  shows "\<exists>b' c'. active_rx_handler_cache to_ms now ih (Some args) pkt b c = Inr (b', c')
    \<and> rx_total (cc_rx_stats c' (cc_num_samples c)) = rx_total (cc_rx_stats c (cc_num_samples c)) + 1
    \<and> rx_hits (cc_rx_stats c' (cc_num_samples c)) = rx_hits (cc_rx_stats c (cc_num_samples c)) + (if args 3 = 0 then 0 else 1)
    \<and> cc_num_samples c' \<in> {cc_num_samples c, Suc (cc_num_samples c)}
    \<and> load16 b' u = load16 b (u + 2) \<and> load16 b' (u + 2) = load16 b u
    \<and> (args 3 \<noteq> 0 \<longrightarrow> load32 b' (u + 20) = 1 \<and> load16 b' (u + 6) = 0)
    \<and> (\<forall>k. \<not> (u \<le> k \<and> k < u + 4) \<and> \<not> (u + 6 \<le> k \<and> k < u + 8) \<and> \<not> (u + 20 \<le> k \<and> k < u + 24) \<longrightarrow> b' k = b k)"
proof -
  have z: "htonl x = 0 \<longleftrightarrow> x = 0" for x
    by (metis htonl_htonl htonl_def push_bit_of_0 drop_bit_of_0 take_bit_of_0 or.right_neutral)
  let ?b = "store16 (u + 2) (load16 b u) (store16 u (load16 b (u + 2)) b)"
  let ?b' = "if args 3 \<noteq> 0 then store16 (u + 6) 0 (store32 (u + 20) 1 ?b) else ?b"
  obtain c' where c': "count_reply to_ms now (args 3 \<noteq> 0) c = Inr c'"
    "rx_total (cc_rx_stats c' (cc_num_samples c)) = rx_total (cc_rx_stats c (cc_num_samples c)) + 1"
    "rx_hits (cc_rx_stats c' (cc_num_samples c)) = rx_hits (cc_rx_stats c (cc_num_samples c)) + (if args 3 = 0 then 0 else 1)"
    "cc_num_samples c' \<in> {cc_num_samples c, Suc (cc_num_samples c)}"
    using assms(4) by (simp add: count_reply_def Let_def)
  have "active_rx_handler_cache to_ms now ih (Some args) pkt b c = Inr (?b', c')"
    using assms(1-3) c'(1) by (simp add: active_rx_handler_cache_def Let_def z add.commute [of 20])
  moreover have "load16 ?b' u = load16 b (u + 2)" "load16 ?b' (u + 2) = load16 b u"
    "args 3 \<noteq> 0 \<longrightarrow> load32 ?b' (u + 20) = 1 \<and> load16 ?b' (u + 6) = 0"
    by (simp_all add: buffer_simps)
  moreover have "?b' k = b k" if "\<not> (u \<le> k \<and> k < u + 4)" "\<not> (u + 6 \<le> k \<and> k < u + 8)" "\<not> (u + 20 \<le> k \<and> k < u + 24)" for k
    using that by (auto simp: store16_def store32_def)
  ultimately show ?thesis using c'(2-4) by blast
qed

text \<open>
  Invalidation never reaches the switch.  When a snapshot of all valid stages is complete, the
  cache zeroes its image and asks for it to be written back, but leaves every word marked valid, so
  the invalidation loop of the control thread finds no word to send.
\<close>

theorem cache_invalidation_writes_nothing:
  assumes "snapshot_arrived ctxt" "\<forall>i<NUM_STAGES. valid_stages (allocation ctxt) i \<noteq> 0 \<longrightarrow> syncmap (allocation ctxt) i \<noteq> 0"
    and "memory_invalidate_cache (allocation ctxt) = (mem, again)"
    and "i < NUM_STAGES" "scan_stage Inval (ctxt\<lparr>allocation := mem\<rparr>) i"
    and "unat (mem_start (sync_data mem i)) \<le> j" "j \<le> unat (mem_end (sync_data mem i))"
  shows "again \<and> scan_skip Inval (ctxt\<lparr>allocation := mem\<rparr>) i j \<and> (j < MAX_DATA \<longrightarrow> ms_data (sync_data mem i) j = 0)"
proof -
  have mem: "again" "mem = fst (memory_invalidate_cache (allocation ctxt))" using assms(3) by (auto simp: memory_invalidate_cache_def)
  have "words_synced ctxt i (Suc (unat (mem_end (sync_data (allocation ctxt) i))))"
    using assms(1,2,4,5) mem(2) by (auto simp: snapshot_arrived_def memory_invalidate_cache_def sync_valid_stages_def)
  then show ?thesis
    using assms(4,6,7) mem by (auto simp: words_synced_def memory_invalidate_cache_def sync_valid_stages_def)
qed

subsection \<open>Examples\<close>

text \<open>An implementation of the table as a plain list, to instantiate the parameter.\<close>

fun insort_by :: "('b \<Rightarrow> 'b \<Rightarrow> int) \<Rightarrow> 'b \<Rightarrow> 'b list \<Rightarrow> 'b list" where
  "insort_by cmp x [] = [x]"
| "insort_by cmp x (y # ys) = (if cmp x y \<le> 0 then x # y # ys else y # insort_by cmp x ys)"

definition list_table :: uthash where
  "list_table = \<lparr>hash_find = (\<lambda>k xs. case filter (\<lambda>i. ucast (ci_key (xs ! i)) = k) [0..<length xs] of [] \<Rightarrow> None | i # _ \<Rightarrow> Some i),
     hash_add = (\<lambda>x xs. xs @ [x]), hash_sort = (\<lambda>cmp xs. foldr (insort_by cmp) xs [])\<rparr>"

lemma mset_insort_by [simp]: "mset (insort_by cmp x xs) = add_mset x (mset xs)"
  by (induction xs) auto

lemma set_insort_by [simp]: "set (insort_by cmp x xs) = insert x (set xs)"
  by (metis mset_insort_by set_mset_add_mset_insert set_mset_mset)

lemma consistent_cmp_subset: "consistent_cmp cmp xs \<Longrightarrow> set ys \<subseteq> set xs \<Longrightarrow> consistent_cmp cmp ys"
  unfolding consistent_cmp_def by (meson subsetD)

lemma sorted_insort_by:
  assumes "sorted_wrt (\<lambda>a b. cmp a b \<le> 0) xs" "consistent_cmp cmp (x # xs)"
  shows "sorted_wrt (\<lambda>a b. cmp a b \<le> 0) (insort_by cmp x xs)"
  using assms
proof (induction xs)
  case (Cons y ys)
  have "consistent_cmp cmp (x # ys)" using Cons.prems(2) by (rule consistent_cmp_subset) auto
  then have IH: "sorted_wrt (\<lambda>a b. cmp a b \<le> 0) (insort_by cmp x ys)" using Cons.IH Cons.prems(1) by simp
  have trans: "cmp x z \<le> 0" if "cmp x y \<le> 0" "z \<in> set ys" for z
  proof -
    have "x \<in> set (x # y # ys)" "y \<in> set (x # y # ys)" "z \<in> set (x # y # ys)" "cmp y z \<le> 0"
      using Cons.prems(1) that(2) by auto
    then show ?thesis using Cons.prems(2) that(1) unfolding consistent_cmp_def by blast
  qed
  have "cmp x y \<le> 0 \<or> cmp y x \<le> 0" using Cons.prems(2) by (simp add: consistent_cmp_def)
  with IH trans Cons.prems(1) show ?case by auto
qed simp

lemma list_table_sorts: "uthash_sorts list_table"
proof -
  have perm: "mset (foldr (insort_by cmp) xs []) = mset xs" for cmp and xs :: "cache_item_t list"
    by (induction xs) simp_all
  have "sorted_wrt (\<lambda>a b. cmp a b \<le> 0) (foldr (insort_by cmp) xs [])" if "consistent_cmp cmp xs"
    for cmp and xs :: "cache_item_t list"
    using that
  proof (induction xs)
    case (Cons x xs)
    have "set (foldr (insort_by cmp) xs []) = set xs" using perm [of cmp xs] by (metis set_mset_mset)
    then have "consistent_cmp cmp (x # foldr (insort_by cmp) xs [])" "consistent_cmp cmp xs"
      using consistent_cmp_subset [OF Cons.prems] by auto
    then show ?case using Cons.IH sorted_insort_by [of cmp _ x] by simp
  qed simp
  then show ?thesis using perm by (simp add: uthash_sorts_def list_table_def)
qed

text \<open>Three stages, of which the words 0 to 100 are allocated.\<close>

definition demo_cache_mem :: memory_t where
  "demo_cache_mem = zero_memory\<lparr>valid_stages := (\<lambda>i. if i \<in> {2, 5, 9} then 1 else 0), sync_data := (\<lambda>_. zero_stage\<lparr>mem_end := 100\<rparr>)\<rparr>"

lemma demo_cache_stages: "cache_stages demo_cache_mem = [2, 5, 9]"
  "length (filter (\<lambda>i. valid_stages demo_cache_mem i \<noteq> 0) [0..<NUM_STAGES]) = 3"
  by (simp_all add: cache_stages_def demo_cache_mem_def upt_rec)

lemma demo_common: "common_start demo_cache_mem = 0" "common_end demo_cache_mem = 100"
  unfolding common_start_def common_end_def demo_cache_stages by (simp_all add: demo_cache_mem_def zero_stage_def)

theorem cache_addresses_in_region_witness:
  "\<exists>data c''. payload_parser_cache list_table (\<lambda>k. ucast k) (\<lambda>i. if i = 9 then 17 else 255) 0 (\<lambda>_. 0) demo_cache_mem
      (fst (memory_reset_cache demo_cache_mem zero_cache)) = Inr (data, c'') \<and> ntohl (data 0) \<le> 100"
proof -
  let ?c' = "fst (memory_reset_cache demo_cache_mem zero_cache)"
  have r: "memory_reset_cache demo_cache_mem zero_cache = (?c', False)"
    by (simp add: memory_reset_cache_def zero_cache_def Let_def)
  have u: "load8 (\<lambda>i. if i = 9 then 17 else 255) (0 + 9) = IPPROTO_UDP" by (simp add: load8_def)
  have e: "mem_end (sync_data demo_cache_mem 2) = 100" by (simp add: demo_cache_mem_def)
  have h: "3 \<le> length (filter (\<lambda>i. valid_stages demo_cache_mem i \<noteq> 0) [0..<NUM_STAGES])"
    "common_start demo_cache_mem < common_end demo_cache_mem" "unat (common_end demo_cache_mem) < MAX_DATA"
    by (simp_all only: demo_cache_stages demo_common) simp_all
  then show ?thesis
    using cache_addresses_in_region [OF r h u, of list_table "\<lambda>k. ucast k" "\<lambda>_. 0" demo_cache_mem]
    unfolding demo_cache_stages by (auto simp: e)
qed

definition demo_cache :: cache_context_t where
  "demo_cache = zero_cache\<lparr>stage_id_key_0 := 2, stage_id_key_1 := 5, stage_id_value := 9, cc_memory_size := 100,
     requested_items := [zero_item\<lparr>ci_key := 7, ci_paddr := 3, ci_freq := 1\<rparr>, zero_item\<lparr>ci_key := 8, ci_paddr := 3, ci_freq := 5\<rparr>]\<rparr>"


theorem cache_reply_counted_witness:
  "\<exists>b' c'. active_rx_handler_cache id 0 (ih_at (\<lambda>_. 0)) (Some (\<lambda>_. 1))
      \<lparr>hdr_ipv4 = Some 14, hdr_udp = Some 34, hdr_tcp = None, payload = Some 42, payload_length = 16\<rparr> (\<lambda>_. 0) zero_cache = Inr (b', c')
    \<and> rx_hits (cc_rx_stats c' 0) = 1"
  using cache_reply_counted [of "\<lparr>hdr_ipv4 = Some 14, hdr_udp = Some 34, hdr_tcp = None, payload = Some 42, payload_length = 16\<rparr>" 34
      zero_cache id 0 "ih_at (\<lambda>_. 0)" "\<lambda>_. 1" "\<lambda>_. 0"]
  by (auto simp: zero_cache_def)

theorem cache_invalidation_writes_nothing_witness:
  "scan_skip Inval (demo_sync_ctxt\<lparr>allocation := fst (memory_invalidate_cache (allocation demo_sync_ctxt))\<rparr>) 4 0"
  using cache_invalidation_writes_nothing [of demo_sync_ctxt "fst (memory_invalidate_cache (allocation demo_sync_ctxt))" True 4 0]
    demo_sync_simps(6)
  by (simp add: memory_invalidate_cache_def sync_valid_stages_def demo_sync_ctxt_def demo_memory_def zero_stage_def)

end
