(* ===== verification/AP4_HH.thy ===== *)
theory AP4_HH
  imports AP4_Region
begin

text \<open>
  The heavy-hitter application of the shim, \<open>shim/dpdk/apps/active_hh.h\<close>.  Whether the threshold has
  timed out (a floating-point comparison of cycles) is the parameter \<open>timed_out\<close>.
\<close>

abbreviation (input) CMS_HH_SIZE :: nat where "CMS_HH_SIZE \<equiv> 2"
abbreviation (input) CMS_FILTER_SIZE :: nat where "CMS_FILTER_SIZE \<equiv> 2"
abbreviation (input) KEYSPACE :: nat where "KEYSPACE \<equiv> 65536"

subsection \<open>Model\<close>

record hh_context_t =
  sync_enabled :: bool
  threshold_determined :: bool
  hh_threshold :: u32
  top_k :: int
  last_computed_threshold :: u64
  last_computed_freq :: u64
  stage_id_cms_hh :: "nat arr"
  hh_items :: "u32 arr"
  filter_counts :: "u32 arr"
  num_hh :: nat
  num_counts :: nat

definition zero_hh :: hh_context_t where
  "zero_hh = \<lparr>sync_enabled = False, threshold_determined = False, hh_threshold = 0, top_k = 0, last_computed_threshold = 0,
     last_computed_freq = 0, stage_id_cms_hh = (\<lambda>_. 0), hh_items = (\<lambda>_. 0), filter_counts = (\<lambda>_. 0), num_hh = 0, num_counts = 0\<rparr>"

text \<open>Valid stages from the last to the first; with fewer than two the handler indexes with \<open>-1\<close>.\<close>

definition valid_from_last :: "memory_t \<Rightarrow> nat list" where
  "valid_from_last mem = filter (\<lambda>i. valid_stages mem i \<noteq> 0) (rev [0..<NUM_STAGES])"

definition stage_size :: "memory_t \<Rightarrow> nat \<Rightarrow> u32" where
  "stage_size mem i = mem_end (sync_data mem i) - mem_start (sync_data mem i) + 1"

text \<open>The address is computed in 16 bits.\<close>

definition active_tx_handler_hh ::
  "buffer \<Rightarrow> nat \<Rightarrow> activep4_data_t \<Rightarrow> memory_t \<Rightarrow> hh_context_t \<Rightarrow> (activep4_data_t \<times> hh_context_t) c_result" where
  "active_tx_handler_hh b pos ap4data alloc hh_ctxt =
     (if load8 b (pos + 9) \<noteq> IPPROTO_UDP then Inr (ap4data, hh_ctxt)
      else case valid_from_last alloc of
        stg_key # stg_value # _ \<Rightarrow>
          (let key = load32 b (pos + 28);
               memory_size = sint (min (stage_size alloc stg_key) (stage_size alloc stg_value)) in
           if memory_size < 2 then Inr (\<lambda>_. 0, hh_ctxt)
           else let addr = ucast (mem_start (sync_data alloc stg_key) + key mod word_of_int memory_size) :: u16
                in Inr ((\<lambda>_. 0)(0 := htonl key, 1 := htonl (hh_threshold hh_ctxt), 2 := htonl (ucast addr)), hh_ctxt))
      | _ \<Rightarrow> Inl OutOfBounds)"

text \<open>The words of a region, read by a loop over \<open>int\<close> indices.\<close>

definition region_words :: "memory_t \<Rightarrow> nat \<Rightarrow> u32 list c_result" where
  "region_words mem stage_id =
     (let lo = sint (mem_start (sync_data mem stage_id)); hi = sint (mem_end (sync_data mem stage_id)) in
      if hi < lo then Inr []
      else if lo < 0 \<or> int MAX_DATA \<le> hi then Inl OutOfBounds
      else Inr (map (ms_data (sync_data mem stage_id)) [nat lo..<Suc (nat hi)]))"

fun collect_counts :: "u32 list \<Rightarrow> nat \<Rightarrow> u32 arr \<Rightarrow> (nat \<times> u32 arr) c_result" where
  "collect_counts [] n counts = Inr (n, counts)"
| "collect_counts (w # ws) n counts =
     (if w > 0 then
        (if KEYSPACE * CMS_FILTER_SIZE \<le> n then Inl OutOfBounds else collect_counts ws (Suc n) (counts(n := w)))
      else collect_counts ws n counts)"

text \<open>The bound \<open>d\<close> on the number of stages is never incremented, so all valid stages are read.\<close>

fun collect_stages :: "memory_t \<Rightarrow> nat list \<Rightarrow> nat \<Rightarrow> u32 arr \<Rightarrow> (nat \<times> u32 arr) c_result" where
  "collect_stages mem [] n counts = Inr (n, counts)"
| "collect_stages mem (i # is) n counts =
     (if valid_stages mem i = 1 then
        bind_result (region_words mem i)
          (\<lambda>ws. bind_result (collect_counts ws n counts) (\<lambda>(n, counts). collect_stages mem is n counts))
      else collect_stages mem is n counts)"

fun collect_keys :: "u32 list \<Rightarrow> nat \<Rightarrow> u32 arr \<Rightarrow> nat \<times> u32 arr" where
  "collect_keys [] n items = (n, items)"
| "collect_keys (w # ws) n items =
     (if w > 0 \<and> n < KEYSPACE then collect_keys ws (Suc n) (items(n := w)) else collect_keys ws n items)"

definition memory_consume_hh :: "u64 \<Rightarrow> memory_t \<Rightarrow> hh_context_t \<Rightarrow> hh_context_t c_result" where
  "memory_consume_hh now mem hh_ctxt =
     (if \<not> threshold_determined hh_ctxt then
        bind_result (collect_stages mem [0..<NUM_STAGES] 0 (filter_counts hh_ctxt))
          (\<lambda>(n, counts). Inr (hh_ctxt\<lparr>filter_counts := counts, hh_threshold := 10, num_counts := n,
             threshold_determined := True, last_computed_threshold := now\<rparr>))
      else
        bind_result (region_words mem (stage_id_cms_hh hh_ctxt 0))
          (\<lambda>ws0. bind_result (region_words mem (stage_id_cms_hh hh_ctxt 1))
            (\<lambda>ws1. let (n, items) = collect_keys ws0 0 (hh_items hh_ctxt);
                       (n, items) = collect_keys ws1 n items
                   in Inr (hh_ctxt\<lparr>hh_items := items, num_hh := n, last_computed_freq := now\<rparr>))))"

definition memory_invalidate_hh :: "memory_t \<Rightarrow> memory_t \<times> bool" where
  "memory_invalidate_hh mem = (clear_memory_regions (sync_valid_stages mem), True)"

text \<open>\<open>memsize\<close> starts at \<open>MAX_DATA\<close> and only grows.\<close>

definition memory_reset_hh :: "memory_t \<Rightarrow> hh_context_t \<Rightarrow> hh_context_t \<times> bool" where
  "memory_reset_hh mem hh_ctxt =
     (let is = take CMS_HH_SIZE (valid_from_last mem);
          memsize = fold (\<lambda>i m. if m < stage_size mem i then stage_size mem i else m) is (of_nat MAX_DATA)
      in (hh_ctxt\<lparr>stage_id_cms_hh := (\<lambda>k. if k < length is then is ! k else stage_id_cms_hh hh_ctxt k),
            top_k := sint memsize, sync_enabled := True\<rparr>, False))"

definition timer_hh ::
  "(u64 \<Rightarrow> bool) \<Rightarrow> u64 \<Rightarrow> hh_context_t \<Rightarrow> ('a, 'h) activep4_context_t \<Rightarrow> (hh_context_t \<times> ('a, 'h) activep4_context_t) c_result" where
  "timer_hh timed_out now hh_ctxt ctxt =
     (if \<not> sync_enabled hh_ctxt then Inr (hh_ctxt, ctxt)
      else let hh_ctxt = (if timed_out (now - last_computed_threshold hh_ctxt) then hh_ctxt\<lparr>threshold_determined := False\<rparr> else hh_ctxt);
               mem = allocation ctxt;
               chosen = (if threshold_determined hh_ctxt then map (stage_id_cms_hh hh_ctxt) [0..<CMS_HH_SIZE]
                 else take CMS_FILTER_SIZE (filter (\<lambda>i. valid_stages mem i = 1) [0..<NUM_STAGES]));
               mem = mem\<lparr>syncmap := (\<lambda>i. if i \<in> set chosen then 1 else if i < NUM_STAGES then 0 else syncmap mem i)\<rparr>
           in Inr (hh_ctxt, ctxt\<lparr>allocation := clear_memory_regions mem, status := SNAPSHOTTING\<rparr>))"

definition static_allocation_hh :: "memory_t \<Rightarrow> memory_t" where
  "static_allocation_hh mem =
     fold (\<lambda>i mem. mem\<lparr>valid_stages := (valid_stages mem)(i := 1),
         sync_data := (sync_data mem)(i := (sync_data mem i)\<lparr>mem_start := 0, mem_end := of_nat (MAX_DATA - 1)\<rparr>)\<rparr>)
       [5, 10, 11, 12] mem"

subsection \<open>Addresses\<close>

lemma ucast_u16: "unat x < 65536 \<Longrightarrow> ucast (ucast x :: u16) = (x :: u32)"
  by (simp add: word_unat_eq_iff unsigned_ucast_eq unsigned_take_bit_eq take_bit_nat_eq_self)

text \<open>
  If the last two valid stages have regions of at least two words, and the region of the key
  stage ends below word 65536, a UDP request is sent to a word inside the key stage's region, with
  the request's key and the current threshold as its other arguments.
\<close>

theorem hh_address_in_region:
  assumes "load8 b (pos + 9) = IPPROTO_UDP" "valid_from_last alloc = k # v # rest"
    and "mem_start (sync_data alloc k) < mem_end (sync_data alloc k)" "unat (mem_end (sync_data alloc k)) < 65536"
    and "mem_start (sync_data alloc v) < mem_end (sync_data alloc v)" "unat (mem_end (sync_data alloc v)) < MAX_DATA"
  shows "\<exists>data. active_tx_handler_hh b pos d alloc c = Inr (data, c)
    \<and> mem_start (sync_data alloc k) \<le> ntohl (data 2) \<and> ntohl (data 2) \<le> mem_end (sync_data alloc k)
    \<and> ntohl (data 0) = load32 b (pos + 28) \<and> ntohl (data 1) = hh_threshold c"
proof -
  let ?lo = "mem_start (sync_data alloc k)" and ?hi = "mem_end (sync_data alloc k)"
  let ?n = "min (unat ?hi - unat ?lo + 1) (unat (mem_end (sync_data alloc v)) - unat (mem_start (sync_data alloc v)) + 1)"
  have lt: "unat ?lo < unat ?hi" "unat (mem_start (sync_data alloc v)) < unat (mem_end (sync_data alloc v))"
    using assms(3,5) by (simp_all add: word_less_nat_alt)
  have "unat (stage_size alloc k) = unat ?hi - unat ?lo + 1"
    "unat (stage_size alloc v) = unat (mem_end (sync_data alloc v)) - unat (mem_start (sync_data alloc v)) + 1"
    unfolding stage_size_def by (rule unat_region_size; use assms(3-6) in simp)+
  then have "unat (min (stage_size alloc k) (stage_size alloc v)) = ?n" by (simp only: unat_min)
  moreover have "?n < 2 ^ 31" using assms(4) by simp
  ultimately have ms: "sint (min (stage_size alloc k) (stage_size alloc v)) = int ?n"
    using sint_small [of "min (stage_size alloc k) (stage_size alloc v)"] by (simp only:)
  obtain n where n: "n = ?n" by blast
  have bounds: "2 \<le> n" "unat ?lo + n \<le> Suc (unat ?hi)" using lt by (auto simp: n)
  note ms = ms [folded n]
  let ?p = "?lo + load32 b (pos + 28) mod of_nat n"
  have p: "unat ?lo \<le> unat ?p" "unat ?p \<le> unat ?hi"
    using mod_in_region [of n ?lo "load32 b (pos + 28)"] bounds assms(4) by simp_all
  then have "unat ?p < 65536" using assms(4) by linarith
  then have u: "ucast (ucast ?p :: u16) = ?p" by (rule ucast_u16)
  have "active_tx_handler_hh b pos d alloc c = Inr ((\<lambda>_. 0)(0 := htonl (load32 b (pos + 28)), 1 := htonl (hh_threshold c), 2 := htonl ?p), c)"
    using assms(1) bounds(1) unfolding active_tx_handler_hh_def assms(2) list.case Let_def ms of_int_of_nat_eq u by simp
  then show ?thesis using p by (simp add: word_le_nat_alt)
qed

text \<open>
  Above word 65535 the 16-bit variable loses the top of the address: the request leaves the
  application's region.
\<close>

lemma hh_address_truncated:
  assumes "load8 b (pos + 9) = IPPROTO_UDP" "valid_from_last alloc = k # v # rest"
    and "mem_start (sync_data alloc k) = 65536" "mem_end (sync_data alloc k) = 65546"
    and "mem_start (sync_data alloc v) = 65536" "mem_end (sync_data alloc v) = 65546"
  shows "\<exists>data. active_tx_handler_hh b pos d alloc c = Inr (data, c) \<and> ntohl (data 2) < mem_start (sync_data alloc k)"
proof -
  have ms: "min (stage_size alloc k) (stage_size alloc v) = 11"
    using assms(3-6) by (simp add: stage_size_def)
  have lt: "ucast (x :: u16) < (65536 :: u32)" for x
    using unsigned_less [of x, where ?'a = nat] by (simp add: word_less_nat_alt unsigned_ucast_eq take_bit_nat_eq_self)
  show ?thesis
    using assms(1,3) unfolding active_tx_handler_hh_def assms(2) list.case Let_def ms by (simp add: lt)
qed

subsection \<open>Consuming a snapshot\<close>

lemma collect_keys_spec:
  "n \<le> KEYSPACE \<Longrightarrow> collect_keys ws n items = (n', items') \<Longrightarrow>
     map items' [0..<n'] = map items [0..<n] @ take (KEYSPACE - n) (filter (\<lambda>w. w \<noteq> 0) ws) \<and> n' \<le> KEYSPACE"
proof (induction ws arbitrary: n items)
  case (Cons w ws)
  show ?case
  proof (cases "w > 0 \<and> n < KEYSPACE")
    case True
    then have "65536 - n = Suc (65536 - Suc n)" by (metis Suc_diff_Suc)
    moreover have "collect_keys ws (Suc n) (items(n := w)) = (n', items')" using True Cons.prems(2) by simp
    ultimately show ?thesis using Cons.IH [of "Suc n" "items(n := w)"] True by (simp add: word_gt_0 del: fun_upd_apply) simp
  next
    case False
    then have "w = 0 \<or> n = KEYSPACE" using Cons.prems(1) by (auto simp: word_gt_0)
    then show ?thesis using Cons.IH [of n items] Cons.prems False by auto
  qed
qed simp

text \<open>
  Once the threshold is determined, consuming a snapshot records exactly the non-zero words of
  the two key stages, in order of stage and address, up to the capacity of the item table.
\<close>

theorem hh_items_recorded:
  assumes "threshold_determined c" "region_words mem (stage_id_cms_hh c 0) = Inr ws0" "region_words mem (stage_id_cms_hh c 1) = Inr ws1"
  shows "\<exists>c'. memory_consume_hh now mem c = Inr c'
    \<and> map (hh_items c') [0..<num_hh c'] = take KEYSPACE (filter (\<lambda>w. w \<noteq> 0) (ws0 @ ws1))
    \<and> last_computed_freq c' = now \<and> hh_threshold c' = hh_threshold c"
proof -
  obtain n1 i1 where 1: "collect_keys ws0 0 (hh_items c) = (n1, i1)" by force
  obtain n2 i2 where 2: "collect_keys ws1 n1 i1 = (n2, i2)" by force
  have m1: "map i1 [0..<n1] = take KEYSPACE (filter (\<lambda>w. w \<noteq> 0) ws0)" "n1 \<le> KEYSPACE"
    using collect_keys_spec [OF _ 1] by auto
  have "length (map i1 [0..<n1]) = length (take KEYSPACE (filter (\<lambda>w. w \<noteq> 0) ws0))" by (simp only: m1(1))
  then have l1: "n1 = min KEYSPACE (length (filter (\<lambda>w. w \<noteq> 0) ws0))" by (simp add: min.commute)
  have "map i2 [0..<n2] = take KEYSPACE (filter (\<lambda>w. w \<noteq> 0) ws0) @ take (KEYSPACE - n1) (filter (\<lambda>w. w \<noteq> 0) ws1)"
    using collect_keys_spec [OF m1(2) 2] m1(1) by simp
  also have "\<dots> = take KEYSPACE (filter (\<lambda>w. w \<noteq> 0) (ws0 @ ws1))"
    by (simp add: l1 min_def)
  finally have "map i2 [0..<n2] = take KEYSPACE (filter (\<lambda>w. w \<noteq> 0) (ws0 @ ws1))" .
  then show ?thesis using assms by (simp add: memory_consume_hh_def 1 2)
qed

subsection \<open>Requesting a snapshot\<close>

text \<open>
  When synchronisation is enabled the timer requests a snapshot: exactly the chosen stages are
  to be read - the two key stages once the threshold is determined, the first two valid stages
  otherwise - and every word of every stage is marked as not yet received.
\<close>

theorem hh_timer_requests_snapshot:
  assumes "sync_enabled c" "\<forall>k<CMS_HH_SIZE. stage_id_cms_hh c k < NUM_STAGES"
  shows "\<exists>c' ctxt'. timer_hh timed_out now c ctxt = Inr (c', ctxt') \<and> status ctxt' = SNAPSHOTTING
    \<and> (\<forall>i<NUM_STAGES. scan_stage Snap ctxt' i \<longleftrightarrow> valid_stages (allocation ctxt) i \<noteq> 0 \<and>
         (if threshold_determined c \<and> \<not> timed_out (now - last_computed_threshold c)
          then i = stage_id_cms_hh c 0 \<or> i = stage_id_cms_hh c 1
          else i \<in> set (take CMS_FILTER_SIZE (filter (\<lambda>i. valid_stages (allocation ctxt) i = 1) [0..<NUM_STAGES]))))
    \<and> (\<forall>i<NUM_STAGES. \<forall>j<MAX_DATA. \<not> scan_skip Snap ctxt' i j)
    \<and> (\<forall>i. mem_start (sync_data (allocation ctxt') i) = mem_start (sync_data (allocation ctxt) i)
         \<and> mem_end (sync_data (allocation ctxt') i) = mem_end (sync_data (allocation ctxt) i))"
proof (cases "threshold_determined c \<and> \<not> timed_out (now - last_computed_threshold c)")
  case True
  moreover have "[0..<CMS_HH_SIZE] = [0, 1]" by (simp add: upt_rec)
  ultimately show ?thesis
    using assms by (simp add: timer_hh_def Let_def clear_memory_regions_def clear_stage_def)
next
  case False
  let ?V = "take CMS_FILTER_SIZE (filter (\<lambda>i. valid_stages (allocation ctxt) i = 1) [0..<NUM_STAGES])"
  obtain V where V: "V = set ?V" by simp
  show ?thesis
    using assms(1) False unfolding timer_hh_def Let_def V [symmetric]
    by (auto simp: V [symmetric] clear_memory_regions_def clear_stage_def)
qed

subsection \<open>Choosing the key stages\<close>

text \<open>
  A reset makes the last two valid stages the key stages and enables synchronisation.  The number
  of items to report is never smaller than the capacity of a whole stage, whatever was allocated,
  as long as no region is larger than a stage.
\<close>

theorem hh_reset_stages:
  assumes "\<forall>i<NUM_STAGES. valid_stages mem i \<noteq> 0 \<longrightarrow> stage_size mem i \<le> of_nat MAX_DATA"
  shows "\<exists>c'. memory_reset_hh mem c = (c', False) \<and> sync_enabled c' \<and> top_k c' = int MAX_DATA
    \<and> (\<forall>k v rest. valid_from_last mem = k # v # rest \<longrightarrow> stage_id_cms_hh c' 0 = k \<and> stage_id_cms_hh c' 1 = v \<and> v < k)"
proof -
  have "fold (\<lambda>i m. if m < stage_size mem i then stage_size mem i else m) is (of_nat MAX_DATA) = of_nat MAX_DATA"
    if "set is \<subseteq> {i. i < NUM_STAGES \<and> valid_stages mem i \<noteq> 0}" for "is"
    using that assms by (induction "is") (auto simp: not_less)
  moreover have "set (take CMS_HH_SIZE (valid_from_last mem)) \<subseteq> {i. i < NUM_STAGES \<and> valid_stages mem i \<noteq> 0}"
    by (auto simp: valid_from_last_def dest: in_set_takeD)
  ultimately have f: "fold (\<lambda>i m. if m < stage_size mem i then stage_size mem i else m) (take CMS_HH_SIZE (valid_from_last mem)) (of_nat MAX_DATA)
      = (of_nat MAX_DATA :: u32)" by blast
  have desc: "sorted_wrt (>) (valid_from_last mem)"
    unfolding valid_from_last_def by (rule sorted_wrt_filter) (simp add: sorted_wrt_rev)
  have "sint (of_nat MAX_DATA :: u32) = int MAX_DATA" by simp
  then show ?thesis
    using desc unfolding memory_reset_hh_def Let_def f by auto
qed

subsection \<open>Examples\<close>

definition demo_hh_mem :: memory_t where
  "demo_hh_mem = zero_memory\<lparr>valid_stages := (\<lambda>i. if i \<in> {4, 7} then 1 else 0), sync_data := (\<lambda>_. zero_stage\<lparr>mem_end := 9\<rparr>)\<rparr>"

lemma demo_hh_stages: "valid_from_last demo_hh_mem = [7, 4]"
  by (simp add: valid_from_last_def demo_hh_mem_def upt_rec)

theorem hh_address_in_region_witness:
  "\<exists>data. active_tx_handler_hh (\<lambda>i. if i = 9 then 17 else 255) 0 (\<lambda>_. 0) demo_hh_mem zero_hh = Inr (data, zero_hh) \<and> ntohl (data 2) \<le> 9"
proof -
  have u: "load8 (\<lambda>i. if i = 9 then 17 else 255) (0 + 9) = IPPROTO_UDP" by (simp add: load8_def)
  show ?thesis
    using hh_address_in_region [OF u demo_hh_stages, of "\<lambda>_. 0" zero_hh] by (auto simp: demo_hh_mem_def zero_stage_def)
qed

lemma demo_region_words:
  "region_words (demo_hh_mem\<lparr>sync_data := (\<lambda>_. zero_stage\<lparr>mem_end := 1, ms_data := (\<lambda>j. of_nat j)\<rparr>)\<rparr>) i = Inr [0, 1]"
  by (simp add: region_words_def zero_stage_def upt_rec)

theorem hh_items_recorded_witness:
  "\<exists>c'. memory_consume_hh 5 (demo_hh_mem\<lparr>sync_data := (\<lambda>_. zero_stage\<lparr>mem_end := 1, ms_data := (\<lambda>j. of_nat j)\<rparr>)\<rparr>)
      (zero_hh\<lparr>threshold_determined := True\<rparr>) = Inr c' \<and> map (hh_items c') [0..<num_hh c'] = [1, 1]"
  using hh_items_recorded [of "zero_hh\<lparr>threshold_determined := True\<rparr>" "demo_hh_mem\<lparr>sync_data := (\<lambda>_. zero_stage\<lparr>mem_end := 1, ms_data := (\<lambda>j. of_nat j)\<rparr>)\<rparr>" "[0, 1]" "[0, 1]" 5]
    demo_region_words by (auto simp: take_Cons')

theorem hh_timer_requests_snapshot_witness:
  "\<exists>c' ctxt'. timer_hh (\<lambda>_. False) 5 (zero_hh\<lparr>sync_enabled := True\<rparr>) demo_sync_ctxt = Inr (c', ctxt') \<and> status ctxt' = SNAPSHOTTING"
  using hh_timer_requests_snapshot [of "zero_hh\<lparr>sync_enabled := True\<rparr>" "\<lambda>_. False" 5 demo_sync_ctxt] by (auto simp: zero_hh_def)

theorem hh_reset_stages_witness:
  "\<exists>c'. memory_reset_hh demo_hh_mem zero_hh = (c', False) \<and> stage_id_cms_hh c' 0 = 7 \<and> stage_id_cms_hh c' 1 = 4"
proof -
  have "\<forall>i<NUM_STAGES. valid_stages demo_hh_mem i \<noteq> 0 \<longrightarrow> stage_size demo_hh_mem i \<le> of_nat MAX_DATA"
    by (simp add: demo_hh_mem_def stage_size_def zero_stage_def word_le_def)
  then show ?thesis using hh_reset_stages [of demo_hh_mem zero_hh] by (auto simp: demo_hh_stages)
qed

end
