(* ===== verification/AP4_LB.thy ===== *)
theory AP4_LB
  imports AP4_Region
begin

text \<open>
  The load-balancer application of the shim, \<open>shim/dpdk/apps/active_lb.h\<close>.  The connection table is
  DPDK's \<open>rte_hash\<close>; its three operations are the parameter \<open>rte_hash\<close>.  A null table answers every
  lookup and insertion with an error, which the application ignores.
\<close>

abbreviation (input) RTE_TCP_SYN_FLAG :: u8 where "RTE_TCP_SYN_FLAG \<equiv> 2"

subsection \<open>Model\<close>

record lb_5tuple =
  lb_src_addr :: u32
  lb_dst_addr :: u32
  lb_proto :: u8
  lb_src_port :: u16
  lb_dst_port :: u16

record 'ht rte_hash =
  rte_hash_create :: "'ht option"
  rte_hash_lookup_data :: "'ht \<Rightarrow> lb_5tuple \<Rightarrow> u64 option"
  rte_hash_add_key_data :: "'ht \<Rightarrow> lb_5tuple \<Rightarrow> u64 \<Rightarrow> 'ht"

record 'ht lb_context_t =
  lb_ht :: "'ht option"

definition tcp_syn :: "buffer \<Rightarrow> nat \<Rightarrow> bool" where
  "tcp_syn b tcp \<longleftrightarrow> load8 b (tcp + 13) AND RTE_TCP_SYN_FLAG \<noteq> 0"

definition active_tx_mux_lb :: "buffer \<Rightarrow> 'a \<Rightarrow> nat \<Rightarrow> 'a \<times> nat" where
  "active_tx_mux_lb b app p =
     (if ntohs (load16 b 12) \<noteq> RTE_ETHER_TYPE_IPV4 then (app, p)
      else if load8 b (sizeof_eth + 9) \<noteq> IPPROTO_TCP then (app, p)
      else (app, if tcp_syn b (sizeof_eth + sizeof_ipv4) then 0 else 1))"

definition active_tx_handler_lb ::
  "'ht rte_hash \<Rightarrow> buffer \<Rightarrow> nat \<Rightarrow> activep4_data_t \<Rightarrow> memory_t \<Rightarrow> 'ht lb_context_t
     \<Rightarrow> (activep4_data_t \<times> 'ht lb_context_t) c_result" where
  "active_tx_handler_lb rh b pos ap4data alloc lb_ctxt =
     (if load8 b (pos + 9) \<noteq> IPPROTO_TCP then Inr (ap4data, lb_ctxt)
      else let tcp = pos + sizeof_ipv4 in
        if tcp_syn b tcp then Inr ((\<lambda>_. 0)(1 := load32 b (pos + 16)), lb_ctxt)
        else let flow = \<lparr>lb_src_addr = load32 b (pos + 16), lb_dst_addr = load32 b (pos + 12), lb_proto = load8 b (pos + 9),
                   lb_src_port = load16 b (tcp + 2), lb_dst_port = load16 b tcp\<rparr>
             in case Option.bind (lb_ht lb_ctxt) (\<lambda>h. rte_hash_lookup_data rh h flow) of
                  Some cookie \<Rightarrow> Inr ((\<lambda>_. 0)(0 := ucast cookie), lb_ctxt)
                | None \<Rightarrow> Inr (\<lambda>_. 0, lb_ctxt))"

text \<open>The arguments are read without a test for their presence.\<close>

definition active_rx_handler_lb ::
  "'ht rte_hash \<Rightarrow> u64 \<Rightarrow> activep4_ih \<Rightarrow> activep4_data_t option \<Rightarrow> inet_pkt_t \<Rightarrow> buffer \<Rightarrow> 'ht lb_context_t
     \<Rightarrow> (buffer \<times> 'ht lb_context_t) c_result" where
  "active_rx_handler_lb rh now ap4ih ap4args inet_pkt b lb_ctxt =
     (case hdr_tcp inet_pkt of
        None \<Rightarrow> Inr (b, lb_ctxt)
      | Some tcp \<Rightarrow>
          (case (ap4args, hdr_ipv4 inet_pkt) of
             (Some args, Some ip) \<Rightarrow>
               if args 0 = 0 \<or> \<not> tcp_syn b tcp then Inr (b, lb_ctxt)
               else let flow = \<lparr>lb_src_addr = load32 b (ip + 12), lb_dst_addr = load32 b (ip + 16), lb_proto = load8 b (ip + 9),
                          lb_src_port = load16 b tcp, lb_dst_port = load16 b (tcp + 2)\<rparr>
                    in Inr (b, lb_ctxt\<lparr>lb_ht := map_option (\<lambda>h. rte_hash_add_key_data rh h flow (ucast (args 0))) (lb_ht lb_ctxt)\<rparr>)
           | _ \<Rightarrow> Inl NullDeref))"

definition memory_consume_lb :: "u64 \<Rightarrow> memory_t \<Rightarrow> 'ht lb_context_t \<Rightarrow> 'ht lb_context_t c_result" where
  "memory_consume_lb now mem lb_ctxt = Inr lb_ctxt"

definition memory_invalidate_lb :: "memory_t \<Rightarrow> memory_t \<times> bool" where
  "memory_invalidate_lb mem = (mem, False)"

definition memory_reset_lb :: "'ht rte_hash \<Rightarrow> memory_t \<Rightarrow> 'ht lb_context_t \<Rightarrow> 'ht lb_context_t \<times> bool" where
  "memory_reset_lb rh mem lb_ctxt = (lb_ctxt\<lparr>lb_ht := rte_hash_create rh\<rparr>, False)"

definition timer_lb :: "'ht lb_context_t \<Rightarrow> ('a, 'h) activep4_context_t \<Rightarrow> ('ht lb_context_t \<times> ('a, 'h) activep4_context_t) c_result" where
  "timer_lb lb_ctxt ctxt = Inr (lb_ctxt, ctxt)"

definition static_allocation_lb :: "memory_t \<Rightarrow> memory_t" where
  "static_allocation_lb mem =
     fold (\<lambda>i mem. mem\<lparr>valid_stages := (valid_stages mem)(i := 1),
         sync_data := (sync_data mem)(i := (sync_data mem i)\<lparr>mem_start := 0, mem_end := of_nat (MAX_DATA - 1)\<rparr>)\<rparr>)
       [3, 5, 14, 16] mem"

subsection \<open>Cookies\<close>

text \<open>What a connection-table insertion promises for the key inserted and for every other key.\<close>

definition rte_hash_ok :: "'ht rte_hash \<Rightarrow> bool" where
  "rte_hash_ok rh \<longleftrightarrow> (\<forall>h k v. rte_hash_lookup_data rh (rte_hash_add_key_data rh h k v) k = Some v
     \<and> (\<forall>k'. k' \<noteq> k \<longrightarrow> rte_hash_lookup_data rh (rte_hash_add_key_data rh h k v) k' = rte_hash_lookup_data rh h k'))"

text \<open>An outgoing segment that belongs to the connection an incoming packet opened.\<close>

definition reply_of :: "buffer \<Rightarrow> nat \<Rightarrow> buffer \<Rightarrow> nat \<Rightarrow> nat \<Rightarrow> bool" where
  "reply_of b pos s ip tcp \<longleftrightarrow> load32 b (pos + 16) = load32 s (ip + 12) \<and> load32 b (pos + 12) = load32 s (ip + 16)
     \<and> load8 b (pos + 9) = load8 s (ip + 9) \<and> load16 b (pos + 20 + 2) = load16 s tcp \<and> load16 b (pos + 20) = load16 s (tcp + 2)"


text \<open>A table as an association list, to instantiate the parameter.\<close>

definition list_hash :: "(lb_5tuple \<times> u64) list rte_hash" where
  "list_hash = \<lparr>rte_hash_create = Some [], rte_hash_lookup_data = (\<lambda>h k. map_of h k), rte_hash_add_key_data = (\<lambda>h k v. (k, v) # h)\<rparr>"


end
