(* ===== verification/AP4_Shim.thy ===== *)
theory AP4_Shim
  imports AP4_App AP4_Config AP4_Cache AP4_HH AP4_LB
begin

text \<open>
  The shim process (\<open>shim/dpdk/main.c\<close>, \<open>include/c/dpdk/common.h\<close>): the contexts it builds from its
  configuration files, the handlers it installs for the three applications, and the forwarding of packets between the
  physical and the virtual port.

  Libraries are parameters, collected in \<open>shim_env\<close>: the hash tables of uthash and DPDK, DPDK's CRC
  and the conversions of cycle counts.  File contents are arguments; \<open>None\<close> is a file that cannot be
  opened.
\<close>

subsection \<open>Contexts\<close>

text \<open>
  The definition of every configured program, in order.  \<open>stale\<close> is what the loader's stack buffer
  holds at each call.
\<close>

definition load_function ::
  "(string \<Rightarrow> u8 list option) \<Rightarrow> (string \<Rightarrow> string option) \<Rightarrow> (nat \<Rightarrow> buffer) \<Rightarrow> active_config_t \<Rightarrow> nat \<Rightarrow> activep4_def_t c_result" where
  "load_function bin txt stale cfg i =
     (if MAX_APPS \<le> i then Inl OutOfBounds
      else bind_result (read_active_function bin txt (stale i) zero_def (program_path (active_programs cfg i)) (program_name (active_programs cfg i)))
        (\<lambda>d. Inr (d\<lparr>prog_name := program_name (active_programs cfg i)\<rparr>)))"

fun load_functions ::
  "(string \<Rightarrow> u8 list option) \<Rightarrow> (string \<Rightarrow> string option) \<Rightarrow> (nat \<Rightarrow> buffer) \<Rightarrow> active_config_t \<Rightarrow> nat list \<Rightarrow> activep4_def_t arr
     \<Rightarrow> activep4_def_t arr c_result" where
  "load_functions bin txt stale cfg [] fs = Inr fs"
| "load_functions bin txt stale cfg (i # is) fs =
     bind_result (load_function bin txt stale cfg i) (\<lambda>d. load_functions bin txt stale cfg is (fs(i := d)))"

text \<open>
  The program of slot \<open>j\<close>: a copy of the definition with its code as the initial mutant.  The copy also
  overwrites the program identifier that was assigned before.
\<close>

definition app_program :: "active_config_t \<Rightarrow> activep4_def_t arr \<Rightarrow> active_application_t \<Rightarrow> nat \<Rightarrow> activep4_def_t" where
  "app_program cfg fs app j =
     (case program_index cfg (program_name (active_programs cfg (app_functions app j))) of
        None \<Rightarrow> zero_def\<lparr>pid := of_nat j\<rparr>
      | Some k \<Rightarrow> (fs k)\<lparr>mutant := \<lparr>mut_code = code (fs k), mut_proglen = int (proglen (fs k))\<rparr>\<rparr>)"

text \<open>
  The private state of an application, by application, and the handler table it is given.  \<open>NoData\<close>
  and \<open>NoApp\<close> are the null pointers of a context that \<open>main\<close> has not completed yet.
\<close>

datatype 'ht app_data =
    NoData
  | CacheData cache_context_t
  | HhData hh_context_t
  | LbData "'ht lb_context_t"

datatype app_tag = NoApp | CacheApp | HhApp | LbApp

type_synonym 'ht shim_ctxt = "('ht app_data, app_tag) activep4_context_t"

definition zero_ctxt :: "'ht shim_ctxt" where
  "zero_ctxt = \<lparr>ctx_id = 0, ctx_fid = 0, active_tx_enabled = False, active_heartbeat_enabled = False, is_active = False,
     status = TRANSMITTING, active_timer_enabled = False, ctrl_ts_lastsent = 0, ctrl_timer_lasttick = 0, telemetry = zero_telemetry,
     instr_set = zero_instr_set, programs = (\<lambda>_. zero_def), num_programs = 0, current_pid = 0, allocation = zero_memory,
     membuf = zero_memory, is_elastic = False, ctx_data = (\<lambda>_. 0), ipv4_srcaddr = 0, app_context = NoData, timer_interval_us = 0,
     handlers = NoApp\<rparr>"

definition client_ctxt ::
  "active_config_t \<Rightarrow> pnemonic_opcode_t \<Rightarrow> activep4_def_t arr \<Rightarrow> u32 \<Rightarrow> nat \<Rightarrow> 'ht shim_ctxt c_result" where
  "client_ctxt cfg iset fs ipv4_ifaceaddr i =
     (let app = active_apps cfg i in
      if num_functions app = 0 then Inl AssertFail
      else Inr (zero_ctxt\<lparr>instr_set := iset, num_programs := num_functions app, ctx_fid := int (Suc i), current_pid := 0,
        programs := (\<lambda>j. if j < num_functions app then app_program cfg fs app j else zero_def),
        active_tx_enabled := True, active_heartbeat_enabled := True, active_timer_enabled := False,
        timer_interval_us := DEFAULT_TI_US, is_active := False, is_elastic := True, status := INITIALIZING,
        ipv4_srcaddr := ipv4_ifaceaddr\<rparr>))"

fun client_ctxts ::
  "active_config_t \<Rightarrow> pnemonic_opcode_t \<Rightarrow> activep4_def_t arr \<Rightarrow> u32 \<Rightarrow> nat list \<Rightarrow> 'ht shim_ctxt arr \<Rightarrow> 'ht shim_ctxt arr c_result" where
  "client_ctxts cfg iset fs addr [] cs = Inr cs"
| "client_ctxts cfg iset fs addr (i # is) cs =
     bind_result (client_ctxt cfg iset fs addr i) (\<lambda>c. client_ctxts cfg iset fs addr is (cs(i := c)))"

text \<open>\<open>active_client_init\<close> up to the launch of the threads: the configuration and the table of contexts.\<close>

definition active_client_init ::
  "(string \<Rightarrow> u8 list option) \<Rightarrow> (string \<Rightarrow> string option) \<Rightarrow> (nat \<Rightarrow> buffer) \<Rightarrow> string \<Rightarrow> string \<Rightarrow> string \<Rightarrow> u32 \<Rightarrow> u64
     \<Rightarrow> (active_config_t \<times> ('ht app_data, app_tag) active_apps_t) c_result" where
  "active_client_init bin txt stale config_filename programs_config_filename instr_set_path ipv4_ifaceaddr now =
     bind_result (read_active_program_config (txt programs_config_filename) zero_config) (\<lambda>cfg.
     bind_result (read_activep4_config (txt config_filename) cfg) (\<lambda>cfg.
     let cfg = (if MAX_APPS < cfg_num_apps cfg then cfg\<lparr>cfg_num_apps := MAX_APPS\<rparr> else cfg) in
     bind_result (read_opcode_action_map (txt instr_set_path) zero_instr_set) (\<lambda>iset.
     bind_result (load_functions bin txt stale cfg [0..<cfg_num_programs cfg] (\<lambda>_. zero_def)) (\<lambda>fs.
     bind_result (client_ctxts cfg iset fs ipv4_ifaceaddr [0..<cfg_num_apps cfg] (\<lambda>_. zero_ctxt)) (\<lambda>cs.
     Inr (cfg, \<lparr>num_apps = cfg_num_apps cfg, apps_ctxt = cs,
       apps_stats = (\<lambda>i. if i < cfg_num_apps cfg then zero_app_stats\<lparr>st_ts_ref := now\<rparr> else zero_app_stats),
       apps_app_id = (\<lambda>i. if i < cfg_num_apps cfg then word_of_int (aa_app_id (active_apps cfg i)) else 0)\<rparr>))))))"

subsection \<open>Handlers\<close>

record 'ht shim_env =
  se_uthash :: uthash
  se_crc :: "u64 \<Rightarrow> u32"
  se_to_ms :: "u64 \<Rightarrow> u64"
  se_timed_out :: "u64 \<Rightarrow> bool"
  se_rte_hash :: "'ht rte_hash"

text \<open>
  A handler casts the private state to the type of its application.  Handlers that meet the state of
  another application are given a null pointer here; that this never happens is shown below.
\<close>

fun as_cache :: "'ht app_data \<Rightarrow> cache_context_t c_result" where
  "as_cache (CacheData c) = Inr c"
| "as_cache _ = Inl NullDeref"

fun as_hh :: "'ht app_data \<Rightarrow> hh_context_t c_result" where
  "as_hh (HhData c) = Inr c"
| "as_hh _ = Inl NullDeref"

fun as_lb :: "'ht app_data \<Rightarrow> 'ht lb_context_t c_result" where
  "as_lb (LbData c) = Inr c"
| "as_lb _ = Inl NullDeref"

definition lift_result :: "('c \<Rightarrow> 'ht app_data) \<Rightarrow> ('ht app_data \<Rightarrow> 'c c_result) \<Rightarrow> ('c \<Rightarrow> ('b \<times> 'c) c_result) \<Rightarrow> 'ht app_data
    \<Rightarrow> ('b \<times> 'ht app_data) c_result" where
  "lift_result mk as f a = bind_result (as a) (\<lambda>c. bind_result (f c) (\<lambda>(b, c). Inr (b, mk c)))"

definition lift_reset :: "('c \<Rightarrow> 'ht app_data) \<Rightarrow> ('ht app_data \<Rightarrow> 'c c_result) \<Rightarrow> ('c \<Rightarrow> 'c \<times> bool) \<Rightarrow> 'ht app_data
    \<Rightarrow> 'ht app_data \<times> bool" where
  "lift_reset mk as f a = (case as a of Inl e \<Rightarrow> (a, False) | Inr c \<Rightarrow> (case f c of (c, r) \<Rightarrow> (mk c, r)))"

definition lift_timer ::
  "('c \<Rightarrow> 'ht app_data) \<Rightarrow> ('ht app_data \<Rightarrow> 'c c_result) \<Rightarrow> ('c \<Rightarrow> 'ht shim_ctxt \<Rightarrow> ('c \<times> 'ht shim_ctxt) c_result) \<Rightarrow> 'ht shim_ctxt
     \<Rightarrow> 'ht shim_ctxt c_result" where
  "lift_timer mk as f ctxt =
     bind_result (as (app_context ctxt)) (\<lambda>c. bind_result (f c ctxt) (\<lambda>(c, ctxt). Inr (ctxt\<lparr>app_context := mk c\<rparr>)))"

definition cache_ops :: "'ht shim_env \<Rightarrow> ('ht app_data, app_tag) app_ops" where
  "cache_ops env =
     \<lparr>op_tx_mux = tx_mux_cache,
      op_tx_handler = (\<lambda>b pos d mem. lift_result CacheData as_cache (payload_parser_cache (se_uthash env) (se_crc env) b pos d mem)),
      op_rx_handler = (\<lambda>now ih args pkt b. lift_result CacheData as_cache (active_rx_handler_cache (se_to_ms env) now ih args pkt b)),
      op_memory_consume = Some (\<lambda>now mem a. bind_result (as_cache a) (\<lambda>c. bind_result (memory_consume_cache now mem c) (\<lambda>c. Inr (CacheData c)))),
      op_memory_invalidate = memory_invalidate_cache,
      op_memory_reset = Some (\<lambda>mem. lift_reset CacheData as_cache (memory_reset_cache mem)),
      op_timer = Some (\<lambda>now. lift_timer CacheData as_cache (timer_cache (se_uthash env))),
      op_on_allocation = Some on_allocation_cache\<rparr>"

text \<open>The heavy-hitter application ignores replies and picks no program.\<close>

definition tx_mux_hh :: "buffer \<Rightarrow> 'a \<Rightarrow> nat \<Rightarrow> 'a \<times> nat" where
  "tx_mux_hh b app p = (app, p)"

definition active_rx_handler_hh ::
  "u64 \<Rightarrow> activep4_ih \<Rightarrow> activep4_data_t option \<Rightarrow> inet_pkt_t \<Rightarrow> buffer \<Rightarrow> 'a \<Rightarrow> (buffer \<times> 'a) c_result" where
  "active_rx_handler_hh now ih args pkt b app = Inr (b, app)"

definition hh_ops :: "'ht shim_env \<Rightarrow> ('ht app_data, app_tag) app_ops" where
  "hh_ops env =
     \<lparr>op_tx_mux = tx_mux_hh,
      op_tx_handler = (\<lambda>b pos d mem. lift_result HhData as_hh (active_tx_handler_hh b pos d mem)),
      op_rx_handler = active_rx_handler_hh,
      op_memory_consume = Some (\<lambda>now mem a. bind_result (as_hh a) (\<lambda>c. bind_result (memory_consume_hh now mem c) (\<lambda>c. Inr (HhData c)))),
      op_memory_invalidate = memory_invalidate_hh,
      op_memory_reset = Some (\<lambda>mem. lift_reset HhData as_hh (memory_reset_hh mem)),
      op_timer = Some (\<lambda>now. lift_timer HhData as_hh (timer_hh (se_timed_out env) now)),
      op_on_allocation = None\<rparr>"

definition lb_ops :: "'ht shim_env \<Rightarrow> ('ht app_data, app_tag) app_ops" where
  "lb_ops env =
     \<lparr>op_tx_mux = active_tx_mux_lb,
      op_tx_handler = (\<lambda>b pos d mem. lift_result LbData as_lb (active_tx_handler_lb (se_rte_hash env) b pos d mem)),
      op_rx_handler = (\<lambda>now ih args pkt b. lift_result LbData as_lb (active_rx_handler_lb (se_rte_hash env) now ih args pkt b)),
      op_memory_consume = Some (\<lambda>now mem a. bind_result (as_lb a) (\<lambda>c. bind_result (memory_consume_lb now mem c) (\<lambda>c. Inr (LbData c)))),
      op_memory_invalidate = memory_invalidate_lb,
      op_memory_reset = Some (\<lambda>mem. lift_reset LbData as_lb (memory_reset_lb (se_rte_hash env) mem)),
      op_timer = Some (\<lambda>now. lift_timer LbData as_lb timer_lb),
      op_on_allocation = None\<rparr>"

text \<open>A context without handlers: transmission asserts that there are some.\<close>

definition no_ops :: "('ht app_data, app_tag) app_ops" where
  "no_ops =
     \<lparr>op_tx_mux = (\<lambda>b a p. (a, p)), op_tx_handler = (\<lambda>b pos d mem a. Inl AssertFail), op_rx_handler = (\<lambda>now ih args pkt b a. Inl NullDeref),
      op_memory_consume = None, op_memory_invalidate = (\<lambda>mem. (mem, False)), op_memory_reset = None, op_timer = None, op_on_allocation = None\<rparr>"

fun shim_ops :: "'ht shim_env \<Rightarrow> app_tag \<Rightarrow> ('ht app_data, app_tag) app_ops" where
  "shim_ops env NoApp = no_ops"
| "shim_ops env CacheApp = cache_ops env"
| "shim_ops env HhApp = hh_ops env"
| "shim_ops env LbApp = lb_ops env"

text \<open>\<open>main\<close> completes the context of one application by its name.\<close>

definition install_handlers :: "u64 \<Rightarrow> string \<Rightarrow> 'ht shim_ctxt \<Rightarrow> 'ht shim_ctxt c_result" where
  "install_handlers now nm ctxt =
     (if nm = ''cache'' then
        Inr (ctxt\<lparr>app_context := CacheData (zero_cache\<lparr>cc_ts_ref := now\<rparr>), handlers := CacheApp, timer_interval_us := 0,
          active_timer_enabled := True, active_heartbeat_enabled := True, active_tx_enabled := True\<rparr>)
      else if nm = ''hh'' then
        Inr (ctxt\<lparr>app_context := HhData zero_hh, handlers := HhApp, timer_interval_us := 1000000, active_tx_enabled := True,
          active_timer_enabled := False, active_heartbeat_enabled := True\<rparr>)
      else if nm = ''lb'' then
        Inr (ctxt\<lparr>app_context := LbData \<lparr>lb_ht = None\<rparr>, handlers := LbApp, active_heartbeat_enabled := True, is_active := True,
          active_tx_enabled := True\<rparr>)
      else Inl AssertFail)"

fun install_all :: "u64 \<Rightarrow> active_config_t \<Rightarrow> nat list \<Rightarrow> ('ht app_data, app_tag) active_apps_t \<Rightarrow> ('ht app_data, app_tag) active_apps_t c_result" where
  "install_all now cfg [] apps = Inr apps"
| "install_all now cfg (i # is) apps =
     bind_result (install_handlers now (appname (active_apps cfg i)) (apps_ctxt apps i))
       (\<lambda>c. install_all now cfg is (set_ctxt i c apps))"

definition shim_main ::
  "(string \<Rightarrow> u8 list option) \<Rightarrow> (string \<Rightarrow> string option) \<Rightarrow> (nat \<Rightarrow> buffer) \<Rightarrow> string \<Rightarrow> string \<Rightarrow> string \<Rightarrow> u32 \<Rightarrow> u64 \<Rightarrow> u64
     \<Rightarrow> ('ht app_data, app_tag) active_apps_t c_result" where
  "shim_main bin txt stale config_filename programs_config_filename instr_set_path addr now now' =
     bind_result (active_client_init bin txt stale config_filename programs_config_filename instr_set_path addr now)
       (\<lambda>(cfg, apps). install_all now' cfg [0..<cfg_num_apps cfg] apps)"

subsection \<open>Forwarding\<close>

text \<open>
  One round of \<open>lcore_main\<close> for one port: a burst is received, passes the filter if the port is the
  virtual one, and is sent on the paired port, again through the filter if that is the virtual one.
  The driver accepts the first \<open>nb_tx\<close> packets; the rest is freed.
\<close>

definition forward_burst ::
  "('h \<Rightarrow> ('a, 'h) app_ops) \<Rightarrow> (u64 \<Rightarrow> u64) \<Rightarrow> (u16 \<Rightarrow> bool) \<Rightarrow> u64 \<Rightarrow> nat \<Rightarrow> u16 \<Rightarrow> mbuf list \<Rightarrow> ('a, 'h) active_apps_t
     \<Rightarrow> (('a, 'h) active_apps_t \<times> mbuf list \<times> mbuf list) c_result" where
  "forward_burst ops to_ms vdev now nb_tx port bufs apps =
     bind_result (if vdev port then active_encap_filter ops to_ms (map (Pair now) bufs) apps else Inr (apps, bufs)) (\<lambda>(apps, bufs).
     if bufs = [] then Inr (apps, [], [])
     else bind_result (if vdev (port XOR 1) then active_decap_filter ops (map (Pair now) bufs) apps else Inr (apps, bufs))
       (\<lambda>(apps, bufs). Inr (apps, take nb_tx bufs, drop nb_tx bufs)))"

lemma encap_filter_length: "active_encap_filter ops to_ms pkts apps = Inr (apps', ms) \<Longrightarrow> length ms = length pkts"
  by (induction ops to_ms pkts apps arbitrary: apps' ms rule: active_encap_filter.induct) (auto simp: bind_result_Inr_iff)

lemma decap_filter_length: "active_decap_filter ops pkts apps = Inr (apps', ms) \<Longrightarrow> length ms = length pkts"
  by (induction ops pkts apps arbitrary: apps' ms rule: active_decap_filter.induct) (auto simp: bind_result_Inr_iff)

text \<open>Every packet of a burst is sent or freed, once.\<close>

lemma forward_conserves:
  assumes "forward_burst ops to_ms vdev now nb_tx port bufs apps = Inr (apps', sent, freed)"
  shows "length sent + length freed = length bufs \<and> length sent \<le> nb_tx"
  using assms
  by (auto simp: forward_burst_def bind_result_Inr_iff split: if_splits dest!: encap_filter_length decap_filter_length)

subsection \<open>The applications keep their contracts\<close>

text \<open>The private state has the type the installed handlers expect.\<close>

fun well_tagged :: "app_tag \<Rightarrow> 'ht app_data \<Rightarrow> bool" where
  "well_tagged NoApp a \<longleftrightarrow> a = NoData"
| "well_tagged CacheApp a \<longleftrightarrow> (\<exists>c. a = CacheData c)"
| "well_tagged HhApp a \<longleftrightarrow> (\<exists>c. a = HhData c)"
| "well_tagged LbApp a \<longleftrightarrow> (\<exists>c. a = LbData c)"

lemmas shim_ops_defs = no_ops_def cache_ops_def hh_ops_def lb_ops_def lift_result_def lift_reset_def lift_timer_def
  tx_mux_cache_def tx_mux_hh_def active_tx_mux_lb_def active_rx_handler_hh_def

lemma timer_cache_frame:
  assumes "timer_cache ut cc c = Inr (cc', c')"
  shows "handlers c' = handlers c \<and> (status c' = status c \<or> status c' = UPDATING)"
proof -
  obtain n mem where "store_items (cc\<lparr>requested_items := hash_sort ut compare_elements_cache (requested_items cc)\<rparr>)
      (hash_sort ut compare_elements_cache (requested_items cc)) 0 {} zero_memory = Inr (n, mem)"
    using assms by (auto simp: timer_cache_def Let_def bind_result_Inr_iff simp del: if_split)
  then show ?thesis using assms by (cases "0 < n") (auto simp: timer_cache_def Let_def)
qed

lemma timer_hh_frame:
  "timer_hh timed_out now hh c = Inr (hh', c') \<Longrightarrow> handlers c' = handlers c \<and> (status c' = status c \<or> status c' = SNAPSHOTTING)"
  by (cases "sync_enabled hh") (auto simp: timer_hh_def Let_def simp del: if_split)

interpretation shim: active_application "shim_ops env" for env :: "'ht shim_env"
proof
  show "on_allocation_keeps_status (shim_ops env)"
    unfolding on_allocation_keeps_status_def
  proof (intro allI impI)
    fix h f and c :: "'ht shim_ctxt"
    assume "op_on_allocation (shim_ops env h) = Some f"
    then show "status (f c) = status c"
      by (cases h) (auto simp: shim_ops_defs on_allocation_cache_def)
  qed
next
  fix h f now and c c' :: "'ht shim_ctxt"
  assume "op_timer (shim_ops env h) = Some f" "f now c = Inr c'"
  then show "status c' = status c \<or> status c' = UPDATING \<or> status c' = SNAPSHOTTING"
    by (cases h) (auto simp: shim_ops_defs timer_lb_def bind_result_Inr_iff dest!: timer_cache_frame timer_hh_frame)
qed

interpretation shim_tags: application_invariant "shim_ops env" "\<lambda>_. well_tagged" for env :: "'ht shim_env"
proof
  fix h and a a' :: "'ht app_data" and b p p'
  assume "well_tagged h a" "op_tx_mux (shim_ops env h) b a p = (a', p')"
  then show "well_tagged h a'"
    by (cases h) (auto simp: shim_ops_defs split: if_splits)
next
  fix h and a a' :: "'ht app_data" and b pos d d' mem
  assume "well_tagged h a" "op_tx_handler (shim_ops env h) b pos d mem a = Inr (d', a')"
  then show "well_tagged h a'"
    by (cases h) (auto simp: shim_ops_defs bind_result_Inr_iff)
next
  fix h and a a' :: "'ht app_data" and now ih args pkt b b'
  assume "well_tagged h a" "op_rx_handler (shim_ops env h) now ih args pkt b a = Inr (b', a')"
  then show "well_tagged h a'"
    by (cases h) (auto simp: shim_ops_defs bind_result_Inr_iff)
next
  fix h and a a' :: "'ht app_data" and f now mem
  assume "well_tagged h a" "op_memory_consume (shim_ops env h) = Some f" "f now mem a = Inr a'"
  then show "well_tagged h a'"
    by (cases h) (auto simp: shim_ops_defs bind_result_Inr_iff)
next
  fix h and a a' :: "'ht app_data" and g mem r
  assume "well_tagged h a" "op_memory_reset (shim_ops env h) = Some g" "g mem a = (a', r)"
  then show "well_tagged h a'"
    by (cases h) (auto simp: shim_ops_defs split: prod.splits)
next
  fix c c' :: "'ht shim_ctxt" and t now
  assume "well_tagged (handlers c) (app_context c)" "op_timer (shim_ops env (handlers c)) = Some t" "t now c = Inr c'"
  then show "well_tagged (handlers c') (app_context c')"
    by (cases "handlers c") (auto simp: shim_ops_defs timer_lb_def bind_result_Inr_iff dest!: timer_cache_frame timer_hh_frame)
next
  fix c :: "'ht shim_ctxt" and u
  assume "well_tagged (handlers c) (app_context c)" "op_on_allocation (shim_ops env (handlers c)) = Some u"
  then show "well_tagged (handlers (u c)) (app_context (u c))"
    by (cases "handlers c") (auto simp: shim_ops_defs on_allocation_cache_def)
qed

subsection \<open>The initial contexts\<close>

lemma client_ctxts_spec:
  assumes "client_ctxts cfg iset fs addr is cs = Inr cs'"
  shows "(i \<in> set is \<longrightarrow> client_ctxt cfg iset fs addr i = Inr (cs' i)) \<and> (i \<notin> set is \<longrightarrow> cs' i = cs i)"
  using assms
proof (induction "is" arbitrary: cs)
  case (Cons k "is")
  then obtain c where c: "client_ctxt cfg iset fs addr k = Inr c" "client_ctxts cfg iset fs addr is (cs(k := c)) = Inr cs'"
    by (auto simp: bind_result_Inr_iff)
  with Cons.IH [OF c(2)] show ?case by (cases "i \<in> set is") auto
qed simp

lemma install_all_spec:
  assumes "install_all now cfg is apps = Inr apps'" "distinct is"
  shows "num_apps apps' = num_apps apps
    \<and> (i \<in> set is \<longrightarrow> install_handlers now (appname (active_apps cfg i)) (apps_ctxt apps i) = Inr (apps_ctxt apps' i))
    \<and> (i \<notin> set is \<longrightarrow> apps_ctxt apps' i = apps_ctxt apps i)"
  using assms
proof (induction "is" arbitrary: apps)
  case (Cons k "is")
  then obtain c where c: "install_handlers now (appname (active_apps cfg k)) (apps_ctxt apps k) = Inr c"
    "install_all now cfg is (set_ctxt k c apps) = Inr apps'"
    by (auto simp: bind_result_Inr_iff)
  with Cons.IH [OF c(2)] Cons.prems show ?case by (cases "i = k") auto
qed simp

text \<open>What every context holds when the threads start.\<close>

definition shim_started :: "nat \<Rightarrow> 'ht shim_ctxt \<Rightarrow> bool" where
  "shim_started i c \<longleftrightarrow> ctx_fid c = int (Suc i) \<and> status c = INITIALIZING \<and> handlers c \<noteq> NoApp \<and> well_tagged (handlers c) (app_context c)
     \<and> active_tx_enabled c \<and> active_heartbeat_enabled c \<and> (is_active c \<longleftrightarrow> handlers c = LbApp) \<and> (active_timer_enabled c \<longleftrightarrow> handlers c = CacheApp)
     \<and> 0 < num_programs c
     \<and> (\<forall>j. mut_code (mutant (programs c j)) = code (programs c j) \<and> mut_proglen (mutant (programs c j)) = int (proglen (programs c j)))"

lemma client_ctxt_started:
  assumes "client_ctxt cfg iset fs addr i = Inr c" "install_handlers now nm c = Inr c'"
  shows "shim_started i c'"
  using assms
  by (auto simp: client_ctxt_def install_handlers_def shim_started_def Let_def zero_ctxt_def app_program_def zero_def_def
      split: if_splits option.splits)

lemma shim_main_started:
  assumes "shim_main bin txt stale f g h addr now now' = Inr apps"
  shows "num_apps apps \<le> MAX_APPS \<and> (i < num_apps apps \<longrightarrow> shim_started i (apps_ctxt apps i)) \<and> (\<not> i < num_apps apps \<longrightarrow> apps_ctxt apps i = zero_ctxt)"
proof -
  obtain cfg apps0 where 1: "active_client_init bin txt stale f g h addr now = Inr (cfg, apps0)"
    "install_all now' cfg [0..<cfg_num_apps cfg] apps0 = Inr apps"
    using assms by (auto simp: shim_main_def bind_result_Inr_iff)
  then obtain iset fs where 2: "client_ctxts cfg iset fs addr [0..<cfg_num_apps cfg] (\<lambda>_. zero_ctxt) = Inr (apps_ctxt apps0)"
    "num_apps apps0 = cfg_num_apps cfg" "cfg_num_apps cfg \<le> MAX_APPS"
    by (auto simp: active_client_init_def Let_def bind_result_Inr_iff)
  show ?thesis
    using install_all_spec [OF 1(2), of i] client_ctxts_spec [OF 2(1), of i] 2(2,3)
      client_ctxt_started [of cfg iset fs addr i "apps_ctxt apps0 i" now' "appname (active_apps cfg i)" "apps_ctxt apps i"]
    by auto
qed

text \<open>
  C19: when the shim starts, its applications carry the identifiers 1, 2, ... that replies are matched
  by, so a reply finds exactly its application; each has the handlers and the private state of its
  kind, waits for an allocation, and runs its programs unmutated.  Only a load balancer starts active.
\<close>

theorem shim_main_contexts:
  assumes "shim_main bin txt stale f g h addr now now' = Inr apps" "i < num_apps apps"
  shows "shim_started i (apps_ctxt apps i) \<and> find_ctxt apps (of_nat (Suc i)) = Some i"
proof -
  note started = shim_main_started [OF assms(1)]
  have fid: "ctx_fid (apps_ctxt apps j) = int (Suc j)" if "j < num_apps apps" for j
    using started [of j] that by (simp add: shim_started_def)
  have unat: "unat (of_nat (Suc i) :: u16) = Suc i"
    using started [of i] assms(2) by (simp add: unat_of_nat take_bit_nat_eq_self del: of_nat_Suc)
  let ?is = "filter (\<lambda>j. ctx_fid (apps_ctxt apps j) = int (Suc i)) [0..<num_apps apps]"
  have set: "set ?is = {i}" using assms(2) fid by auto
  then have "?is \<noteq> []" by (metis insert_not_empty list.set(1))
  moreover from this set have "last ?is = i" using last_in_set [of ?is] by simp
  ultimately show ?thesis using started [of i] assms(2) unat by (simp add: find_ctxt_def Let_def del: of_nat_Suc)
qed

text \<open>
  C18: from the start of the shim on, in every interleaving of control thread and packet filters, the
  handlers of an application only ever meet the private state of their own kind.
\<close>

theorem shim_type_safe:
  assumes "shim_main bin txt stale f g h addr now now' = Inr apps" "sys_reach (shim_ops env) cksum to_us to_ms apps s"
  shows "well_tagged (handlers (apps_ctxt (cs_apps s) b)) (app_context (apps_ctxt (cs_apps s) b))"
proof (rule shim_tags.reach_good [OF assms(2)], intro allI)
  fix b
  show "well_tagged (handlers (apps_ctxt apps b)) (app_context (apps_ctxt apps b))"
    using shim_main_started [OF assms(1), of b] by (cases "b < num_apps apps") (auto simp: shim_started_def zero_ctxt_def)
qed


subsection \<open>A configured shim\<close>

definition demo_txt :: "string \<Rightarrow> string option" where
  "demo_txt path =
     (if path = ''apps'' then Some (''5678,cache,get'' @ [CHR 0x0A] @ ''80,lb,get'' @ [CHR 0x0A])
      else if path = ''programs'' then Some (''get,/kv'' @ [CHR 0x0A])
      else if path = ''opcodes'' then Some (''EOF,skip'' @ [CHR 0x0A] @ ''NOP,skip'' @ [CHR 0x0A])
      else if path = ''/kv/get.memidx.csv'' then Some (''0'' @ [CHR 0x0A] @ ''1'' @ [CHR 0x0A])
      else None)"

definition demo_bin :: "string \<Rightarrow> u8 list option" where
  "demo_bin path = (if path = ''/kv/get.apo'' then Some [0, 1, 0, 0] else None)"

definition demo_shim :: "(unit app_data, app_tag) active_apps_t c_result" where
  "demo_shim = shim_main demo_bin demo_txt (\<lambda>_ _. 0) ''apps'' ''programs'' ''opcodes'' 1 2 3"

lemma demo_shim_ok: "is_ok demo_shim \<and> (case demo_shim of Inr apps \<Rightarrow> num_apps apps = 2 | _ \<Rightarrow> False)"
  by code_simp

lemma demo_shim_apps:
  obtains apps where "demo_shim = Inr apps" "num_apps apps = 2"
  using demo_shim_ok by (auto split: sum.splits)

definition demo_shim_env :: "unit shim_env" where
  "demo_shim_env = \<lparr>se_uthash = list_table, se_crc = ucast, se_to_ms = id, se_timed_out = (\<lambda>_. False),
     se_rte_hash = \<lparr>rte_hash_create = Some (), rte_hash_lookup_data = (\<lambda>_ _. None), rte_hash_add_key_data = (\<lambda>h _ _. h)\<rparr>\<rparr>"

theorem shim_main_contexts_witness:
  "\<exists>apps. demo_shim = Inr apps \<and> num_apps apps = 2 \<and> find_ctxt apps 1 = Some 0 \<and> find_ctxt apps 2 = Some 1
    \<and> ctx_fid (apps_ctxt apps 1) = 2 \<and> status (apps_ctxt apps 1) = INITIALIZING"
proof -
  obtain apps where apps: "demo_shim = Inr apps" "num_apps apps = 2" by (rule demo_shim_apps)
  then show ?thesis
    using shim_main_contexts [OF apps(1) [unfolded demo_shim_def], of 0] shim_main_contexts [OF apps(1) [unfolded demo_shim_def], of 1]
    by (intro exI [of _ apps]) (simp add: shim_started_def)
qed

theorem shim_type_safe_witness:
  "\<exists>apps. demo_shim = Inr apps \<and> well_tagged (handlers (apps_ctxt apps 0)) (app_context (apps_ctxt apps 0))"
proof -
  obtain apps where apps: "demo_shim = Inr apps" "num_apps apps = 2" by (rule demo_shim_apps)
  have "sys_reach (shim_ops demo_shim_env) (\<lambda>_ _. 0) id id apps (ctrl_init apps)" by (rule sys_reach.start)
  from shim_type_safe [OF apps(1) [unfolded demo_shim_def] this, of 0] show ?thesis
    using apps by (intro exI [of _ apps]) (simp add: ctrl_init_def)
qed


end
