(* ===== verification/AP4_KV.thy ===== *)
theory AP4_KV
  imports AP4_Shim
begin

text \<open>
  The application logic of the key-value client (\<open>examples/kv_store/app/dpdk/client\<close>: \<open>common.h\<close>,
  \<open>cache.h\<close>, \<open>monitor.h\<close>, the context switches of \<open>main.c\<close>).  One instance runs either as a cache or,
  with other handlers on the same private state, as a monitor that finds frequent keys and then
  turns into a cache.

  The struct of the client starts with the fields of the shim's cache, and \<open>cache.h\<close> repeats the
  shim's \<open>compare_elements_cache\<close>, \<open>memory_consume_cache\<close>, \<open>memory_invalidate_cache\<close> and
  \<open>memory_reset_cache\<close>; they act on the embedded \<open>kc_cache\<close>.  The hit rates, floating-point numbers
  that are only stored, are left out.
\<close>

abbreviation (input) HH_ITVL_MIN_MS :: int where "HH_ITVL_MIN_MS \<equiv> 100"
abbreviation (input) HH_ITVL_MAX_MS :: int where "HH_ITVL_MAX_MS \<equiv> 10000"
abbreviation (input) PID_CACHEREAD :: nat where "PID_CACHEREAD \<equiv> 0"
abbreviation (input) PID_FREQITEM :: nat where "PID_FREQITEM \<equiv> 1"
abbreviation (input) MIN_ITEMS :: nat where "MIN_ITEMS \<equiv> 8192"

subsection \<open>Model: data\<close>

record cache_debug_t =
  cd_addr :: u32
  cd_key :: u64
  cd_key_0 :: u32
  cd_key_1 :: u32
  cd_value :: u32

record kv_context_t =
  kc_cache :: cache_context_t
  kc_debug :: "cache_debug_t list"
  keydist :: "u64 arr"
  distsize :: nat
  current_key_idx :: nat
  kc_ipv4_dstaddr :: u32
  app_port :: u16
  timer_snapshot_trigger :: bool
  timer_deallocate_trigger :: bool
  timer_ctxswtch_trigger :: bool
  monitor_stgid_threshold :: nat
  monitor_stgid_key_0 :: nat
  monitor_stgid_key_1 :: nat
  frequent_item_monitor :: bool
  frequent_items :: "cache_item_t arr"
  num_frequent_items :: nat

text \<open>The libraries: uthash for the two tables, DPDK's CRC and the conversion of cycle counts.\<close>

record kv_env =
  ke_uthash :: uthash
  ke_debug_find :: "u32 \<Rightarrow> cache_debug_t list \<Rightarrow> bool"
  ke_debug_add :: "cache_debug_t \<Rightarrow> cache_debug_t list \<Rightarrow> cache_debug_t list"
  ke_crc :: "u64 \<Rightarrow> u32"
  ke_to_ms :: "u64 \<Rightarrow> u64"

datatype kv_tag = KvCache | KvMonitor

type_synonym kv_ctxt = "(kv_context_t, kv_tag) activep4_context_t"

subsection \<open>Model: cache.h\<close>

text \<open>The word a key is stored at: \<open>memory_size\<close> is converted to \<open>uint32_t\<close> by the remainder.\<close>

definition kv_paddr :: "kv_env \<Rightarrow> cache_context_t \<Rightarrow> u64 \<Rightarrow> u32" where
  "kv_paddr env c key = cc_memory_start c + ke_crc env key mod word_of_int (cc_memory_size c)"

text \<open>
  The two loops of \<open>timer_cache\<close>: over the requested items while there is room (\<open>limited\<close>), and over
  the items found by the monitor.  \<open>num_stored\<close> is unsigned here.
\<close>

fun kv_store_items ::
  "kv_env \<Rightarrow> cache_context_t \<Rightarrow> bool \<Rightarrow> cache_item_t list \<Rightarrow> nat \<Rightarrow> nat set \<Rightarrow> memory_t \<Rightarrow> (nat \<times> memory_t) c_result" where
  "kv_store_items env c limited [] num_stored bloom mem = Inr (num_stored, mem)"
| "kv_store_items env c limited (item # items) num_stored bloom mem =
     (if limited \<and> unat (word_of_int (cc_memory_size c) :: u32) \<le> num_stored then Inr (num_stored, mem)
      else if ci_key item = 0 then Inl AssertFail
      else if (word_of_int (cc_memory_size c) :: u32) = 0 then Inl DivByZero
      else let paddr = kv_paddr env c (ci_key item) in
        if MAX_CACHE_SIZE \<le> unat paddr then Inl OutOfBounds
        else if unat paddr \<in> bloom then kv_store_items env c limited items num_stored bloom mem
        else if MAX_DATA \<le> unat paddr then Inl OutOfBounds
        else kv_store_items env c limited items (Suc num_stored) (insert (unat paddr) bloom)
               (store_item c (item\<lparr>ci_paddr := paddr\<rparr>) mem))"

definition kv_next_interval :: "int \<Rightarrow> int" where
  "kv_next_interval t = (if t < HH_ITVL_MAX_MS * 1000 then min (t * 2) (HH_ITVL_MAX_MS * 1000) else t)"

definition kv_timer_cache :: "kv_env \<Rightarrow> kv_ctxt \<Rightarrow> kv_ctxt c_result" where
  "kv_timer_cache env ctxt =
     (let kc = app_context ctxt;
          items = hash_sort (ke_uthash env) compare_elements_cache (requested_items (kc_cache kc));
          kc = kc\<lparr>kc_cache := (kc_cache kc)\<lparr>requested_items := items\<rparr>\<rparr>;
          r = (if frequent_item_monitor kc
               then kv_store_items env (kc_cache kc) False (map (frequent_items kc) [0..<num_frequent_items kc]) 0 {} zero_memory
               else kv_store_items env (kc_cache kc) True items 0 {} zero_memory) in
      bind_result r (\<lambda>(num_stored, mem).
        let ctxt = ctxt\<lparr>timer_interval_us := kv_next_interval (timer_interval_us ctxt), membuf := mem,
                        allocation := sync_valid_stages (allocation ctxt)\<rparr>
        in Inr (if 0 < num_stored
                then ctxt\<lparr>app_context := kc\<lparr>kc_cache := (kc_cache kc)\<lparr>timer_reset_trigger := 1\<rparr>\<rparr>, status := UPDATING\<rparr>
                else ctxt\<lparr>app_context := kc\<rparr>)))"

definition kv_on_allocation_cache :: "kv_ctxt \<Rightarrow> kv_ctxt" where
  "kv_on_allocation_cache ctxt = ctxt\<lparr>timer_interval_us := HH_ITVL_MIN_MS * 1000\<rparr>"

text \<open>The key distribution: one number per line, into an array of \<open>MAX_CACHE_SIZE\<close> entries.\<close>

fun key_lines :: "string list \<Rightarrow> nat \<Rightarrow> u64 arr \<Rightarrow> (u64 arr \<times> nat) c_result" where
  "key_lines [] n dist = Inr (dist, n)"
| "key_lines (l # ls) n dist =
     (if MAX_CACHE_SIZE \<le> n then Inl OutOfBounds else key_lines ls (Suc n) (dist(n := word_of_int (atoi l))))"

definition read_key_dist :: "string option \<Rightarrow> u64 arr \<Rightarrow> (u64 arr \<times> nat) c_result" where
  "read_key_dist file dist =
     (case file of None \<Rightarrow> Inl AssertFail | Some content \<Rightarrow> key_lines (fgets_all 1023 content) 0 dist)"

text \<open>The arguments of the next request; the keys of the distribution are used in turn.\<close>

definition tx_update_args :: "kv_env \<Rightarrow> kv_context_t \<Rightarrow> activep4_data_t \<Rightarrow> (kv_context_t \<times> activep4_data_t) c_result" where
  "tx_update_args env kc args =
     (if cc_memory_size (kc_cache kc) < 2 then Inr (kc, args)
      else if distsize kc = 0 then Inl DivByZero
      else let key = keydist kc (current_key_idx kc);
               vaddr = ke_crc env key;
               paddr = kv_paddr env (kc_cache kc) key;
               kc = kc\<lparr>current_key_idx := (current_key_idx kc + 1) mod distsize kc,
                       kc_cache := (kc_cache kc)\<lparr>requested_items :=
                         count_request (ke_uthash env) key vaddr paddr (requested_items (kc_cache kc))\<rparr>\<rparr>
           in Inr (kc, args(0 := htonl paddr, 1 := htonl (key_hi key), 2 := htonl (key_lo key))))"

text \<open>
  A reply: misses are remembered in the debug table, then the reply is counted; \<open>rx_check_timer\<close> is
  part of \<open>count_reply\<close>, as in the shim.
\<close>

definition rx_debug :: "kv_env \<Rightarrow> activep4_data_t \<Rightarrow> cache_debug_t list \<Rightarrow> cache_debug_t list" where
  "rx_debug env args dbg =
     (let key_0 = ntohl (args ACTIVE_DEFAULT_ARG_MBR); key_1 = ntohl (args ACTIVE_DEFAULT_ARG_MBR2);
          key = push_bit 32 (ucast key_0) OR ucast key_1 :: u64 in
      if ke_debug_find env (ucast key) dbg then dbg
      else ke_debug_add env \<lparr>cd_addr = ntohl (args ACTIVE_DEFAULT_ARG_MAR), cd_key = key, cd_key_0 = key_0, cd_key_1 = key_1,
             cd_value = ntohl (args ACTIVE_DEFAULT_ARG_RESULT)\<rparr> dbg)"

definition rx_update_state :: "kv_env \<Rightarrow> u64 \<Rightarrow> activep4_data_t option \<Rightarrow> kv_context_t \<Rightarrow> kv_context_t c_result" where
  "rx_update_state env now args kc =
     (case args of
        None \<Rightarrow> Inr kc
      | Some args \<Rightarrow>
          (let hit = ntohl (args ACTIVE_DEFAULT_ARG_RESULT) \<noteq> 0;
               kc = (if hit then kc else kc\<lparr>kc_debug := rx_debug env args (kc_debug kc)\<rparr>)
           in bind_result (count_reply (ke_to_ms env) now hit (kc_cache kc)) (\<lambda>c. Inr (kc\<lparr>kc_cache := c\<rparr>))))"

definition rx_update_state_inactive :: "kv_env \<Rightarrow> u64 \<Rightarrow> kv_context_t \<Rightarrow> kv_context_t c_result" where
  "rx_update_state_inactive env now kc =
     bind_result (count_reply (ke_to_ms env) now False (kc_cache kc)) (\<lambda>c. Inr (kc\<lparr>kc_cache := c\<rparr>))"

text \<open>The handlers \<open>cache.h\<close> has in common with the shim's cache.\<close>

definition kv_memory_consume_cache :: "u64 \<Rightarrow> memory_t \<Rightarrow> kv_context_t \<Rightarrow> kv_context_t c_result" where
  "kv_memory_consume_cache now mem kc = bind_result (memory_consume_cache now mem (kc_cache kc)) (\<lambda>c. Inr (kc\<lparr>kc_cache := c\<rparr>))"

definition kv_memory_invalidate_cache :: "memory_t \<Rightarrow> memory_t \<times> bool" where
  "kv_memory_invalidate_cache mem = memory_invalidate_cache mem"

definition kv_memory_reset_cache :: "memory_t \<Rightarrow> kv_context_t \<Rightarrow> kv_context_t \<times> bool" where
  "kv_memory_reset_cache mem kc = (case memory_reset_cache mem (kc_cache kc) of (c, r) \<Rightarrow> (kc\<lparr>kc_cache := c\<rparr>, r))"

subsection \<open>Model: monitor.h\<close>

text \<open>
  Consuming a snapshot: the words of the threshold stage up to, but not including, \<open>mem_end\<close>.  The
  table of frequent items is allocated anew while its counter keeps running.
\<close>

fun monitor_words :: "kv_env \<Rightarrow> memory_t \<Rightarrow> nat list \<Rightarrow> kv_context_t \<Rightarrow> nat \<Rightarrow> (kv_context_t \<times> nat) c_result" where
  "monitor_words env mem [] kc matched = Inr (kc, matched)"
| "monitor_words env mem (i # is) kc matched =
     (let threshold = ms_data (sync_data mem (monitor_stgid_threshold kc)) i in
      if threshold > 0 then
        (let key_0 = ms_data (sync_data mem (monitor_stgid_key_0 kc)) i;
             key_1 = ms_data (sync_data mem (monitor_stgid_key_1 kc)) i;
             key = push_bit 32 (ucast key_0) OR ucast key_1 :: u64;
             n = num_frequent_items kc in
         if key = 0 then Inl AssertFail
         else if MAX_DATA \<le> n then Inl OutOfBounds
         else monitor_words env mem is
                (kc\<lparr>frequent_items := (frequent_items kc)(n := (frequent_items kc n)\<lparr>ci_key := key, ci_freq := threshold\<rparr>),
                    num_frequent_items := Suc n\<rparr>)
                (if hash_find (ke_uthash env) (ucast key) (requested_items (kc_cache kc)) \<noteq> None then Suc matched else matched))
      else monitor_words env mem is kc matched)"

definition memory_consume_monitor :: "kv_env \<Rightarrow> memory_t \<Rightarrow> kv_context_t \<Rightarrow> kv_context_t c_result" where
  "memory_consume_monitor env mem kc =
     (if timer_snapshot_trigger kc then
        (let st = sync_data mem (monitor_stgid_threshold kc); lo = unat (mem_start st); hi = unat (mem_end st) in
         if lo < hi \<and> MAX_DATA < hi then Inl OutOfBounds
         else bind_result (monitor_words env mem [lo..<hi] (kc\<lparr>frequent_items := (\<lambda>_. zero_item)\<rparr>) 0)
           (\<lambda>(kc, matched). Inr (if MIN_ITEMS \<le> matched
              then kc\<lparr>timer_snapshot_trigger := False, timer_deallocate_trigger := True\<rparr> else kc)))
      else Inr kc)"

definition memory_invalidate_monitor :: "memory_t \<Rightarrow> memory_t \<times> bool" where
  "memory_invalidate_monitor mem = (mem, False)"

text \<open>The third, fourth and fifth valid stage hold thresholds and the two halves of the keys.\<close>

definition memory_reset_monitor :: "memory_t \<Rightarrow> kv_context_t \<Rightarrow> kv_context_t \<times> bool" where
  "memory_reset_monitor mem kc =
     (let is = filter (\<lambda>i. valid_stages mem i \<noteq> 0) [0..<NUM_STAGES];
          kc = kc\<lparr>monitor_stgid_threshold := (if 2 < length is then is ! 2 else monitor_stgid_threshold kc),
                  monitor_stgid_key_1 := (if 3 < length is then is ! 3 else monitor_stgid_key_1 kc),
                  monitor_stgid_key_0 := (if 4 < length is then is ! 4 else monitor_stgid_key_0 kc)\<rparr>;
          s0 = sync_data mem (monitor_stgid_threshold kc); s1 = sync_data mem (monitor_stgid_key_0 kc);
          s2 = sync_data mem (monitor_stgid_key_1 kc);
          lo = max (max (mem_start s0) (mem_start s1)) (mem_start s2);
          hi = min (min (mem_end s0) (mem_end s1)) (mem_end s2)
      in (kc\<lparr>kc_cache := (kc_cache kc)\<lparr>cc_memory_start := lo, cc_memory_size := sint (hi - lo + 1)\<rparr>\<rparr>, False))"

subsection \<open>Model: context switches (main.c) and the monitor's timer\<close>

definition context_switch_cache :: "kv_ctxt \<Rightarrow> kv_ctxt" where
  "context_switch_cache ctxt = ctxt\<lparr>handlers := KvCache, timer_interval_us := HH_ITVL_MIN_MS * 1000, current_pid := PID_CACHEREAD\<rparr>"

text \<open>\<open>memset(demand, DEMAND_HH, ...)\<close> fills bytes: every entry becomes \<open>0x80808080\<close>, a negative \<open>int\<close>.\<close>

definition context_switch_monitor :: "kv_ctxt \<Rightarrow> kv_ctxt" where
  "context_switch_monitor ctxt =
     set_memory_demand_per_stage (ctxt\<lparr>handlers := KvMonitor, current_pid := PID_FREQITEM\<rparr>) (\<lambda>_. sint (0x80808080 :: u32))"

definition set_syncmap :: "nat list \<Rightarrow> memory_t \<Rightarrow> memory_t" where
  "set_syncmap is mem = mem\<lparr>syncmap := (\<lambda>i. if i \<in> set is then 1 else syncmap mem i)\<rparr>"

definition timer_monitor :: "kv_ctxt \<Rightarrow> kv_ctxt c_result" where
  "timer_monitor ctxt =
     (let kc = app_context ctxt in
      if timer_deallocate_trigger kc then
        Inr (ctxt\<lparr>app_context := kc\<lparr>timer_deallocate_trigger := False, timer_ctxswtch_trigger := True\<rparr>,
               status := DEALLOCATING, timer_interval_us := 1000\<rparr>)
      else if timer_ctxswtch_trigger kc then
        (if status ctxt = TRANSMITTING then
           Inr ((context_switch_cache ctxt)\<lparr>app_context := kc\<lparr>timer_ctxswtch_trigger := False\<rparr>,
             allocation := zero_memory\<lparr>mem_fid := word_of_int (ctx_fid ctxt)\<rparr>, membuf := zero_memory, status := INITIALIZING\<rparr>)
         else Inr ctxt)
      else
        Inr (ctxt\<lparr>allocation := set_syncmap [monitor_stgid_threshold kc, monitor_stgid_key_0 kc, monitor_stgid_key_1 kc] (allocation ctxt),
               app_context := kc\<lparr>timer_snapshot_trigger := True\<rparr>, status := SNAPSHOTTING\<rparr>))"

text \<open>The handler tables.  The client builds and parses its packets itself, so the packet handlers are null.\<close>

definition kv_cache_ops :: "kv_env \<Rightarrow> (kv_context_t, kv_tag) app_ops" where
  "kv_cache_ops env =
     \<lparr>op_tx_mux = (\<lambda>b a p. (a, p)), op_tx_handler = (\<lambda>b pos d mem a. Inl AssertFail), op_rx_handler = (\<lambda>now ih args pkt b a. Inl NullDeref),
      op_memory_consume = Some kv_memory_consume_cache,
      op_memory_invalidate = kv_memory_invalidate_cache,
      op_memory_reset = Some kv_memory_reset_cache,
      op_timer = Some (\<lambda>now. kv_timer_cache env),
      op_on_allocation = Some kv_on_allocation_cache\<rparr>"

lemmas kv_cache_ops_defs = kv_cache_ops_def kv_memory_consume_cache_def kv_memory_invalidate_cache_def kv_memory_reset_cache_def

definition kv_monitor_ops :: "kv_env \<Rightarrow> (kv_context_t, kv_tag) app_ops" where
  "kv_monitor_ops env =
     \<lparr>op_tx_mux = (\<lambda>b a p. (a, p)), op_tx_handler = (\<lambda>b pos d mem a. Inl AssertFail), op_rx_handler = (\<lambda>now ih args pkt b a. Inl NullDeref),
      op_memory_consume = Some (\<lambda>now. memory_consume_monitor env),
      op_memory_invalidate = memory_invalidate_monitor,
      op_memory_reset = Some memory_reset_monitor,
      op_timer = Some (\<lambda>now. timer_monitor),
      op_on_allocation = None\<rparr>"

fun kv_ops :: "kv_env \<Rightarrow> kv_tag \<Rightarrow> (kv_context_t, kv_tag) app_ops" where
  "kv_ops env KvCache = kv_cache_ops env"
| "kv_ops env KvMonitor = kv_monitor_ops env"

subsection \<open>Updates are placed in the current region\<close>

text \<open>
  The client recomputes the address of an item when it stores it.  Apart from the order of two
  checks this is the shim's loop on items whose address has been refreshed.
\<close>

definition refreshed :: "kv_env \<Rightarrow> cache_context_t \<Rightarrow> cache_item_t \<Rightarrow> cache_item_t" where
  "refreshed env c it = it\<lparr>ci_paddr := kv_paddr env c (ci_key it)\<rparr>"

lemma refreshed_simps [simp]:
  "ci_paddr (refreshed env c it) = kv_paddr env c (ci_key it)" "ci_key (refreshed env c it) = ci_key it"
  "entry (refreshed env c it) = entry it"
  by (simp_all add: refreshed_def entry_def)

lemma size_word:
  assumes "0 < n" "n < 2 ^ 31"
  shows "unat (word_of_int n :: u32) = nat n" "(word_of_int n :: u32) \<noteq> 0" "(word_of_int n :: u32) = of_nat (nat n)"
proof -
  show w: "(word_of_int n :: u32) = of_nat (nat n)" using assms(1) by simp
  have "nat n < 2 ^ 32" using assms by simp
  then show "unat (word_of_int n :: u32) = nat n" unfolding w by (simp add: unat_of_nat take_bit_nat_eq_self)
  then show "(word_of_int n :: u32) \<noteq> 0" using assms(1) by auto
qed

lemma kv_store_items_refreshed:
  assumes "0 < cc_memory_size c" "cc_memory_size c < 2 ^ 31" "\<forall>it\<in>set items. ci_key it \<noteq> 0"
  shows "kv_store_items env c True items n bloom mem = store_items c (map (refreshed env c) items) n bloom mem"
  using assms(3)
proof (induction items arbitrary: n bloom mem)
  case (Cons it items)
  have "unat (word_of_int (cc_memory_size c) :: u32) \<le> n \<longleftrightarrow> cc_memory_size c \<le> int n"
    using size_word(1) [OF assms(1,2)] assms(1) by linarith
  then show ?case
    using Cons size_word(2) [OF assms(1,2)] by (simp add: Let_def refreshed_def)
qed simp

lemma kv_paddr_region:
  assumes "0 < cc_memory_size c" "unat (cc_memory_start c) + nat (cc_memory_size c) \<le> MAX_DATA"
  shows "unat (kv_paddr env c key) \<in> region c"
proof -
  have "cc_memory_size c < 2 ^ 31" using assms by simp
  from size_word(3) [OF assms(1) this] show ?thesis
    using mod_in_region [of "nat (cc_memory_size c)" "cc_memory_start c" "ke_crc env key"] assms by (simp add: kv_paddr_def region_def)
qed

text \<open>
  C12: as a cache, the client's timer prepares, for every word that some requested key maps to in the
  current region, the entry of the most frequently requested of these keys, and nothing elsewhere -
  wherever the keys were stored before.  It asks for the update exactly when there is an entry, and
  its interval doubles up to ten seconds.
\<close>

theorem kv_update_correct:
  assumes "uthash_sorts (ke_uthash env)" "\<not> frequent_item_monitor (app_context ctxt)" "c = kc_cache (app_context ctxt)"
    and "distinct [stage_id_key_0 c, stage_id_key_1 c, stage_id_value c]"
    and "0 < cc_memory_size c" "unat (cc_memory_start c) + nat (cc_memory_size c) \<le> MAX_DATA"
    and "\<forall>it\<in>set (requested_items c). ci_key it \<noteq> 0 \<and> unat (ci_freq it) < 2 ^ 31"
  shows "\<exists>ctxt'. kv_timer_cache env ctxt = Inr ctxt'
    \<and> status ctxt' = (if requested_items c = [] then status ctxt else UPDATING)
    \<and> (requested_items c \<noteq> [] \<longrightarrow> timer_reset_trigger (kc_cache (app_context ctxt')) = 1)
    \<and> timer_interval_us ctxt' = (if timer_interval_us ctxt < 10000000 then min (2 * timer_interval_us ctxt) 10000000 else timer_interval_us ctxt)
    \<and> (\<forall>p. p \<notin> (\<lambda>it. unat (kv_paddr env c (ci_key it))) ` set (requested_items c) \<longrightarrow> slots c (membuf ctxt') p = (0, 0, 0))
    \<and> (\<forall>it\<in>set (requested_items c). unat (kv_paddr env c (ci_key it)) \<in> region c \<and> (\<exists>best\<in>set (requested_items c).
         kv_paddr env c (ci_key best) = kv_paddr env c (ci_key it) \<and> slots c (membuf ctxt') (unat (kv_paddr env c (ci_key it))) = entry best
         \<and> (\<forall>it'\<in>set (requested_items c). kv_paddr env c (ci_key it') = kv_paddr env c (ci_key it) \<longrightarrow> ci_freq it' \<le> ci_freq best)))"
proof -
  let ?r = "requested_items c" and ?a = "\<lambda>it. unat (kv_paddr env c (ci_key it))"
  let ?items = "hash_sort (ke_uthash env) compare_elements_cache ?r"
  let ?c = "c\<lparr>requested_items := ?items\<rparr>"
  have freq: "\<forall>it\<in>set ?r. unat (ci_freq it) < 2 ^ 31" using assms(7) by blast
  note sorted = sorted_requests [OF assms(1) freq]
  then have items: "set ?items = set ?r" by (metis set_mset_mset)
  have reg: "region ?c = region c" and addr: "kv_paddr env ?c = kv_paddr env c" by (simp_all add: region_def kv_paddr_def fun_eq_iff)
  have in_reg: "?a it \<in> region c" for it by (rule kv_paddr_region [OF assms(5,6)])
  have "region ?c \<subseteq> {..<MAX_DATA}" using assms(6) by (auto simp: reg region_def)
  then obtain mem where m: "store_items ?c (map (refreshed env ?c) ?items) 0 {} zero_memory = Inr (card (?a ` set ?r), mem)"
    "\<forall>p. slots ?c mem p = (case find (\<lambda>it. unat (ci_paddr it) = p) (map (refreshed env ?c) ?items) of
       None \<Rightarrow> slots ?c zero_memory p | Some it \<Rightarrow> entry it)"
    using store_items_spec [of ?c "map (refreshed env ?c) ?items" "{}" 0 zero_memory] assms(4,7) in_reg
    unfolding reg by (auto simp: items image_image addr)
  have find: "find (\<lambda>it. unat (ci_paddr it) = p) (map (refreshed env ?c) xs) = map_option (refreshed env ?c) (find (\<lambda>it. ?a it = p) xs)" for p xs
    by (induction xs) (simp_all add: addr)
  have sl: "\<forall>p. slots c mem p = (case find (\<lambda>it. ?a it = p) ?items of None \<Rightarrow> (0, 0, 0) | Some it \<Rightarrow> entry it)"
    using m(2) by (simp add: find option.case_eq_if option.map_sel)
  have "0 < cc_memory_size ?c" "cc_memory_size ?c < 2 ^ 31" "\<forall>it\<in>set ?items. ci_key it \<noteq> 0"
    using assms(5-7) items by auto
  note store = kv_store_items_refreshed [OF this, of env 0 "{}" zero_memory, unfolded m(1)]
  have "\<exists>ctxt'. kv_timer_cache env ctxt = Inr ctxt' \<and> membuf ctxt' = mem
      \<and> status ctxt' = (if ?r = [] then status ctxt else UPDATING)
      \<and> (?r \<noteq> [] \<longrightarrow> timer_reset_trigger (kc_cache (app_context ctxt')) = 1) \<and> timer_interval_us ctxt' = kv_next_interval (timer_interval_us ctxt)"
    using store assms(2,3) by (simp add: kv_timer_cache_def Let_def card_gt_0_iff)
  then show ?thesis
    using stored_best [OF sorted freq sl, unfolded word_unat_eq_iff [symmetric]] in_reg
    by (auto simp: kv_next_interval_def mult.commute)
qed

subsection \<open>Requests\<close>

fun kv_requests :: "kv_env \<Rightarrow> nat \<Rightarrow> kv_context_t \<Rightarrow> (kv_context_t \<times> activep4_data_t list) c_result" where
  "kv_requests env 0 kc = Inr (kc, [])"
| "kv_requests env (Suc n) kc =
     bind_result (tx_update_args env kc (\<lambda>_. 0)) (\<lambda>(kc, args).
     bind_result (kv_requests env n kc) (\<lambda>(kc, rest). Inr (kc, args # rest)))"

definition request_key :: "activep4_data_t \<Rightarrow> u64" where
  "request_key args = push_bit 32 (ucast (ntohl (args ACTIVE_DEFAULT_ARG_MBR))) OR ucast (ntohl (args ACTIVE_DEFAULT_ARG_MBR2))"

lemma tx_update_args_ok:
  assumes "2 \<le> cc_memory_size (kc_cache kc)" "unat (cc_memory_start (kc_cache kc)) + nat (cc_memory_size (kc_cache kc)) \<le> MAX_DATA"
    and "0 < distsize kc"
  shows "\<exists>kc' args. tx_update_args env kc (\<lambda>_. 0) = Inr (kc', args) \<and> request_key args = keydist kc (current_key_idx kc)
    \<and> unat (ntohl (args ACTIVE_DEFAULT_ARG_MAR)) \<in> region (kc_cache kc)
    \<and> current_key_idx kc' = (current_key_idx kc + 1) mod distsize kc \<and> distsize kc' = distsize kc \<and> keydist kc' = keydist kc
    \<and> cc_memory_start (kc_cache kc') = cc_memory_start (kc_cache kc) \<and> cc_memory_size (kc_cache kc') = cc_memory_size (kc_cache kc)"
  using assms kv_paddr_region [of "kc_cache kc" env "keydist kc (current_key_idx kc)"]
  by (simp add: tx_update_args_def Let_def request_key_def key_halves)

text \<open>
  Once a region of at least two words is allocated, any number of requests can be built; they
  carry the keys of the distribution in order, starting over at its end, and each addresses a word
  of the region.
\<close>

theorem kv_requests_cycle:
  assumes "2 \<le> cc_memory_size (kc_cache kc)" "unat (cc_memory_start (kc_cache kc)) + nat (cc_memory_size (kc_cache kc)) \<le> MAX_DATA"
    and "current_key_idx kc < distsize kc"
  shows "\<exists>kc' reqs. kv_requests env n kc = Inr (kc', reqs) \<and> length reqs = n
    \<and> current_key_idx kc' = (current_key_idx kc + n) mod distsize kc
    \<and> (\<forall>i<n. request_key (reqs ! i) = keydist kc ((current_key_idx kc + i) mod distsize kc)
         \<and> unat (ntohl ((reqs ! i) ACTIVE_DEFAULT_ARG_MAR)) \<in> region (kc_cache kc))"
  using assms
proof (induction n arbitrary: kc)
  case 0
  then show ?case by simp
next
  case (Suc n)
  obtain kc1 args where 1: "tx_update_args env kc (\<lambda>_. 0) = Inr (kc1, args)" "request_key args = keydist kc (current_key_idx kc)"
    "unat (ntohl (args ACTIVE_DEFAULT_ARG_MAR)) \<in> region (kc_cache kc)" "current_key_idx kc1 = (current_key_idx kc + 1) mod distsize kc"
    "distsize kc1 = distsize kc" "keydist kc1 = keydist kc" "cc_memory_start (kc_cache kc1) = cc_memory_start (kc_cache kc)"
    "cc_memory_size (kc_cache kc1) = cc_memory_size (kc_cache kc)"
    using tx_update_args_ok [OF Suc.prems(1,2), of env] Suc.prems(3) by auto
  have reg: "region (kc_cache kc1) = region (kc_cache kc)" using 1 by (simp add: region_def)
  obtain kc' reqs where 2: "kv_requests env n kc1 = Inr (kc', reqs)" "length reqs = n"
    "current_key_idx kc' = (current_key_idx kc + 1 + n) mod distsize kc"
    "\<forall>i<n. request_key (reqs ! i) = keydist kc ((current_key_idx kc + 1 + i) mod distsize kc)
       \<and> unat (ntohl ((reqs ! i) ACTIVE_DEFAULT_ARG_MAR)) \<in> region (kc_cache kc)"
    using Suc.IH [of kc1] Suc.prems 1 reg by (auto simp: mod_add_left_eq)
  have "request_key ((args # reqs) ! i) = keydist kc ((current_key_idx kc + i) mod distsize kc)
      \<and> unat (ntohl (((args # reqs) ! i) ACTIVE_DEFAULT_ARG_MAR)) \<in> region (kc_cache kc)" if "i < Suc n" for i
    using that 1(2,3) 2(4) Suc.prems(3) by (cases i) auto
  then show ?case using 1(1) 2 by simp
qed

subsection \<open>The monitor\<close>

definition monitor_key :: "kv_context_t \<Rightarrow> memory_t \<Rightarrow> nat \<Rightarrow> u64" where
  "monitor_key kc mem i = push_bit 32 (ucast (ms_data (sync_data mem (monitor_stgid_key_0 kc)) i))
     OR ucast (ms_data (sync_data mem (monitor_stgid_key_1 kc)) i)"

definition monitor_count :: "kv_context_t \<Rightarrow> memory_t \<Rightarrow> nat \<Rightarrow> u32" where
  "monitor_count kc mem i = ms_data (sync_data mem (monitor_stgid_threshold kc)) i"

lemma monitor_words_spec:
  assumes "\<forall>i\<in>set is. monitor_count kc mem i > 0 \<longrightarrow> monitor_key kc mem i \<noteq> 0"
    and "num_frequent_items kc + length (filter (\<lambda>i. monitor_count kc mem i > 0) is) \<le> MAX_DATA"
  shows "\<exists>kc' m'. monitor_words env mem is kc m = Inr (kc', m')
    \<and> num_frequent_items kc' = num_frequent_items kc + length (filter (\<lambda>i. monitor_count kc mem i > 0) is)
    \<and> (\<forall>j<num_frequent_items kc. frequent_items kc' j = frequent_items kc j)
    \<and> map (\<lambda>j. (ci_key (frequent_items kc' j), ci_freq (frequent_items kc' j))) [num_frequent_items kc..<num_frequent_items kc']
        = map (\<lambda>i. (monitor_key kc mem i, monitor_count kc mem i)) (filter (\<lambda>i. monitor_count kc mem i > 0) is)
    \<and> frequent_item_monitor kc' = frequent_item_monitor kc \<and> kc_cache kc' = kc_cache kc"
  using assms
proof (induction "is" arbitrary: kc m)
  case (Cons i "is")
  show ?case
  proof (cases "monitor_count kc mem i > 0")
    case False
    then show ?thesis using Cons by (simp add: monitor_count_def Let_def)
  next
    case True
    let ?n = "num_frequent_items kc"
    let ?kc = "kc\<lparr>frequent_items := (frequent_items kc)(?n := (frequent_items kc ?n)\<lparr>ci_key := monitor_key kc mem i, ci_freq := monitor_count kc mem i\<rparr>),
      num_frequent_items := Suc ?n\<rparr>"
    have same: "monitor_key ?kc = monitor_key kc" "monitor_count ?kc = monitor_count kc"
      by (simp_all add: monitor_key_def monitor_count_def fun_eq_iff)
    have "monitor_key kc mem i \<noteq> 0" "?n < MAX_DATA" using Cons.prems True by auto
    then have step: "\<exists>m1. monitor_words env mem (i # is) kc m = monitor_words env mem is ?kc m1"
      using True by (auto simp: monitor_count_def monitor_key_def Let_def)
    then obtain m1 where m1: "monitor_words env mem (i # is) kc m = monitor_words env mem is ?kc m1" ..
    obtain kc' m' where IH: "monitor_words env mem is ?kc m1 = Inr (kc', m')"
      "num_frequent_items kc' = Suc ?n + length (filter (\<lambda>i. monitor_count kc mem i > 0) is)"
      "\<forall>j<Suc ?n. frequent_items kc' j = frequent_items ?kc j"
      "map (\<lambda>j. (ci_key (frequent_items kc' j), ci_freq (frequent_items kc' j))) [Suc ?n..<num_frequent_items kc']
        = map (\<lambda>i. (monitor_key kc mem i, monitor_count kc mem i)) (filter (\<lambda>i. monitor_count kc mem i > 0) is)"
      "frequent_item_monitor kc' = frequent_item_monitor kc" "kc_cache kc' = kc_cache kc"
      using Cons.IH [of ?kc m1] Cons.prems True unfolding same by auto
    have "frequent_items kc' ?n = (frequent_items kc ?n)\<lparr>ci_key := monitor_key kc mem i, ci_freq := monitor_count kc mem i\<rparr>"
      using IH(3) by simp
    moreover have "[?n..<num_frequent_items kc'] = ?n # [Suc ?n..<num_frequent_items kc']" by (intro upt_conv_Cons) (use IH(2) in simp)
    ultimately show ?thesis
      using m1 IH True by auto
  qed
qed simp

text \<open>
  The first snapshot the monitor consumes yields exactly the keys with a non-zero counter, in
  order of address and with their counters, from the region without its last word.
\<close>

theorem monitor_items_recorded:
  assumes "timer_snapshot_trigger kc" "num_frequent_items kc = 0"
    and "is = filter (\<lambda>i. monitor_count kc mem i > 0)
      [unat (mem_start (sync_data mem (monitor_stgid_threshold kc)))..<unat (mem_end (sync_data mem (monitor_stgid_threshold kc)))]"
    and "unat (mem_end (sync_data mem (monitor_stgid_threshold kc))) \<le> MAX_DATA" "\<forall>i\<in>set is. monitor_key kc mem i \<noteq> 0"
  shows "\<exists>kc'. memory_consume_monitor env mem kc = Inr kc' \<and> num_frequent_items kc' = length is
    \<and> (\<forall>j<length is. ci_key (frequent_items kc' j) = monitor_key kc mem (is ! j) \<and> ci_freq (frequent_items kc' j) = monitor_count kc mem (is ! j))"
proof -
  let ?kc = "kc\<lparr>frequent_items := (\<lambda>_. zero_item)\<rparr>"
  let ?w = "[unat (mem_start (sync_data mem (monitor_stgid_threshold kc)))..<unat (mem_end (sync_data mem (monitor_stgid_threshold kc)))]"
  have same: "monitor_key ?kc = monitor_key kc" "monitor_count ?kc = monitor_count kc"
    by (simp_all add: monitor_key_def monitor_count_def fun_eq_iff)
  have "length is \<le> MAX_DATA" using length_filter_le [of _ ?w] assms(3,4) by (metis diff_le_self le_trans length_upt)
  then obtain kc' m' where w: "monitor_words env mem ?w ?kc 0 = Inr (kc', m')" "num_frequent_items kc' = length is"
    "map (\<lambda>j. (ci_key (frequent_items kc' j), ci_freq (frequent_items kc' j))) [0..<length is] = map (\<lambda>i. (monitor_key kc mem i, monitor_count kc mem i)) is"
    using monitor_words_spec [of ?w ?kc mem env 0] assms(2,3,5) unfolding same by auto
  have "ci_key (frequent_items kc' j) = monitor_key kc mem (is ! j) \<and> ci_freq (frequent_items kc' j) = monitor_count kc mem (is ! j)"
    if "j < length is" for j
    using arg_cong [OF w(3), of "\<lambda>xs. xs ! j"] that by simp
  with w(1,2) assms(1,4) show ?thesis
    by (auto simp: memory_consume_monitor_def Let_def)
qed

text \<open>
  C31: the counter of frequent items is not reset when their table is allocated anew.  After a second
  snapshot the table starts with empty entries, and the assertion on the key aborts the process
  when the items are to be written to the cache.
\<close>

theorem monitor_second_snapshot_asserts:
  assumes "timer_snapshot_trigger kc" "0 < num_frequent_items kc" "frequent_item_monitor kc" "memory_consume_monitor env mem kc = Inr kc'"
    and "\<forall>i\<in>set [unat (mem_start (sync_data mem (monitor_stgid_threshold kc)))..<unat (mem_end (sync_data mem (monitor_stgid_threshold kc)))].
      monitor_count kc mem i > 0 \<longrightarrow> monitor_key kc mem i \<noteq> 0"
    and "num_frequent_items kc + unat (mem_end (sync_data mem (monitor_stgid_threshold kc))) \<le> MAX_DATA" "app_context ctxt = kc'"
  shows "kv_timer_cache env ctxt = Inl AssertFail"
proof -
  let ?kc = "kc\<lparr>frequent_items := (\<lambda>_. zero_item)\<rparr>"
  let ?w = "[unat (mem_start (sync_data mem (monitor_stgid_threshold kc)))..<unat (mem_end (sync_data mem (monitor_stgid_threshold kc)))]"
  have same: "monitor_key ?kc = monitor_key kc" "monitor_count ?kc = monitor_count kc"
    by (simp_all add: monitor_key_def monitor_count_def fun_eq_iff)
  have "length (filter (\<lambda>i. monitor_count kc mem i > 0) ?w) \<le> unat (mem_end (sync_data mem (monitor_stgid_threshold kc)))"
    using length_filter_le [of _ ?w] by (metis diff_le_self le_trans length_upt)
  then have "num_frequent_items ?kc + length (filter (\<lambda>i. monitor_count kc mem i > 0) ?w) \<le> MAX_DATA"
    using assms(6) by simp
  then obtain kc1 m' where w: "monitor_words env mem ?w ?kc 0 = Inr (kc1, m')" "num_frequent_items kc \<le> num_frequent_items kc1"
    "\<forall>j<num_frequent_items kc. frequent_items kc1 j = zero_item" "frequent_item_monitor kc1"
    using monitor_words_spec [of ?w ?kc mem env 0] assms(3,5) unfolding same by auto
  have kc': "frequent_item_monitor kc'" "frequent_items kc' 0 = zero_item" "0 < num_frequent_items kc'"
    using assms(1,2,4) w by (auto simp: memory_consume_monitor_def Let_def split: if_splits)
  then have "[0..<num_frequent_items kc'] = 0 # [1..<num_frequent_items kc']" by (simp add: upt_conv_Cons)
  then show ?thesis
    using kc' assms(7) by (simp add: kv_timer_cache_def Let_def zero_item_def)
qed

text \<open>
  The fill pattern of \<open>context_switch_monitor\<close> makes the demand of every access negative, so the
  request for a fixed demand of 128 blocks is taken for an elastic one.
\<close>

lemma context_switch_monitor_elastic:
  "is_elastic (context_switch_monitor ctxt)"
  "i < num_accesses (programs ctxt PID_FREQITEM) \<Longrightarrow> demand (programs (context_switch_monitor ctxt) PID_FREQITEM) i = - 2139062144"
  by (simp_all add: context_switch_monitor_def set_memory_demand_per_stage_def update_current_program_def)


subsection \<open>Example instance\<close>

definition demo_kv_env :: kv_env where
  "demo_kv_env = \<lparr>ke_uthash = list_table, ke_debug_find = (\<lambda>k dbg. \<exists>d\<in>set dbg. ucast (cd_key d) = k), ke_debug_add = (\<lambda>d dbg. dbg @ [d]),
     ke_crc = ucast, ke_to_ms = id\<rparr>"

definition zero_kv :: kv_context_t where
  "zero_kv = \<lparr>kc_cache = zero_cache, kc_debug = [], keydist = (\<lambda>_. 0), distsize = 0, current_key_idx = 0, kc_ipv4_dstaddr = 0, app_port = 0,
     timer_snapshot_trigger = False, timer_deallocate_trigger = False, timer_ctxswtch_trigger = False, monitor_stgid_threshold = 0,
     monitor_stgid_key_0 = 0, monitor_stgid_key_1 = 0, frequent_item_monitor = False, frequent_items = (\<lambda>_. zero_item), num_frequent_items = 0\<rparr>"

definition demo_kv :: kv_context_t where
  "demo_kv = zero_kv\<lparr>kc_cache := demo_cache, keydist := (\<lambda>i. of_nat (i + 5)), distsize := 2\<rparr>"

text \<open>All fields of an instance at their zero values, as allocated by \<open>main\<close>.\<close>

definition zero_kv_ctxt :: kv_ctxt where
  "zero_kv_ctxt = \<lparr>ctx_id = 0, ctx_fid = 0, active_tx_enabled = False, active_heartbeat_enabled = False, is_active = False,
     status = TRANSMITTING, active_timer_enabled = False, ctrl_ts_lastsent = 0, ctrl_timer_lasttick = 0, telemetry = zero_telemetry,
     instr_set = zero_instr_set, programs = (\<lambda>_. zero_def), num_programs = 0, current_pid = 0, allocation = zero_memory,
     membuf = zero_memory, is_elastic = False, ctx_data = (\<lambda>_. 0), ipv4_srcaddr = 0, app_context = zero_kv, timer_interval_us = 0,
     handlers = KvCache\<rparr>"

theorem kv_update_correct_witness:
  "\<exists>ctxt'. kv_timer_cache demo_kv_env (zero_kv_ctxt\<lparr>app_context := demo_kv\<rparr>) = Inr ctxt' \<and> status ctxt' = UPDATING
    \<and> slots demo_cache (membuf ctxt') 7 = (0, 7, 1)"
proof -
  let ?c = "zero_kv_ctxt\<lparr>app_context := demo_kv\<rparr>"
  let ?a = "zero_item\<lparr>ci_key := 7, ci_paddr := 3, ci_freq := 1\<rparr>" and ?b = "zero_item\<lparr>ci_key := 8, ci_paddr := 3, ci_freq := 5\<rparr>"
  have r: "requested_items demo_cache = [?a, ?b]" by (simp add: demo_cache_def)
  have p: "kv_paddr demo_kv_env demo_cache 7 = 7" "kv_paddr demo_kv_env demo_cache 8 = 8"
    by (simp_all add: kv_paddr_def demo_kv_env_def demo_cache_def zero_cache_def)
  have h: "uthash_sorts (ke_uthash demo_kv_env)" "\<not> frequent_item_monitor (app_context ?c)" "demo_cache = kc_cache (app_context ?c)"
    "distinct [stage_id_key_0 demo_cache, stage_id_key_1 demo_cache, stage_id_value demo_cache]"
    "0 < cc_memory_size demo_cache" "unat (cc_memory_start demo_cache) + nat (cc_memory_size demo_cache) \<le> MAX_DATA"
    "\<forall>it\<in>set (requested_items demo_cache). ci_key it \<noteq> 0 \<and> unat (ci_freq it) < 2 ^ 31"
    using list_table_sorts by (simp_all add: demo_kv_env_def demo_kv_def zero_kv_def demo_cache_def zero_cache_def zero_item_def)
  from kv_update_correct [OF h] show ?thesis
    unfolding r by (auto simp: zero_item_def p entry_def key_hi_def key_lo_def)
qed

theorem kv_requests_cycle_witness:
  "\<exists>kc' reqs. kv_requests demo_kv_env 3 demo_kv = Inr (kc', reqs) \<and> length reqs = 3 \<and> request_key (reqs ! 2) = 5"
  using kv_requests_cycle [of demo_kv demo_kv_env 3]
  by (auto simp: demo_kv_def zero_kv_def demo_cache_def zero_cache_def)

definition demo_monitor_mem :: memory_t where
  "demo_monitor_mem = zero_memory\<lparr>sync_data := (\<lambda>i. zero_stage\<lparr>mem_end := 4, ms_data := (\<lambda>j. if j = 2 then of_nat (i + 1) else 0)\<rparr>)\<rparr>"

definition demo_monitor :: kv_context_t where
  "demo_monitor = zero_kv\<lparr>timer_snapshot_trigger := True, frequent_item_monitor := True, monitor_stgid_threshold := 3, monitor_stgid_key_0 := 5,
     monitor_stgid_key_1 := 4\<rparr>"

lemma demo_monitor_simps:
  "monitor_count demo_monitor demo_monitor_mem i = (if i = 2 then 4 else 0)"
  "monitor_key demo_monitor demo_monitor_mem 2 = push_bit 32 6 OR 5" "monitor_stgid_threshold demo_monitor = 3"
  "mem_start (sync_data demo_monitor_mem 3) = 0" "mem_end (sync_data demo_monitor_mem 3) = 4" "[0..<4] = [0, 1, 2, 3::nat]"
  by (simp_all add: monitor_count_def monitor_key_def demo_monitor_def demo_monitor_mem_def zero_kv_def zero_stage_def upt_rec)

theorem monitor_items_recorded_witness:
  "\<exists>kc'. memory_consume_monitor demo_kv_env demo_monitor_mem demo_monitor = Inr kc' \<and> num_frequent_items kc' = 1
    \<and> ci_freq (frequent_items kc' 0) = 4"
  using monitor_items_recorded [of demo_monitor "[2]" demo_monitor_mem demo_kv_env]
  by (auto simp: demo_monitor_simps) (auto simp: demo_monitor_def zero_kv_def)

text \<open>A monitor that has already recorded an item: the next snapshot makes the cache timer abort.\<close>

theorem monitor_second_snapshot_asserts_witness:
  "\<exists>kc'. memory_consume_monitor demo_kv_env zero_memory (demo_monitor\<lparr>num_frequent_items := 1\<rparr>) = Inr kc'
    \<and> kv_timer_cache demo_kv_env (zero_kv_ctxt\<lparr>app_context := kc'\<rparr>) = Inl AssertFail"
proof -
  let ?kc = "demo_monitor\<lparr>num_frequent_items := 1\<rparr>"
  obtain kc' where c: "memory_consume_monitor demo_kv_env zero_memory ?kc = Inr kc'"
    by (simp add: memory_consume_monitor_def demo_monitor_def zero_kv_def zero_memory_def zero_stage_def Let_def)
  show ?thesis
    using monitor_second_snapshot_asserts [OF _ _ _ c, of "zero_kv_ctxt\<lparr>app_context := kc'\<rparr>"] c
    by (simp add: demo_monitor_def zero_kv_def zero_memory_def zero_stage_def)
qed


end
