(* ===== verification/AP4_KvNet.thy ===== *)
theory AP4_KvNet
  imports AP4_KV AP4_Request
begin

text \<open>
  The threads of the key-value client (\<open>control.h\<close>, \<open>rx.h\<close>, \<open>tx.h\<close>, \<open>main.c\<close> of
  \<open>examples/kv_store/app/dpdk/client\<close>): its control thread, which also knows how to give memory back,
  its receiver, the generator of requests, the start of the process, and the interleaving of all.

  The control thread is the runtime's thread with two more cases, and the receiver reuses the
  handling of allocations, snapshots and write acknowledgements of the runtime's filter; their code
  is repeated literally in the client.
\<close>

abbreviation (input) PORT_START :: nat where "PORT_START \<equiv> 5678"
abbreviation (input) NUM_ACTIVE_PROGRAMS :: nat where "NUM_ACTIVE_PROGRAMS \<equiv> 2"
abbreviation (input) APP_IPV4_ADDR :: u32 where "APP_IPV4_ADDR \<equiv> 0x0100000a"
abbreviation (input) APP_IPV4_DSTADDR :: u32 where "APP_IPV4_DSTADDR \<equiv> 0x0100000a"

type_synonym kv_apps = "(kv_context_t, kv_tag) active_apps_t"
type_synonym kv_state = "(kv_context_t, kv_tag) ctrl_state"

subsection \<open>Model: control.h\<close>

definition kv_poll_deallocating :: "cksum_fn \<Rightarrow> ctrl_env \<Rightarrow> u64 \<Rightarrow> kv_ctxt \<Rightarrow> (kv_ctxt \<times> mbuf list) c_result" where
  "kv_poll_deallocating cksum env now ctxt =
     (case env_mbuf env of
        None \<Rightarrow> Inr (ctxt, [])
      | Some m \<Rightarrow> bind_result (construct_dealloc_packet cksum (env_mac env) m ctxt)
          (\<lambda>m. Inr (telemetry_allocation_start (env_now env) (ctxt\<lparr>ctrl_ts_lastsent := now\<rparr>), [m])))"

definition kv_poll_app :: "kv_env \<Rightarrow> cksum_fn \<Rightarrow> (u64 \<Rightarrow> u64) \<Rightarrow> ctrl_env \<Rightarrow> nat \<Rightarrow> kv_state \<Rightarrow> kv_state c_result" where
  "kv_poll_app kv cksum to_us env a s =
     (let ctxt = apps_ctxt (cs_apps s) a; now = cs_now s;
          elapsed_us = to_us (now - ctrl_ts_lastsent ctxt);
          skip = Inr (s\<lparr>cs_pc := Poll (Suc a)\<rparr>) in
      if \<not> is_active ctxt then skip
      else case status ctxt of
          DEALLOCATING \<Rightarrow> if elapsed_us < CTRL_SEND_INTVL_US then skip
             else finish_poll a s (kv_poll_deallocating cksum env now ctxt)
        | DEALLOCWAIT \<Rightarrow> if elapsed_us < CTRL_SEND_INTVL_US then skip
             else finish_poll a s (poll_allocating cksum env now ctxt)
        | _ \<Rightarrow> poll_app (kv_ops kv) cksum to_us env a s)"

definition kv_ctrl_step :: "kv_env \<Rightarrow> cksum_fn \<Rightarrow> (u64 \<Rightarrow> u64) \<Rightarrow> ctrl_env \<Rightarrow> kv_state \<Rightarrow> kv_state c_result" where
  "kv_ctrl_step kv cksum to_us env s =
     (case cs_pc s of
        PassStart \<Rightarrow> Inr (if env_running env then s\<lparr>cs_now := env_now env, cs_pc := Poll 0\<rparr> else s\<lparr>cs_pc := Halted\<rparr>)
      | Poll a \<Rightarrow> if a < num_apps (cs_apps s) then kv_poll_app kv cksum to_us env a s else Inr (s\<lparr>cs_pc := PassStart\<rparr>)
      | Scan k a flag i w \<Rightarrow> scan_step (kv_ops kv) cksum env k a flag i w s
      | Halted \<Rightarrow> Inr s)"

subsection \<open>Model: rx.h\<close>

definition kv_rx_deliver :: "kv_env \<Rightarrow> u64 \<Rightarrow> u16 \<Rightarrow> buffer \<Rightarrow> kv_ctxt \<Rightarrow> kv_ctxt c_result" where
  "kv_rx_deliver kv now flags b ctxt =
     (if flags OR allowed_flags_rx_handler = allowed_flags_rx_handler \<and> TEST_FLAG flags AP4FLAGMASK_FLAG_EOE then
        bind_result (rx_update_state kv now
            (if TEST_FLAG flags AP4FLAGMASK_OPT_ARGS then Some (\<lambda>i. load32 b (24 + 4 * i)) else None) (app_context ctxt))
          (\<lambda>kc. Inr (ctxt\<lparr>app_context := kc\<rparr>))
      else Inr ctxt)"

definition kv_rx_dispatch :: "kv_env \<Rightarrow> u64 \<Rightarrow> u16 \<Rightarrow> u16 \<Rightarrow> buffer \<Rightarrow> kv_ctxt \<Rightarrow> kv_ctxt c_result" where
  "kv_rx_dispatch kv now flags seq b ctxt =
     (case status ctxt of
        INITIALIZING \<Rightarrow> Inr (if TEST_FLAG flags AP4FLAGMASK_FLAG_REQALLOC then ctxt\<lparr>status := ALLOCATING\<rparr> else ctxt)
      | DEALLOCATING \<Rightarrow> Inr (if TEST_FLAG flags AP4FLAGMASK_FLAG_REQALLOC then ctxt\<lparr>status := DEALLOCWAIT\<rparr> else ctxt)
      | DEALLOCWAIT \<Rightarrow> Inr (if \<not> TEST_FLAG flags AP4FLAGMASK_FLAG_ALLOCATED then ctxt\<lparr>status := TRANSMITTING\<rparr> else ctxt)
      | REALLOCATING \<Rightarrow> rx_allocated (kv_ops kv) now b flags seq ctxt
      | ALLOCATING \<Rightarrow> rx_allocated (kv_ops kv) now b flags seq ctxt
      | SNAPSHOTTING \<Rightarrow> rx_snapshot b flags ctxt
      | REMAPPING \<Rightarrow> rx_write_ack b flags ctxt
      | UPDATING \<Rightarrow> bind_result (rx_write_ack b flags ctxt) (\<lambda>ctxt. kv_rx_deliver kv now flags b (rx_remap_start flags seq ctxt))
      | TRANSMITTING \<Rightarrow> kv_rx_deliver kv now flags b (rx_remap_start flags seq ctxt)
      | _ \<Rightarrow> Inr ctxt)"

text \<open>A plain UDP reply belongs to the first instance that uses its port.\<close>

definition find_port :: "kv_apps \<Rightarrow> u16 \<Rightarrow> nat option" where
  "find_port apps dport = find (\<lambda>i. dport = app_port (app_context (apps_ctxt apps i))) [0..<num_apps apps]"

definition kv_rx_packet :: "kv_env \<Rightarrow> u64 \<Rightarrow> kv_apps \<Rightarrow> mbuf \<Rightarrow> kv_apps c_result" where
  "kv_rx_packet kv now apps m =
     (let b = mb_data m; ty = ntohs (load16 b 12) in
      if ty = RTE_ETHER_TYPE_IPV4 then
        (if load8 b 23 = IPPROTO_UDP then
           (case find_port apps (ntohs (load16 b 36)) of
              None \<Rightarrow> Inr apps
            | Some i \<Rightarrow> bind_result (rx_update_state_inactive kv now (app_context (apps_ctxt apps i)))
                (\<lambda>kc. Inr (set_ctxt i ((apps_ctxt apps i)\<lparr>app_context := kc\<rparr>) apps)))
         else Inr apps)
      else if ty = AP4_ETHER_TYPE_AP4 then
        (if htonl (load32 b 14) \<noteq> ACTIVEP4SIG then Inr apps
         else case find_ctxt apps (ntohs (load16 b 20)) of
            None \<Rightarrow> Inr apps
          | Some i \<Rightarrow> bind_result (kv_rx_dispatch kv now (ntohs (load16 b 18)) (ntohs (load16 b 22)) b (apps_ctxt apps i))
              (\<lambda>ctxt. Inr (set_ctxt i ctxt apps)))
      else Inr apps)"

fun kv_rx_burst :: "kv_env \<Rightarrow> (u64 \<times> mbuf) list \<Rightarrow> kv_apps \<Rightarrow> kv_apps c_result" where
  "kv_rx_burst kv [] apps = Inr apps"
| "kv_rx_burst kv ((now, m) # pkts) apps = bind_result (kv_rx_packet kv now apps m) (kv_rx_burst kv pkts)"

subsection \<open>Model: tx.h\<close>

text \<open>One packet of \<open>construct_packets_bulk\<close>; \<open>None\<close> is the early return when the port has no MAC address.\<close>

definition construct_packet ::
  "kv_env \<Rightarrow> cksum_fn \<Rightarrow> u8 list option \<Rightarrow> kv_ctxt \<Rightarrow> mbuf \<Rightarrow> (kv_ctxt \<times> mbuf) option c_result" where
  "construct_packet kv cksum mac ctxt m =
     (let b = put_ether_type (if activate_packets ctxt then AP4_ETHER_TYPE_AP4 else RTE_ETHER_TYPE_IPV4) (mb_data m) in
      case mac of
        None \<Rightarrow> Inr None
      | Some addr \<Rightarrow>
          (let kc = app_context ctxt; b = put_ether_addrs addr b;
               finish = (\<lambda>kc offset b. Inr (Some (ctxt\<lparr>app_context := kc\<rparr>,
                 set_len (42 + offset) (m\<lparr>mb_data := put_udp_headers cksum (14 + offset) (ipv4_srcaddr ctxt) (kc_ipv4_dstaddr kc) (app_port kc) (app_port kc) b\<rparr>)))) in
           if activate_packets ctxt then
             bind_result (tx_update_args kv kc (\<lambda>_. 0)) (\<lambda>(kc, args). finish kc (active_length ctxt) (put_active_request ctxt args b))
           else finish kc 0 b))"

fun construct_packets_bulk ::
  "kv_env \<Rightarrow> cksum_fn \<Rightarrow> (u8 list option \<times> mbuf) list \<Rightarrow> kv_ctxt \<Rightarrow> (kv_ctxt \<times> mbuf list) c_result" where
  "construct_packets_bulk kv cksum [] ctxt = Inr (ctxt, [])"
| "construct_packets_bulk kv cksum ((mac, m) # pkts) ctxt =
     bind_result (construct_packet kv cksum mac ctxt m)
       (\<lambda>r. case r of
            None \<Rightarrow> Inr (ctxt, m\<lparr>mb_data := put_ether_type (if activate_packets ctxt then AP4_ETHER_TYPE_AP4 else RTE_ETHER_TYPE_IPV4) (mb_data m)\<rparr> # map snd pkts)
          | Some (ctxt, m) \<Rightarrow> bind_result (construct_packets_bulk kv cksum pkts ctxt) (\<lambda>(ctxt, ms). Inr (ctxt, m # ms)))"

text \<open>One instance's turn of \<open>lcore_tx\<close>: the driver takes the first \<open>nb_tx\<close> packets, the rest is freed.\<close>

definition kv_tx_burst ::
  "kv_env \<Rightarrow> cksum_fn \<Rightarrow> (u8 list option \<times> mbuf) list option \<Rightarrow> nat \<Rightarrow> nat \<Rightarrow> kv_apps \<Rightarrow> (kv_apps \<times> mbuf list \<times> mbuf list) c_result" where
  "kv_tx_burst kv cksum bufs nb_tx i apps =
     (case bufs of
        None \<Rightarrow> Inr (apps, [], [])
      | Some pkts \<Rightarrow> bind_result (construct_packets_bulk kv cksum pkts (apps_ctxt apps i))
          (\<lambda>(ctxt, ms). Inr (set_ctxt i ctxt apps, take nb_tx ms, drop nb_tx ms)))"

subsection \<open>Model: main.c\<close>

text \<open>The copy of a program in an instance, with its code as the initial mutant.\<close>

definition kv_program :: "activep4_def_t \<Rightarrow> activep4_def_t" where
  "kv_program p = p\<lparr>mutant := (mutant p)\<lparr>mut_code := code p, mut_proglen := int (proglen p)\<rparr>\<rparr>"

text \<open>\<open>modular\<close> is the compile-time switch \<open>MODULAR\<close>: start as a monitor instead of a cache.\<close>

definition kv_instance ::
  "bool \<Rightarrow> pnemonic_opcode_t \<Rightarrow> activep4_def_t arr \<Rightarrow> u64 arr \<Rightarrow> nat \<Rightarrow> u64 \<Rightarrow> nat \<Rightarrow> kv_ctxt" where
  "kv_instance modular iset progs dist n ts_ref i =
     (let kc = zero_kv\<lparr>keydist := dist, distsize := n, kc_cache := zero_cache\<lparr>cc_ts_ref := ts_ref\<rparr>, kc_ipv4_dstaddr := APP_IPV4_DSTADDR,
            app_port := of_nat (PORT_START + i), frequent_item_monitor := modular\<rparr>;
          ctxt = zero_kv_ctxt\<lparr>instr_set := iset, num_programs := NUM_ACTIVE_PROGRAMS, ctx_fid := int (Suc i),
            current_pid := (if modular then PID_FREQITEM else PID_CACHEREAD),
            programs := (\<lambda>j. if j < NUM_ACTIVE_PROGRAMS then kv_program (progs j) else zero_def),
            active_tx_enabled := True, active_heartbeat_enabled := True, active_timer_enabled := True,
            timer_interval_us := (if modular then 2 * DEFAULT_TI_US else 100),
            is_active := False, is_elastic := True, status := INITIALIZING, ipv4_srcaddr := APP_IPV4_ADDR, app_context := kc\<rparr>
      in if modular then context_switch_monitor ctxt else context_switch_cache ctxt)"

definition kv_main ::
  "bool \<Rightarrow> (string \<Rightarrow> u8 list option) \<Rightarrow> (string \<Rightarrow> string option) \<Rightarrow> buffer \<Rightarrow> buffer \<Rightarrow> string option \<Rightarrow> u64 \<Rightarrow> kv_apps c_result" where
  "kv_main modular bin txt stale stale' arg ts_ref =
     (let num_instances = (case arg of None \<Rightarrow> 1 | Some a \<Rightarrow> atoi a) in
      if num_instances \<le> 0 then Inl ExitFailure
      else
        bind_result (read_opcode_action_map (txt ''../../../../../activermt/opcode_action_mapping.csv'') zero_instr_set) (\<lambda>iset.
        bind_result (read_key_dist (txt ''zipf_dist_a_1.1_n_100000.csv'') (\<lambda>_. 0)) (\<lambda>(dist, n).
        bind_result (read_active_function bin txt stale zero_def ''../../../activesrc'' ''kvstore'') (\<lambda>p0.
        bind_result (read_active_function bin txt stale' zero_def ''../../../activesrc'' ''hh'') (\<lambda>p1.
        let progs = (\<lambda>_. zero_def)(PID_CACHEREAD := p0\<lparr>prog_name := ''kvstore''\<rparr>, PID_FREQITEM := p1\<lparr>prog_name := ''hh''\<rparr>)
        in Inr \<lparr>num_apps = nat num_instances,
                apps_ctxt = (\<lambda>i. if i < nat num_instances then kv_instance modular iset progs dist n ts_ref i else zero_kv_ctxt),
                apps_stats = (\<lambda>_. zero_app_stats), apps_app_id = (\<lambda>_. 0)\<rparr>)))))"

definition activate_instance :: "nat \<Rightarrow> kv_apps \<Rightarrow> kv_apps" where
  "activate_instance i apps = set_ctxt i ((apps_ctxt apps i)\<lparr>is_active := True\<rparr>) apps"

subsection \<open>The running client\<close>

text \<open>
  Control thread, receiver and generator share the instances; the main thread activates one instance
  after the other.  The generator is interleaved packet by packet.
\<close>

inductive kv_step :: "kv_env \<Rightarrow> cksum_fn \<Rightarrow> (u64 \<Rightarrow> u64) \<Rightarrow> kv_state \<Rightarrow> kv_state \<Rightarrow> bool"
  for kv cksum to_us where
  control: "kv_ctrl_step kv cksum to_us env s = Inr s' \<Longrightarrow> kv_step kv cksum to_us s s'"
| receive: "kv_rx_packet kv now (cs_apps s) m = Inr apps' \<Longrightarrow> kv_step kv cksum to_us s (s\<lparr>cs_apps := apps'\<rparr>)"
| transmit: "construct_packet kv cksum mac (apps_ctxt (cs_apps s) i) m = Inr (Some (c, m')) \<Longrightarrow>
    kv_step kv cksum to_us s (s\<lparr>cs_apps := set_ctxt i c (cs_apps s)\<rparr>)"
| activate: "kv_step kv cksum to_us s (s\<lparr>cs_apps := activate_instance i (cs_apps s)\<rparr>)"

inductive kv_reach :: "kv_env \<Rightarrow> cksum_fn \<Rightarrow> (u64 \<Rightarrow> u64) \<Rightarrow> kv_apps \<Rightarrow> kv_state \<Rightarrow> bool"
  for kv cksum to_us apps where
  start: "kv_reach kv cksum to_us apps (ctrl_init apps)"
| step: "kv_reach kv cksum to_us apps s \<Longrightarrow> kv_step kv cksum to_us s s' \<Longrightarrow> kv_reach kv cksum to_us apps s'"

subsection \<open>Snapshots of the client are complete\<close>

lemma kv_rx_packet_cases:
  assumes "kv_rx_packet kv now apps m = Inr apps'"
  obtains "apps' = apps"
  | i kc where "i < num_apps apps" "apps' = set_ctxt i ((apps_ctxt apps i)\<lparr>app_context := kc\<rparr>) apps"
      "rx_update_state_inactive kv now (app_context (apps_ctxt apps i)) = Inr kc"
  | i c flags seq where "i < num_apps apps" "kv_rx_dispatch kv now flags seq (mb_data m) (apps_ctxt apps i) = Inr c" "apps' = set_ctxt i c apps"
      "flags = ntohs (load16 (mb_data m) 18)"
  using assms find_ctxt_some
  by (fastforce simp: kv_rx_packet_def Let_def bind_result_Inr_iff find_port_def find_Some_iff split: if_splits option.splits)

lemma kv_rx_deliver_control:
  assumes "kv_rx_deliver kv now flags b c = Inr c'"
  shows "status c' = status c \<and> allocation c' = allocation c \<and> handlers c' = handlers c"
  using assms by (auto simp: kv_rx_deliver_def bind_result_Inr_iff split: if_splits)

lemma kv_dispatch_snap:
  assumes "kv_rx_dispatch kv now flags seq b c = Inr c'"
  shows "status c = SNAPSHOTTING \<Longrightarrow> snap_mono c c'"
    and "status c \<in> {REMAPPING, UPDATING, SNAPSHOTTING} \<Longrightarrow> status c' \<in> {REMAPPING, UPDATING, SNAPSHOTTING}"
proof -
  show "snap_mono c c'" if "status c = SNAPSHOTTING"
    using assms that by (auto simp: kv_rx_dispatch_def rx_snapshot_def Let_def snap_mono_def set_slot_def split: if_splits)
  show "status c' \<in> {REMAPPING, UPDATING, SNAPSHOTTING}" if "status c \<in> {REMAPPING, UPDATING, SNAPSHOTTING}"
  proof (cases "status c")
    case UPDATING
    then obtain d where d: "rx_write_ack b flags c = Inr d" "kv_rx_deliver kv now flags b (rx_remap_start flags seq d) = Inr c'"
      using assms by (auto simp: kv_rx_dispatch_def bind_result_Inr_iff)
    show ?thesis
      using kv_rx_deliver_control [OF d(2)] rx_remap_start_status [of flags seq d] rx_write_ack_status [OF d(1)] UPDATING by auto
  qed (use assms that in \<open>auto simp: kv_rx_dispatch_def dest!: rx_snapshot_status rx_write_ack_status\<close>)
qed

text \<open>A context that another thread replaces without touching a running scan.\<close>

definition scan_safe :: "kv_ctxt \<Rightarrow> kv_ctxt \<Rightarrow> bool" where
  "scan_safe c c' \<longleftrightarrow> (status c = SNAPSHOTTING \<longrightarrow> snap_mono c c')
     \<and> (status c \<in> {REMAPPING, UPDATING, SNAPSHOTTING} \<longrightarrow> status c' \<in> {REMAPPING, UPDATING, SNAPSHOTTING})"

lemma scan_safe_same: "allocation c' = allocation c \<Longrightarrow> status c' = status c \<Longrightarrow> scan_safe c c'"
  by (simp add: scan_safe_def snap_mono_def)

lemma scan_safe_inv:
  assumes "scan_safe c c'" "scan_inv k c f i w"
  shows "scan_inv k c' f i w"
proof (cases k)
  case Snap
  then have "snap_mono c c'" using assms by (simp add: scan_safe_def)
  then show ?thesis using scan_inv_mono assms(2) Snap by (simp only:)
qed (use assms in \<open>auto simp: scan_safe_def snap_mono_def\<close>)

lemma sys_inv_set_ctxt:
  "sys_inv s \<Longrightarrow> scan_safe (apps_ctxt (cs_apps s) i) c \<Longrightarrow> sys_inv (s\<lparr>cs_apps := set_ctxt i c (cs_apps s)\<rparr>)"
  using scan_safe_inv by (fastforce simp: sys_inv_def)

lemma construct_packet_control:
  assumes "construct_packet kv cksum mac c m = Inr (Some (c', m'))"
  shows "c' = c\<lparr>app_context := app_context c'\<rparr>"
  using assms by (auto simp: construct_packet_def Let_def bind_result_Inr_iff split: option.splits if_splits)

lemma kv_poll_app_cases:
  assumes "kv_poll_app kv cksum to_us env a s = Inr s'"
  obtains "poll_app (kv_ops kv) cksum to_us env a s = Inr s'"
  | c ms where "s' = s\<lparr>cs_apps := set_ctxt a c (cs_apps s), cs_sent := cs_sent s @ ms, cs_pc := Poll (Suc a)\<rparr>"
      "status c = status (apps_ctxt (cs_apps s) a)" "handlers c = handlers (apps_ctxt (cs_apps s) a)"
      "app_context c = app_context (apps_ctxt (cs_apps s) a)" "ctx_fid c = ctx_fid (apps_ctxt (cs_apps s) a)"
proof -
  let ?c = "apps_ctxt (cs_apps s) a"
  note sent_case = that(2)
  have skip: thesis if "s' = s\<lparr>cs_pc := Poll (Suc a)\<rparr>"
    using that by (intro sent_case [of "[]" ?c]) (simp_all add: set_ctxt_def)
  have sent: thesis if "finish_poll a s r = Inr s'"
    "\<And>c ms. r = Inr (c, ms) \<Longrightarrow> status c = status ?c \<and> handlers c = handlers ?c \<and> app_context c = app_context ?c \<and> ctx_fid c = ctx_fid ?c" for r
    using that by (auto simp: finish_poll_def bind_result_Inr_iff intro: sent_case)
  show thesis
  proof (cases "is_active ?c \<and> status ?c \<in> {DEALLOCATING, DEALLOCWAIT}")
    case False
    then show thesis
      using assms that(1) skip by (cases "is_active ?c"; cases "status ?c") (simp_all add: kv_poll_app_def Let_def)
  next
    case True
    have d: "status c = status ?c \<and> handlers c = handlers ?c \<and> app_context c = app_context ?c \<and> ctx_fid c = ctx_fid ?c"
      if "kv_poll_deallocating cksum env (cs_now s) ?c = Inr (c, ms) \<or> poll_allocating cksum env (cs_now s) ?c = Inr (c, ms)" for c ms
      using that by (auto simp: kv_poll_deallocating_def poll_allocating_def telemetry_allocation_start_def bind_result_Inr_iff
          split: option.splits)
    from assms True consider "s' = s\<lparr>cs_pc := Poll (Suc a)\<rparr>"
      | "finish_poll a s (kv_poll_deallocating cksum env (cs_now s) ?c) = Inr s'"
      | "finish_poll a s (poll_allocating cksum env (cs_now s) ?c) = Inr s'"
      by (auto simp: kv_poll_app_def Let_def split: if_splits)
    then show thesis
      by cases (use skip d sent in blast)+
  qed
qed

lemma kv_poll_app_inv:
  assumes "kv_poll_app kv cksum to_us env a s = Inr s'"
  shows "sys_inv s'"
  using assms by (cases rule: kv_poll_app_cases) (erule poll_app_inv, simp add: sys_inv_def)

lemma kv_ctrl_step_inv:
  assumes "kv_ctrl_step kv cksum to_us env s = Inr s'" "sys_inv s"
  shows "sys_inv s'"
proof (cases "cs_pc s")
  case (Poll a)
  then show ?thesis
    using assms kv_poll_app_inv [of kv cksum to_us env a s s'] by (auto simp: kv_ctrl_step_def sys_inv_def split: if_splits)
next
  case (Scan k a f i w)
  then show ?thesis
    using assms scan_step_inv [of "kv_ops kv" cksum env k a f i w s s'] by (auto simp: kv_ctrl_step_def sys_inv_def)
qed (use assms in \<open>auto simp: kv_ctrl_step_def sys_inv_def split: if_splits\<close>)

lemma kv_rx_packet_inv:
  assumes "kv_rx_packet kv now (cs_apps s) m = Inr apps'" "sys_inv s"
  shows "sys_inv (s\<lparr>cs_apps := apps'\<rparr>)"
  using assms(1)
proof (cases rule: kv_rx_packet_cases)
  case 1
  then show ?thesis using assms(2) by (simp add: sys_inv_def)
next
  case (2 i kc)
  then show ?thesis using assms(2) by (auto intro!: sys_inv_set_ctxt scan_safe_same)
next
  case (3 i c flags seq)
  then show ?thesis
    using assms(2) kv_dispatch_snap [OF 3(2)] by (auto intro!: sys_inv_set_ctxt simp: scan_safe_def)
qed

lemma kv_step_inv:
  assumes "kv_step kv cksum to_us s s'" "sys_inv s"
  shows "sys_inv s'"
  using assms(1)
proof (cases rule: kv_step.cases)
  case (transmit mac i m c m')
  then show ?thesis
    using arg_cong [OF construct_packet_control [OF transmit(2)], of status]
      arg_cong [OF construct_packet_control [OF transmit(2)], of allocation] assms(2)
    by (auto intro!: sys_inv_set_ctxt scan_safe_same)
next
  case (activate i)
  then show ?thesis using assms(2) by (auto simp: activate_instance_def intro!: sys_inv_set_ctxt scan_safe_same)
qed (use assms(2) kv_ctrl_step_inv kv_rx_packet_inv in blast)+

lemma kv_inv_reach: "kv_reach kv cksum to_us apps s \<Longrightarrow> sys_inv s"
  by (induction rule: kv_reach.induct) (simp add: sys_inv_def ctrl_init_def, rule kv_step_inv)


subsection \<open>The request generator never fails\<close>

text \<open>The identity of an instance: its identifier, its port, the keys it cycles through and the way it was built.\<close>

definition kv_good :: "bool \<Rightarrow> u64 arr \<Rightarrow> nat \<Rightarrow> nat \<Rightarrow> int \<Rightarrow> kv_tag \<Rightarrow> kv_context_t \<Rightarrow> bool" where
  "kv_good modular dist n idx fid h kc \<longleftrightarrow> fid = int (Suc idx) \<and> (\<not> modular \<longrightarrow> h = KvCache) \<and> frequent_item_monitor kc = modular
     \<and> keydist kc = dist \<and> distsize kc = n \<and> current_key_idx kc < n \<and> app_port kc = of_nat (PORT_START + idx)"

lemma monitor_words_good:
  assumes "monitor_words env mem is kc m = Inr (kc', m')"
  shows "kv_good modular dist n idx fid h kc' = kv_good modular dist n idx fid h kc"
  using assms
  by (induction env mem "is" kc m rule: monitor_words.induct) (auto simp: Let_def kv_good_def split: if_splits)

lemma kv_timer_cache_frame:
  assumes "kv_timer_cache env c = Inr c'"
  shows "ctx_fid c' = ctx_fid c \<and> handlers c' = handlers c \<and> (status c' = status c \<or> status c' = UPDATING)
    \<and> kv_good modular dist n idx fid h (app_context c') = kv_good modular dist n idx fid h (app_context c)"
  using assms unfolding kv_timer_cache_def Let_def
  by (elim bind_result_InrE) (auto simp: kv_good_def split: prod.splits if_split_asm)

lemma kv_consume_good:
  assumes "memory_consume_monitor env mem kc = Inr kc'"
  shows "kv_good modular dist n idx fid h kc' = kv_good modular dist n idx fid h kc"
proof (cases "timer_snapshot_trigger kc")
  case True
  let ?kc = "kc\<lparr>frequent_items := (\<lambda>_. zero_item)\<rparr>"
  obtain ws kc1 m where w: "monitor_words env mem ws ?kc 0 = Inr (kc1, m)"
    "kc' = (if MIN_ITEMS \<le> m then kc1\<lparr>timer_snapshot_trigger := False, timer_deallocate_trigger := True\<rparr> else kc1)"
    using assms True unfolding memory_consume_monitor_def Let_def
    by (auto simp: bind_result_Inr_iff simp del: monitor_words.simps split: if_split_asm)
  show ?thesis
    using monitor_words_good [OF w(1), of modular dist n idx fid h] by (simp add: w(2) kv_good_def)
qed (use assms in \<open>simp add: memory_consume_monitor_def\<close>)

lemma kv_good_upd [simp]: "kv_good modular dist n idx fid h (kc\<lparr>kc_cache := c\<rparr>) = kv_good modular dist n idx fid h kc"
  "kv_good modular dist n idx fid h (kc\<lparr>kc_debug := d\<rparr>) = kv_good modular dist n idx fid h kc"
  by (simp_all add: kv_good_def)

lemma kv_reset_good:
  assumes "memory_reset_monitor mem kc = (kc', r)"
  shows "kv_good modular dist n idx fid h kc' = kv_good modular dist n idx fid h kc"
proof -
  have "kv_good modular dist n idx fid h (fst (memory_reset_monitor mem kc)) = kv_good modular dist n idx fid h kc"
    by (simp add: memory_reset_monitor_def Let_def kv_good_def)
  then show ?thesis using assms by simp
qed

lemma timer_monitor_frame:
  assumes "timer_monitor c = Inr c'"
  shows "ctx_fid c' = ctx_fid c \<and> (handlers c' = handlers c \<or> handlers c' = KvCache) \<and> kv_good modular dist n idx fid h (app_context c') = kv_good modular dist n idx fid h (app_context c)
    \<and> (status c' = status c \<or> status c' = DEALLOCATING \<or> status c = TRANSMITTING \<and> status c' = INITIALIZING \<or> status c' = SNAPSHOTTING)"
  using assms by (auto simp: timer_monitor_def context_switch_cache_def Let_def kv_good_def split: if_split_asm)

interpretation kv_app: application_invariant "kv_ops env" "kv_good modular dist n idx" for env modular dist n idx
proof
  fix fid h a b p a' p'
  assume "kv_good modular dist n idx fid h a" "op_tx_mux (kv_ops env h) b a p = (a', p')"
  then show "kv_good modular dist n idx fid h a'" by (cases h) (auto simp: kv_cache_ops_defs kv_monitor_ops_def)
next
  fix fid h a b pos d mem d' a'
  assume "kv_good modular dist n idx fid h a" "op_tx_handler (kv_ops env h) b pos d mem a = Inr (d', a')"
  then show "kv_good modular dist n idx fid h a'" by (cases h) (auto simp: kv_cache_ops_defs kv_monitor_ops_def)
next
  fix fid h a now ih args pkt b b' a'
  assume "kv_good modular dist n idx fid h a" "op_rx_handler (kv_ops env h) now ih args pkt b a = Inr (b', a')"
  then show "kv_good modular dist n idx fid h a'" by (cases h) (auto simp: kv_cache_ops_defs kv_monitor_ops_def)
next
  fix fid h a f now mem a'
  assume "kv_good modular dist n idx fid h a" "op_memory_consume (kv_ops env h) = Some f" "f now mem a = Inr a'"
  then show "kv_good modular dist n idx fid h a'"
    by (cases h) (auto simp: kv_cache_ops_defs kv_monitor_ops_def memory_consume_cache_def kv_consume_good)
next
  fix fid h a g mem a' r
  assume "kv_good modular dist n idx fid h a" "op_memory_reset (kv_ops env h) = Some g" "g mem a = (a', r)"
  then show "kv_good modular dist n idx fid h a'"
    by (cases h) (auto simp: kv_cache_ops_defs kv_monitor_ops_def kv_reset_good split: prod.splits)
next
  fix c :: kv_ctxt and t now c'
  assume "kv_good modular dist n idx (ctx_fid c) (handlers c) (app_context c)" "op_timer (kv_ops env (handlers c)) = Some t" "t now c = Inr c'"
  then show "kv_good modular dist n idx (ctx_fid c') (handlers c') (app_context c')"
    using kv_timer_cache_frame [of env c c' modular dist n idx "ctx_fid c'" "handlers c'"] timer_monitor_frame [of c c' modular dist n idx "ctx_fid c'" "handlers c'"]
    by (cases "handlers c") (auto simp: kv_cache_ops_defs kv_monitor_ops_def kv_good_def)
next
  fix c :: kv_ctxt and u
  assume "kv_good modular dist n idx (ctx_fid c) (handlers c) (app_context c)" "op_on_allocation (kv_ops env (handlers c)) = Some u"
  then show "kv_good modular dist n idx (ctx_fid (u c)) (handlers (u c)) (app_context (u c))"
    by (cases "handlers c") (auto simp: kv_cache_ops_defs kv_monitor_ops_def kv_on_allocation_cache_def)
qed

definition ctxt_kv :: "bool \<Rightarrow> u64 arr \<Rightarrow> nat \<Rightarrow> nat \<Rightarrow> kv_ctxt \<Rightarrow> bool" where
  "ctxt_kv modular dist n idx c \<longleftrightarrow> kv_good modular dist n idx (ctx_fid c) (handlers c) (app_context c)"

lemma ctxt_kv_alt: "ctxt_kv modular dist n idx = kv_app.ctxt_good modular dist n idx"
  by (simp add: fun_eq_iff ctxt_kv_def kv_app.ctxt_good_def)

lemma rx_update_state_kv:
  "rx_update_state env now args kc = Inr kc' \<Longrightarrow> kv_good modular dist n idx fid h kc' = kv_good modular dist n idx fid h kc"
  "rx_update_state_inactive env now kc = Inr kc' \<Longrightarrow> kv_good modular dist n idx fid h kc' = kv_good modular dist n idx fid h kc"
  by (auto simp: rx_update_state_def rx_update_state_inactive_def Let_def bind_result_Inr_iff split: option.splits if_splits)

lemma kv_rx_dispatch_good:
  assumes "kv_rx_dispatch kv now flags seq b c = Inr c'" "ctxt_kv modular dist n idx c"
  shows "ctxt_kv modular dist n idx c'"
proof -
  have deliver: "ctxt_kv modular dist n idx d'" if "kv_rx_deliver kv now flags b d = Inr d'" "ctxt_kv modular dist n idx d" for d d'
    using that rx_update_state_kv(1)
    by (auto simp: kv_rx_deliver_def ctxt_kv_def bind_result_Inr_iff split: if_splits)
  have "ctxt_kv modular dist n idx (rx_remap_start flags seq d) = ctxt_kv modular dist n idx d" for d
    unfolding ctxt_kv_alt by (rule kv_app.rx_words_good)
  moreover have "ctxt_kv modular dist n idx d' = ctxt_kv modular dist n idx d"
    if "rx_snapshot b flags d = Inr d' \<or> rx_write_ack b flags d = Inr d'" for d d'
    using that unfolding ctxt_kv_alt using kv_app.rx_words_good by metis
  moreover have "ctxt_kv modular dist n idx d'" if "rx_allocated (kv_ops kv) now b flags seq d = Inr d'" "ctxt_kv modular dist n idx d" for d d'
    using that unfolding ctxt_kv_alt by (rule kv_app.rx_allocated_good)
  moreover have "ctxt_kv modular dist n idx (c\<lparr>status := st\<rparr>) = ctxt_kv modular dist n idx c" for st by (simp add: ctxt_kv_def)
  ultimately show ?thesis
    using assms deliver by (cases "status c") (fastforce simp: kv_rx_dispatch_def bind_result_Inr_iff split: if_splits)+
qed

lemma tx_update_args_good:
  assumes "tx_update_args env kc args = Inr (kc', args')" "kv_good modular dist n idx fid h kc"
  shows "kv_good modular dist n idx fid h kc'"
  using assms by (auto simp: tx_update_args_def Let_def kv_good_def split: if_splits)

lemma construct_packet_good:
  assumes "construct_packet kv cksum mac c m = Inr (Some (c', m'))" "ctxt_kv modular dist n idx c"
  shows "ctxt_kv modular dist n idx c'"
  using assms tx_update_args_good
  by (auto simp: construct_packet_def Let_def bind_result_Inr_iff ctxt_kv_def split: option.splits if_splits)

lemma kv_step_good:
  assumes "kv_step kv cksum to_us s s'" "ctxt_kv modular dist n idx (apps_ctxt (cs_apps s) b)"
  shows "ctxt_kv modular dist n idx (apps_ctxt (cs_apps s') b)"
  using assms(1)
proof (cases rule: kv_step.cases)
  case (control env)
  show ?thesis
  proof (cases "cs_pc s")
    case (Poll a)
    show ?thesis
    proof (cases "a < num_apps (cs_apps s)")
      case True
      with control Poll have p: "kv_poll_app kv cksum to_us env a s = Inr s'" by (simp add: kv_ctrl_step_def)
      then show ?thesis
      proof (cases rule: kv_poll_app_cases)
        case 1
        then show ?thesis
          using assms(2) kv_app.poll_app_good [OF 1, of modular dist n idx] poll_app_frame [OF 1] by (cases "b = a") (auto simp: ctxt_kv_alt)
      next
        case (2 c ms)
        then show ?thesis using assms(2) by (auto simp: ctxt_kv_def)
      qed
    qed (use control Poll assms(2) in \<open>auto simp: kv_ctrl_step_def\<close>)
  next
    case (Scan k a f i w)
    then have 1: "scan_step (kv_ops kv) cksum env k a f i w s = Inr s'" using control by (simp add: kv_ctrl_step_def)
    show ?thesis
      using assms(2) kv_app.scan_step_good [OF 1, of modular dist n idx] scan_step_frame [OF 1] by (cases "b = a") (auto simp: ctxt_kv_alt)
  qed (use control assms(2) in \<open>auto simp: kv_ctrl_step_def split: if_splits\<close>)
next
  case (receive now m apps')
  from receive(2) show ?thesis
  proof (cases rule: kv_rx_packet_cases)
    case (2 i kc)
    then show ?thesis using receive(1) assms(2) rx_update_state_kv(2) [OF 2(3)] by (auto simp: ctxt_kv_def)
  next
    case (3 i c flags seq)
    then show ?thesis using receive(1) assms(2) kv_rx_dispatch_good [OF 3(2)] by auto
  qed (use receive(1) assms(2) in auto)
next
  case (transmit mac i m c m')
  then show ?thesis using assms(2) construct_packet_good [OF transmit(2)] by auto
next
  case (activate i)
  then show ?thesis using assms(2) by (auto simp: activate_instance_def ctxt_kv_def)
qed

lemma kv_reach_good:
  assumes "kv_reach kv cksum to_us apps s" "ctxt_kv modular dist n idx (apps_ctxt apps b)"
  shows "ctxt_kv modular dist n idx (apps_ctxt (cs_apps s) b)"
  using assms
proof (induction rule: kv_reach.induct)
  case start
  then show ?case by (simp add: ctrl_init_def)
next
  case (step s s')
  then show ?case using kv_step_good by blast
qed

lemma kv_reach_num: "kv_reach kv cksum to_us apps s \<Longrightarrow> num_apps (cs_apps s) = num_apps apps"
proof (induction rule: kv_reach.induct)
  case start
  then show ?case by (simp add: ctrl_init_def)
next
  case (step s s')
  from step.hyps(2) have "num_apps (cs_apps s') = num_apps (cs_apps s)"
  proof (cases rule: kv_step.cases)
    case (control env)
    then show ?thesis
      using poll_app_frame scan_step_frame
      by (cases "cs_pc s") (fastforce simp: kv_ctrl_step_def split: if_splits elim!: kv_poll_app_cases)+
  next
    case (receive now m apps')
    from receive(2) show ?thesis using receive(1) by (cases rule: kv_rx_packet_cases) auto
  qed (auto simp: activate_instance_def)
  with step.IH show ?case by simp
qed

text \<open>What every instance holds when the threads start.\<close>

definition kv_started :: "bool \<Rightarrow> u64 arr \<Rightarrow> nat \<Rightarrow> nat \<Rightarrow> kv_ctxt \<Rightarrow> bool" where
  "kv_started modular dist n i c \<longleftrightarrow> ctx_fid c = int (Suc i) \<and> status c = INITIALIZING \<and> \<not> is_active c
     \<and> handlers c = (if modular then KvMonitor else KvCache) \<and> current_pid c = (if modular then PID_FREQITEM else PID_CACHEREAD)
     \<and> app_port (app_context c) = of_nat (PORT_START + i) \<and> current_key_idx (app_context c) = 0
     \<and> cc_num_samples (kc_cache (app_context c)) = 0 \<and> frequent_item_monitor (app_context c) = modular \<and> keydist (app_context c) = dist \<and> distsize (app_context c) = n"

lemma kv_instance_started: "kv_started modular dist n i (kv_instance modular iset progs dist n ts i)"
  by (simp add: kv_started_def kv_instance_def Let_def context_switch_monitor_def context_switch_cache_def set_memory_demand_per_stage_def
      update_current_program_def zero_kv_ctxt_def zero_kv_def zero_cache_def)

lemma kv_main_started:
  assumes "kv_main modular bin txt stale stale' arg ts = Inr apps"
  obtains dist n where "read_key_dist (txt ''zipf_dist_a_1.1_n_100000.csv'') (\<lambda>_. 0) = Inr (dist, n)" "0 < num_apps apps"
    "\<And>i. i < num_apps apps \<Longrightarrow> kv_started modular dist n i (apps_ctxt apps i)"
  using assms kv_instance_started that
  by (auto simp: kv_main_def Let_def bind_result_Inr_iff split: if_splits option.splits)

text \<open>
  After a start with a non-empty key file, in every interleaving of the threads, the generator
  builds a packet for every instance without failing, whatever allocations, updates and
  context switches have happened; the index of the next key stays inside the key distribution.
\<close>

theorem kv_generator_total:
  assumes "kv_main modular bin txt stale stale' arg ts = Inr apps" "kv_reach kv cksum to_us apps s" "b < num_apps apps"
    and "read_key_dist (txt ''zipf_dist_a_1.1_n_100000.csv'') (\<lambda>_. 0) = Inr (dist, n)" "0 < n"
  shows "current_key_idx (app_context (apps_ctxt (cs_apps s) b)) < n \<and> keydist (app_context (apps_ctxt (cs_apps s) b)) = dist
    \<and> (\<exists>c m'. construct_packet kv cksum' (Some addr) (apps_ctxt (cs_apps s) b) m = Inr (Some (c, m')))"
proof -
  let ?c = "apps_ctxt (cs_apps s) b"
  have "ctxt_kv modular dist n b (apps_ctxt apps b)"
    using assms(1,3-5) by (auto elim!: kv_main_started simp: kv_started_def ctxt_kv_def kv_good_def)
  then have g: "keydist (app_context ?c) = dist" "distsize (app_context ?c) = n" "current_key_idx (app_context ?c) < n"
    using kv_reach_good [OF assms(2)] by (auto simp: ctxt_kv_def kv_good_def)
  then have "is_ok (tx_update_args kv (app_context ?c) (\<lambda>_. 0))"
    by (auto simp: tx_update_args_def Let_def)
  then obtain kc args where "tx_update_args kv (app_context ?c) (\<lambda>_. 0) = Inr (kc, args)"
    by (cases "tx_update_args kv (app_context ?c) (\<lambda>_. 0)") auto
  then show ?thesis using g by (auto simp: construct_packet_def Let_def)
qed

subsection \<open>The protocol with deallocation\<close>

inductive kv_edge :: "active_state \<Rightarrow> active_state \<Rightarrow> bool" where
  runtime: "protocol_edge s t \<Longrightarrow> kv_edge s t"
| give_back: "kv_edge TRANSMITTING DEALLOCATING"
| requested: "kv_edge DEALLOCATING DEALLOCWAIT"
| released: "kv_edge DEALLOCWAIT TRANSMITTING"
| restart: "kv_edge TRANSMITTING INITIALIZING"

lemma kv_edge_iff:
  "kv_edge s t \<longleftrightarrow> protocol_edge s t \<or> (s, t) \<in> {(TRANSMITTING, DEALLOCATING), (DEALLOCATING, DEALLOCWAIT), (DEALLOCWAIT, TRANSMITTING),
     (TRANSMITTING, INITIALIZING)}"
  by (auto elim: kv_edge.cases intro: kv_edge.intros)

lemma kv_edge_refl: "s = t \<Longrightarrow> kv_edge s t"
  by (auto intro: kv_edge.intros simp: protocol_edge_def)

lemma kv_poll_transmitting_status:
  assumes "poll_transmitting (kv_ops kv) cksum to_us env now c = Inr (c', ms)" "status c = TRANSMITTING"
  shows "status c' \<in> {TRANSMITTING, UPDATING} \<or> handlers c = KvMonitor \<and> status c' \<in> {SNAPSHOTTING, DEALLOCATING, INITIALIZING}"
proof -
  obtain d where d: "poll_timer (kv_ops kv) to_us env now d = Inr c'" "d = c \<or> d = c\<lparr>ctrl_ts_lastsent := now\<rparr>"
    using assms(1) by (auto simp: poll_transmitting_def poll_heartbeat_def bind_result_Inr_iff split: if_splits option.splits)
  then have "status d = status c" "handlers d = handlers c" by auto
  with assms(2) show ?thesis
    using d(1) assms(2)
    by (cases "handlers c") (auto simp: poll_timer_def kv_cache_ops_defs kv_monitor_ops_def bind_result_Inr_iff split: if_splits
        dest!: kv_timer_cache_frame timer_monitor_frame)
qed

lemma kv_ctrl_edge:
  assumes "kv_ctrl_step kv cksum to_us env s = Inr s'" "sys_inv s"
    and c_def: "c = apps_ctxt (cs_apps s) b" and c'_def: "c' = apps_ctxt (cs_apps s') b"
  shows "kv_edge (status c) (status c') \<and> (handlers c = KvCache \<longrightarrow> protocol_edge (status c) (status c'))"
proof -
  note pe = protocol_edge_def ctrl_edge_iff
  have same: ?thesis if "c' = c" using that by (auto intro: kv_edge_refl simp: pe)
  have run: ?thesis if "protocol_edge (status c) (status c')" using that by (auto intro: kv_edge.runtime)
  show ?thesis
  proof (cases "cs_pc s")
    case (Poll a)
    show ?thesis
    proof (cases "a < num_apps (cs_apps s) \<and> a = b")
      case True
      with assms(1) Poll have p: "kv_poll_app kv cksum to_us env b s = Inr s'" by (simp add: kv_ctrl_step_def)
      then show ?thesis
      proof (cases rule: kv_poll_app_cases)
        case 1
        show ?thesis
        proof (cases "status c = TRANSMITTING")
          case tx: True
          consider "c' = c" | ms where "poll_transmitting (kv_ops kv) cksum to_us env (cs_now s) c = Inr (c', ms)"
            using 1 tx by (auto simp: poll_app_def Let_def finish_poll_def bind_result_Inr_iff c_def c'_def split: if_splits)
          then show ?thesis
          proof cases
            case (2 ms)
            with kv_poll_transmitting_status [OF 2 tx] tx show ?thesis by (auto simp: pe intro: kv_edge.intros)
          qed (rule same)
        qed (use 1 run poll_app_edge_waiting [OF 1] in \<open>auto simp: c_def c'_def\<close>)
      next
        case (2 d ms)
        then show ?thesis using run by (auto simp: c_def c'_def pe)
      qed
    next
      case False
      then show ?thesis
        using assms(1) Poll same by (auto simp: kv_ctrl_step_def c_def c'_def split: if_splits elim!: kv_poll_app_cases dest!: poll_app_frame)
    qed
  next
    case (Scan k a f i w)
    then have 1: "scan_step (kv_ops kv) cksum env k a f i w s = Inr s'" using assms(1) by (simp add: kv_ctrl_step_def)
    show ?thesis
      using scan_step_edge [OF 1] scan_step_frame [OF 1] assms(2) Scan same run by (cases "b = a") (auto simp: sys_inv_def c_def c'_def)
  qed (use assms(1) same in \<open>auto simp: kv_ctrl_step_def c_def c'_def split: if_splits\<close>)
qed

lemma kv_rx_edge:
  assumes "kv_rx_dispatch kv now flags seq b c = Inr c'"
  shows "kv_edge (status c) (status c')"
    "handlers c = KvCache \<Longrightarrow> status c \<notin> {DEALLOCATING, DEALLOCWAIT} \<Longrightarrow> protocol_edge (status c) (status c')"
proof -
  note pe = protocol_edge_def rx_edge_iff
  have al: "on_allocation_keeps_status (kv_ops kv)"
    unfolding on_allocation_keeps_status_def
  proof (intro allI impI)
    fix h f and c :: kv_ctxt
    assume "op_on_allocation (kv_ops kv h) = Some f"
    then show "status (f c) = status c" by (cases h) (auto simp: kv_cache_ops_defs kv_monitor_ops_def kv_on_allocation_cache_def)
  qed
  have main: "protocol_edge (status c) (status c')" if "status c \<notin> {DEALLOCATING, DEALLOCWAIT}"
  proof (cases "status c")
    case UPDATING
    then obtain d where d: "rx_write_ack b flags c = Inr d" "kv_rx_deliver kv now flags b (rx_remap_start flags seq d) = Inr c'"
      using assms by (auto simp: kv_rx_dispatch_def bind_result_Inr_iff)
    show ?thesis
      using kv_rx_deliver_control [OF d(2)] rx_remap_start_status [of flags seq d] rx_write_ack_status [OF d(1)] UPDATING by (auto simp: pe)
  next
    case TRANSMITTING
    then show ?thesis
      using assms rx_remap_start_status [of flags seq c] by (auto simp: kv_rx_dispatch_def pe dest!: kv_rx_deliver_control)
  next
    case ALLOCATING
    then show ?thesis using assms by (auto simp: kv_rx_dispatch_def pe dest!: rx_allocated_status [OF _ al])
  next
    case REALLOCATING
    then show ?thesis using assms by (auto simp: kv_rx_dispatch_def pe dest!: rx_allocated_status [OF _ al])
  qed (use assms that in \<open>auto simp: kv_rx_dispatch_def pe dest!: rx_snapshot_status rx_write_ack_status split: if_split_asm\<close>)
  show "kv_edge (status c) (status c')"
  proof (cases "status c \<in> {DEALLOCATING, DEALLOCWAIT}")
    case True
    then show ?thesis using assms by (auto simp: kv_rx_dispatch_def kv_edge_iff protocol_edge_def split: if_split_asm)
  qed (use main in \<open>auto intro: kv_edge.runtime\<close>)
  show "protocol_edge (status c) (status c')" if "status c \<notin> {DEALLOCATING, DEALLOCWAIT}"
    using main that by blast
qed

lemma kv_step_edge:
  assumes "kv_step kv cksum to_us s s'" "sys_inv s" "c = apps_ctxt (cs_apps s) b" "c' = apps_ctxt (cs_apps s') b"
  shows "kv_edge (status c) (status c')"
    "handlers c = KvCache \<Longrightarrow> status c \<notin> {DEALLOCATING, DEALLOCWAIT} \<Longrightarrow> protocol_edge (status c) (status c')"
proof -
  have same: "kv_edge (status c) (status c') \<and> protocol_edge (status c) (status c')" if "status c' = status c"
    using that kv_edge_refl [of "status c"] by (simp add: protocol_edge_def)
  have "kv_edge (status c) (status c') \<and> (handlers c = KvCache \<and> status c \<notin> {DEALLOCATING, DEALLOCWAIT} \<longrightarrow> protocol_edge (status c) (status c'))"
    using assms(1)
  proof (cases rule: kv_step.cases)
    case (control env)
    then show ?thesis using kv_ctrl_edge [OF control assms(2-4)] by blast
  next
    case (receive now m apps')
    from receive(2) show ?thesis
    proof (cases rule: kv_rx_packet_cases)
      case 1
      then show ?thesis using same receive(1) assms(3,4) by simp
    next
      case (2 i kc)
      then have "status c' = status c" using receive(1) assms(3,4) by simp
      then show ?thesis using same by blast
    next
      case (3 i d flags seq)
      then show ?thesis using kv_rx_edge [OF 3(2)] receive(1) assms(3,4) same by (cases "i = b") auto
    qed
  next
    case (transmit mac i m d m')
    then have "status c' = status c"
      using arg_cong [OF construct_packet_control [OF transmit(2)], of status] assms(3,4) by auto
    then show ?thesis using same by blast
  next
    case (activate i)
    then have "status c' = status c" using assms(3,4) by (simp add: activate_instance_def)
    then show ?thesis using same by blast
  qed
  then show "kv_edge (status c) (status c')"
    "handlers c = KvCache \<Longrightarrow> status c \<notin> {DEALLOCATING, DEALLOCWAIT} \<Longrightarrow> protocol_edge (status c) (status c')"
    by blast+
qed


subsection \<open>Requests and replies\<close>

text \<open>
  The packets of the generator.  An active, transmitting instance sends an active packet that
  carries its identifier, the address and the two halves of the next key of the distribution and the
  mutated program, followed by IPv4 and UDP headers with the instance's port; any other instance
  sends the plain UDP packet.  Only the position in the key distribution and the request counts change.
\<close>

theorem kv_request_layout:
  assumes "length addr = 6" "0 \<le> mut_proglen (mutant (current_program c))" "tx_update_args kv (app_context c) (\<lambda>_. 0) = Inr (kc, args)"
    and "n = length (request_code c)"
  shows "\<exists>c' m'. construct_packet kv cksum (Some addr) c m = Inr (Some (c', m')) \<and> mb_data_len m' = mb_pkt_len m'
    \<and> (if activate_packets c then
         c' = c\<lparr>app_context := kc\<rparr> \<and> mb_pkt_len m' = 68 + 2 * n
         \<and> ctrl_packet m' (AP4FLAGMASK_OPT_ARGS OR AP4FLAGMASK_FLAG_PRELOAD) (ctx_fid c)
         \<and> (\<forall>i<4. load32 (mb_data m') (24 + 4 * i) = args i) \<and> program_at (mb_data m') 40 (request_code c)
         \<and> udp_at (mb_data m') (40 + 2 * n) (ipv4_srcaddr c) (kc_ipv4_dstaddr kc) (app_port kc) (app_port kc)
       else c' = c \<and> mb_pkt_len m' = 42 \<and> ntohs (load16 (mb_data m') 12) = RTE_ETHER_TYPE_IPV4
         \<and> udp_at (mb_data m') 14 (ipv4_srcaddr c) (kc_ipv4_dstaddr (app_context c)) (app_port (app_context c)) (app_port (app_context c)))"
proof (cases "activate_packets c")
  case True
  let ?m = "set_len (68 + 2 * n) (m\<lparr>mb_data := put_udp_headers cksum (40 + 2 * n) (ipv4_srcaddr c) (kc_ipv4_dstaddr kc) (app_port kc) (app_port kc)
      (put_active_request c args (put_ether_addrs addr (put_ether_type AP4_ETHER_TYPE_AP4 (mb_data m))))\<rparr>)"
  have "construct_packet kv cksum (Some addr) c m = Inr (Some (c\<lparr>app_context := kc\<rparr>, ?m))"
    using True assms(3) active_length_code [OF assms(2)] by (simp add: construct_packet_def Let_def assms(4) add.assoc)
  then show ?thesis
    using active_request_spec [OF assms(1,4), where m = m and cksum = cksum and src = "ipv4_srcaddr c" and dst = "kc_ipv4_dstaddr kc"
        and sport = "app_port kc" and dport = "app_port kc" and args = args] True by auto
next
  case False
  then show ?thesis
    using assms(1) by (simp add: construct_packet_def Let_def set_len_def put_udp_at put_udp_below put_ether_ip_type)
qed

definition counted :: "bool \<Rightarrow> kv_context_t \<Rightarrow> kv_context_t \<Rightarrow> bool" where
  "counted hit kc kc' \<longleftrightarrow>
     (let n = cc_num_samples (kc_cache kc); st = cc_rx_stats (kc_cache kc) n; st' = cc_rx_stats (kc_cache kc') n in
      rx_total st' = rx_total st + 1 \<and> rx_hits st' = rx_hits st + (if hit then 1 else 0)
      \<and> cc_num_samples (kc_cache kc') \<in> {n, Suc n} \<and> (\<forall>k. k \<noteq> n \<longrightarrow> cc_rx_stats (kc_cache kc') k = cc_rx_stats (kc_cache kc) k))"

lemma count_reply_counted:
  assumes "cc_num_samples (kc_cache kc) < MAX_SAMPLES_CACHE" "kc_cache kd = kc_cache kc"
  shows "\<exists>c. count_reply to_ms now hit (kc_cache kc) = Inr c \<and> counted hit kc (kd\<lparr>kc_cache := c\<rparr>)"
  using assms by (simp add: count_reply_def counted_def Let_def)

text \<open>
  A reply is counted by the instance it belongs to and by no other.  An executed active packet is
  matched by its identifier and counted once, as a hit exactly when the switch returned a value; a
  plain UDP packet is matched by its port and counted as a miss.
\<close>

theorem kv_reply_counted:
  assumes "cc_num_samples (kc_cache (app_context (apps_ctxt apps i))) < MAX_SAMPLES_CACHE"
    and "active \<Longrightarrow> ntohs (load16 (mb_data m) 12) = AP4_ETHER_TYPE_AP4 \<and> is_activep4 (mb_data m) 14
      \<and> ntohs (load16 (mb_data m) 18) = AP4FLAGMASK_OPT_ARGS OR AP4FLAGMASK_FLAG_PRELOAD OR AP4FLAGMASK_FLAG_EOE
      \<and> find_ctxt apps (ntohs (load16 (mb_data m) 20)) = Some i \<and> status (apps_ctxt apps i) = TRANSMITTING"
    and "\<not> active \<Longrightarrow> ntohs (load16 (mb_data m) 12) = RTE_ETHER_TYPE_IPV4 \<and> load8 (mb_data m) 23 = IPPROTO_UDP
      \<and> find_port apps (ntohs (load16 (mb_data m) 36)) = Some i"
  shows "\<exists>apps'. kv_rx_packet kv now apps m = Inr apps' \<and> (\<forall>j. j \<noteq> i \<longrightarrow> apps_ctxt apps' j = apps_ctxt apps j)
    \<and> apps_ctxt apps' i = (apps_ctxt apps i)\<lparr>app_context := app_context (apps_ctxt apps' i)\<rparr>
    \<and> counted (active \<and> ntohl (load32 (mb_data m) 36) \<noteq> 0) (app_context (apps_ctxt apps i)) (app_context (apps_ctxt apps' i))"
proof (cases active)
  case True
  let ?c = "apps_ctxt apps i" and ?args = "\<lambda>k. load32 (mb_data m) (24 + 4 * k)" and ?hit = "ntohl (load32 (mb_data m) 36) \<noteq> 0"
  let ?kd = "if ?hit then app_context ?c else (app_context ?c)\<lparr>kc_debug := rx_debug kv ?args (kc_debug (app_context ?c))\<rparr>"
  have kd: "kc_cache ?kd = kc_cache (app_context ?c)" by simp
  obtain d where d: "count_reply (ke_to_ms kv) now ?hit (kc_cache (app_context ?c)) = Inr d" "counted ?hit (app_context ?c) (?kd\<lparr>kc_cache := d\<rparr>)"
    using count_reply_counted [OF assms(1) kd] by blast
  have u: "rx_update_state kv now (Some ?args) (app_context ?c) = Inr (?kd\<lparr>kc_cache := d\<rparr>)"
    using d(1) by (cases ?hit) (simp_all add: rx_update_state_def)
  have "kv_rx_packet kv now apps m = Inr (set_ctxt i (?c\<lparr>app_context := ?kd\<lparr>kc_cache := d\<rparr>\<rparr>) apps)"
    using assms(2) True u
    by (simp add: kv_rx_packet_def Let_def is_activep4_def kv_rx_dispatch_def rx_remap_start_def kv_rx_deliver_def TEST_FLAG_def)
  then show ?thesis using d(2) True by simp
next
  case False
  let ?c = "apps_ctxt apps i"
  obtain d where d: "count_reply (ke_to_ms kv) now False (kc_cache (app_context ?c)) = Inr d" "counted False (app_context ?c) ((app_context ?c)\<lparr>kc_cache := d\<rparr>)"
    using count_reply_counted [OF assms(1) refl] by blast
  then have "kv_rx_packet kv now apps m = Inr (set_ctxt i (?c\<lparr>app_context := (app_context ?c)\<lparr>kc_cache := d\<rparr>\<rparr>) apps)"
    using assms(3) False by (simp add: kv_rx_packet_def Let_def rx_update_state_inactive_def)
  then show ?thesis using d(2) False by simp
qed

subsection \<open>Examples\<close>

definition demo_kv_txt :: "string \<Rightarrow> string option" where
  "demo_kv_txt path =
     (if path = ''zipf_dist_a_1.1_n_100000.csv'' then Some (''5'' @ [CHR 0x0A] @ ''7'' @ [CHR 0x0A])
      else if path = ''../../../../../activermt/opcode_action_mapping.csv'' then Some (''EOF,skip'' @ [CHR 0x0A] @ ''NOP,skip'' @ [CHR 0x0A])
      else if path = ''../../../activesrc/kvstore.memidx.csv'' \<or> path = ''../../../activesrc/hh.memidx.csv'' then Some (''0'' @ [CHR 0x0A] @ ''1'' @ [CHR 0x0A])
      else None)"

definition demo_kv_bin :: "string \<Rightarrow> u8 list option" where
  "demo_kv_bin path = (if path = ''../../../activesrc/kvstore.apo'' \<or> path = ''../../../activesrc/hh.apo'' then Some [0, 1, 0, 0] else None)"

definition demo_client :: "kv_apps c_result" where
  "demo_client = kv_main False demo_kv_bin demo_kv_txt (\<lambda>_. 0) (\<lambda>_. 0) (Some ''2'') 9"

lemma demo_files_ok:
  "is_ok (read_opcode_action_map (demo_kv_txt ''../../../../../activermt/opcode_action_mapping.csv'') zero_instr_set)"
  "is_ok (read_active_function demo_kv_bin demo_kv_txt (\<lambda>_. 0) zero_def ''../../../activesrc'' ''kvstore'')"
  "is_ok (read_active_function demo_kv_bin demo_kv_txt (\<lambda>_. 0) zero_def ''../../../activesrc'' ''hh'')"
  "atoi ''2'' = 2"
  by code_simp+

lemma demo_keys_split: "fgets_all 1023 (''5'' @ [CHR 0x0A] @ ''7'' @ [CHR 0x0A]) = [''5'' @ [CHR 0x0A], ''7'' @ [CHR 0x0A]]"
  by code_simp

lemma demo_keys:
  obtains dist where "read_key_dist (demo_kv_txt ''zipf_dist_a_1.1_n_100000.csv'') (\<lambda>_. 0) = Inr (dist, 2)"
  using demo_keys_split by (simp add: read_key_dist_def demo_kv_txt_def numeral_2_eq_2)

lemma demo_client_apps:
  obtains apps dist where "kv_main False demo_kv_bin demo_kv_txt (\<lambda>_. 0) (\<lambda>_. 0) (Some ''2'') 9 = Inr apps" "num_apps apps = 2"
    "read_key_dist (demo_kv_txt ''zipf_dist_a_1.1_n_100000.csv'') (\<lambda>_. 0) = Inr (dist, 2)" "demo_client = Inr apps"
proof -
  obtain dist where k: "read_key_dist (demo_kv_txt ''zipf_dist_a_1.1_n_100000.csv'') (\<lambda>_. 0) = Inr (dist, 2)" by (rule demo_keys)
  obtain iset p0 p1 where "read_opcode_action_map (demo_kv_txt ''../../../../../activermt/opcode_action_mapping.csv'') zero_instr_set = Inr iset"
    "read_active_function demo_kv_bin demo_kv_txt (\<lambda>_. 0) zero_def ''../../../activesrc'' ''kvstore'' = Inr p0"
    "read_active_function demo_kv_bin demo_kv_txt (\<lambda>_. 0) zero_def ''../../../activesrc'' ''hh'' = Inr p1"
    using demo_files_ok(1-3) by (metis is_ok.elims(2))
  then have "\<exists>apps. kv_main False demo_kv_bin demo_kv_txt (\<lambda>_. 0) (\<lambda>_. 0) (Some ''2'') 9 = Inr apps \<and> num_apps apps = 2"
    using k demo_files_ok(4) by (simp add: kv_main_def Let_def)
  then show thesis using k that by (auto simp: demo_client_def)
qed

theorem kv_generator_total_witness:
  "\<exists>apps. demo_client = Inr apps \<and> (\<exists>c m'. construct_packet demo_kv_env (\<lambda>_ _. 0) (Some [1, 2, 3, 4, 5, 6]) (apps_ctxt apps 1) demo_mbuf = Inr (Some (c, m')))"
proof -
  obtain apps dist where a: "kv_main False demo_kv_bin demo_kv_txt (\<lambda>_. 0) (\<lambda>_. 0) (Some ''2'') 9 = Inr apps" "num_apps apps = 2"
    "read_key_dist (demo_kv_txt ''zipf_dist_a_1.1_n_100000.csv'') (\<lambda>_. 0) = Inr (dist, 2)" "demo_client = Inr apps"
    by (rule demo_client_apps)
  show ?thesis
    using kv_generator_total [OF a(1) kv_reach.start [of demo_kv_env "\<lambda>_ _. 0" id apps] _ a(3), of 1 "\<lambda>_ _. 0" "[1, 2, 3, 4, 5, 6]" demo_mbuf] a(2,4)
    by (intro exI [of _ apps]) (simp add: ctrl_init_def)
qed


definition demo_tx_kv :: kv_ctxt where
  "demo_tx_kv = zero_kv_ctxt\<lparr>app_context := demo_kv, is_active := True, ctx_fid := 1\<rparr>"

theorem kv_request_layout_witness:
  "\<exists>c' m'. construct_packet demo_kv_env (\<lambda>_ _. 0) (Some [1, 2, 3, 4, 5, 6]) demo_tx_kv demo_mbuf = Inr (Some (c', m')) \<and> mb_pkt_len m' = 68"
proof -
  have c: "0 \<le> mut_proglen (mutant (current_program demo_tx_kv))" "activate_packets demo_tx_kv" "request_code demo_tx_kv = []"
    by (simp_all add: demo_tx_kv_def zero_kv_ctxt_def zero_def_def activate_packets_def request_code_def mutant_list_def)
  obtain kc args where t: "tx_update_args demo_kv_env (app_context demo_tx_kv) (\<lambda>_. 0) = Inr (kc, args)"
    by (simp add: demo_tx_kv_def tx_update_args_def Let_def demo_kv_def zero_kv_def demo_cache_def zero_cache_def)
  show ?thesis
    using kv_request_layout [OF _ c(1) t refl, of "[1, 2, 3, 4, 5, 6]" "\<lambda>_ _. 0" demo_mbuf] c(2,3) by auto
qed

text \<open>An echoed UDP packet for port 36.\<close>

theorem kv_reply_counted_witness:
  "\<exists>apps'. kv_rx_packet demo_kv_env 0 \<lparr>num_apps = 1, apps_ctxt = (\<lambda>_. demo_tx_kv), apps_stats = (\<lambda>_. zero_app_stats), apps_app_id = (\<lambda>_. 0)\<rparr>
      \<lparr>mb_data = (\<lambda>i. if i = 12 then 8 else if i = 23 then 17 else 0), mb_pkt_len = 42, mb_data_len = 42\<rparr> = Inr apps'
    \<and> counted False demo_kv (app_context (apps_ctxt apps' 0))"
proof -
  let ?apps = "\<lparr>num_apps = 1, apps_ctxt = (\<lambda>_. demo_tx_kv), apps_stats = (\<lambda>_. zero_app_stats), apps_app_id = (\<lambda>_. 0)\<rparr>"
  let ?m = "\<lparr>mb_data = (\<lambda>i. if i = 12 then 8 else if i = 23 then 17 else 0), mb_pkt_len = 42, mb_data_len = 42\<rparr>"
  have n: "cc_num_samples (kc_cache (app_context (apps_ctxt ?apps 0))) < MAX_SAMPLES_CACHE"
    by (simp add: demo_tx_kv_def demo_kv_def demo_cache_def zero_cache_def)
  have m: "ntohs (load16 (mb_data ?m) 12) = RTE_ETHER_TYPE_IPV4 \<and> load8 (mb_data ?m) 23 = IPPROTO_UDP \<and> find_port ?apps (ntohs (load16 (mb_data ?m) 36)) = Some 0"
    by (simp add: load16_def load8_def htons_def find_port_def demo_tx_kv_def demo_kv_def zero_kv_def)
  show ?thesis
    using kv_reply_counted [OF n, of False ?m demo_kv_env 0] m by (auto simp: demo_tx_kv_def)
qed

text \<open>An instance that synchronises one word of stage 4, already received, at the end of its scan.\<close>

definition demo_kv_sync :: kv_ctxt where
  "demo_kv_sync = zero_kv_ctxt\<lparr>status := SNAPSHOTTING, is_active := True, allocation := zero_memory\<lparr>valid_stages := (\<lambda>i. if i = 4 then 1 else 0),
     syncmap := (\<lambda>i. if i = 4 then 1 else 0), sync_data := (\<lambda>_. zero_stage\<lparr>ms_valid := (\<lambda>_. 1)\<rparr>)\<rparr>\<rparr>"

definition demo_kv_sync_apps :: kv_apps where
  "demo_kv_sync_apps = \<lparr>num_apps = 1, apps_ctxt = (\<lambda>_. demo_kv_sync), apps_stats = (\<lambda>_. zero_app_stats), apps_app_id = (\<lambda>_. 0)\<rparr>"

definition demo_kv_at :: "nat \<Rightarrow> nat option \<Rightarrow> kv_state" where
  "demo_kv_at i w = (ctrl_init demo_kv_sync_apps)\<lparr>cs_now := 1000, cs_pc := Scan Snap 0 False i w,
     cs_apps := set_ctxt 0 (demo_kv_sync\<lparr>allocation := (allocation demo_kv_sync)\<lparr>sync_start_time := 1000\<rparr>\<rparr>) demo_kv_sync_apps\<rparr>"

lemmas demo_kv_defs = demo_kv_at_def demo_kv_sync_apps_def demo_kv_sync_def ctrl_init_def kv_ctrl_step_def scan_step_def zero_stage_def

lemma demo_kv_steps:
  "i < 20 \<Longrightarrow> i \<noteq> 4 \<Longrightarrow> kv_ctrl_step demo_kv_env (\<lambda>_ _. 0) id demo_env (demo_kv_at i None) = Inr (demo_kv_at (Suc i) None)"
  "kv_ctrl_step demo_kv_env (\<lambda>_ _. 0) id demo_env (demo_kv_at 4 None) = Inr (demo_kv_at 4 (Some 0))"
  "kv_ctrl_step demo_kv_env (\<lambda>_ _. 0) id demo_env (demo_kv_at 4 (Some 0)) = Inr (demo_kv_at 4 (Some 1))"
  "kv_ctrl_step demo_kv_env (\<lambda>_ _. 0) id demo_env (demo_kv_at 4 (Some 1)) = Inr (demo_kv_at 5 None)"
  by (simp_all add: demo_kv_defs scan_word_def Let_def)

lemma demo_kv_start:
  "kv_ctrl_step demo_kv_env (\<lambda>_ _. 0) id demo_env (ctrl_init demo_kv_sync_apps) = Inr ((ctrl_init demo_kv_sync_apps)\<lparr>cs_now := 1000, cs_pc := Poll 0\<rparr>)"
  "kv_ctrl_step demo_kv_env (\<lambda>_ _. 0) id demo_env ((ctrl_init demo_kv_sync_apps)\<lparr>cs_now := 1000, cs_pc := Poll 0\<rparr>) = Inr (demo_kv_at 0 None)"
  by (simp_all add: demo_kv_defs demo_env_def kv_poll_app_def poll_app_def Let_def)

lemma demo_kv_reach: "i \<le> 20 \<Longrightarrow> kv_reach demo_kv_env (\<lambda>_ _. 0) id demo_kv_sync_apps (demo_kv_at i None)"
proof (induction i)
  case 0
  show ?case
    by (rule kv_reach.step [OF kv_reach.step [OF kv_reach.start kv_step.control [OF demo_kv_start(1)]] kv_step.control [OF demo_kv_start(2)]])
next
  case (Suc i)
  note r = Suc.IH [OF Suc_leD [OF Suc.prems]]
  show ?case
  proof (cases "i = 4")
    case True
    note s = kv_step.control [OF demo_kv_steps(2)] kv_step.control [OF demo_kv_steps(3)] kv_step.control [OF demo_kv_steps(4)]
    have "Suc i = 5" using True by simp
    then show ?thesis using kv_reach.step [OF kv_reach.step [OF kv_reach.step [OF r [unfolded True] s(1)] s(2)] s(3)] by (simp only:)
  next
    case False
    show ?thesis by (rule kv_reach.step [OF r kv_step.control [OF demo_kv_steps(1) [OF Suc_le_lessD [OF Suc.prems] False]]])
  qed
qed


end
