(* ===== verification/AP4_Server.thy ===== *)
theory AP4_Server
  imports AP4_KvNet AP4_Netutils
begin

text \<open>
  The key-value server (\<open>examples/kv_store/app/dpdk/server/dpdk-ap4server.c\<close>): it sends every packet
  back to where it came from.  The packets it receives have been executed by the switch, which
  removes the program and leaves the active header and the arguments.
\<close>

subsection \<open>Model\<close>

text \<open>The position of the IPv4 header: behind the active header and the arguments, if there are any.\<close>

definition server_ip_offset :: "buffer \<Rightarrow> nat" where
  "server_ip_offset b =
     (if ntohs (load16 b 12) = AP4_ETHER_TYPE_AP4 then 10 + (if ntohs (load16 b 18) AND AP4FLAGMASK_OPT_ARGS \<noteq> 0 then 16 else 0) else 0)"

definition swap_ether_addrs :: "buffer \<Rightarrow> buffer" where
  "swap_ether_addrs b = (let tmp = load_bytes b 6 6 in store_bytes 0 tmp (store_bytes 6 (load_bytes b 0 6) b))"

definition swap_ipv4_addrs :: "nat \<Rightarrow> buffer \<Rightarrow> buffer" where
  "swap_ipv4_addrs pos b = (let tmp = load32 b (pos + 12) in store32 (pos + 16) tmp (store32 (pos + 12) (load32 b (pos + 16)) b))"

definition process_packet :: "buffer \<Rightarrow> nat \<Rightarrow> buffer \<times> nat" where
  "process_packet pkt pktlen =
     (let pkt = swap_ether_addrs pkt; ip_offset = server_ip_offset pkt in (swap_ipv4_addrs (14 + ip_offset) pkt, pktlen))"

text \<open>
  One burst of a port: the received packets, the number of them the driver accepts for transmission;
  the result is what is sent and what is freed.
\<close>

definition server_burst :: "mbuf list \<Rightarrow> nat \<Rightarrow> mbuf list \<times> mbuf list" where
  "server_burst bufs nb_tx =
     (if bufs = [] then ([], [])
      else let bufs = map (\<lambda>m. let (b, n) = process_packet (mb_data m) (mb_pkt_len m) in m\<lparr>mb_data := b, mb_pkt_len := n, mb_data_len := n\<rparr>) bufs
           in (take nb_tx bufs, drop nb_tx bufs))"

subsection \<open>Echo\<close>

lemma swap_ether_at:
  "swap_ether_addrs b k = (if k < 6 then b (k + 6) else if k < 12 then b (k - 6) else b k)"
  by (simp add: swap_ether_addrs_def Let_def store_bytes_def load_bytes_def) (simp add: add.commute)

lemma bytes_of_load32:
  "ucast (load32 b i) = b i" "ucast (drop_bit 8 (load32 b i)) = b (i + 1)"
  "ucast (drop_bit 16 (load32 b i)) = b (i + 2)" "ucast (drop_bit 24 (load32 b i)) = b (i + 3)"
  by (rule bit_word_eqI; auto simp: load32_def bit_simps dest: bit_imp_le_length)+

lemma swap_ipv4_at:
  "swap_ipv4_addrs pos b k = (if pos + 12 \<le> k \<and> k < pos + 16 then b (k + 4) else if pos + 16 \<le> k \<and> k < pos + 20 then b (k - 4) else b k)"
proof -
  consider "k = pos + 12" | "k = pos + 13" | "k = pos + 14" | "k = pos + 15" | "k = pos + 16" | "k = pos + 17" | "k = pos + 18" | "k = pos + 19"
    | "k < pos + 12 \<or> pos + 20 \<le> k" by linarith
  then show ?thesis
    by cases (auto simp: swap_ipv4_addrs_def Let_def store32_def bytes_of_load32 add.commute)
qed

lemma server_ip_offset_swap: "server_ip_offset (swap_ether_addrs b) = server_ip_offset b"
  by (simp add: server_ip_offset_def load16_def swap_ether_at)

lemma server_ip_offset_ipv4: "server_ip_offset (swap_ipv4_addrs (14 + server_ip_offset b) b) = server_ip_offset b"
  by (auto simp: server_ip_offset_def load16_def swap_ipv4_at)

definition echo :: "buffer \<Rightarrow> buffer" where
  "echo b = fst (process_packet b 0)"

lemma echo_eq: "echo b = swap_ipv4_addrs (14 + server_ip_offset b) (swap_ether_addrs b)"
  by (simp add: echo_def process_packet_def Let_def server_ip_offset_swap)

lemma process_packet_echo: "process_packet b n = (echo b, n)"
  by (simp add: echo_def process_packet_def Let_def)

lemma server_ip_offset_echo: "server_ip_offset (echo b) = server_ip_offset b"
  using server_ip_offset_ipv4 [of "swap_ether_addrs b"] by (simp add: echo_eq server_ip_offset_swap)

text \<open>The server permutes the bytes of the packet; \<open>p\<close> is the position of the IPv4 header.\<close>

definition echo_pos :: "nat \<Rightarrow> nat \<Rightarrow> nat" where
  "echo_pos p k = (if k < 6 then k + 6 else if k < 12 then k - 6
     else if p + 12 \<le> k \<and> k < p + 16 then k + 4 else if p + 16 \<le> k \<and> k < p + 20 then k - 4 else k)"

lemma echo_pos_simps:
  "14 \<le> p \<Longrightarrow> echo_pos p (echo_pos p k) = k"
  "14 \<le> p \<Longrightarrow> i < 4 \<Longrightarrow> echo_pos p (p + 12 + i) = p + 16 + i"
  "14 \<le> p \<Longrightarrow> i < 4 \<Longrightarrow> echo_pos p (p + 16 + i) = p + 12 + i"
  "12 \<le> k \<Longrightarrow> \<not> (p + 12 \<le> k \<and> k < p + 20) \<Longrightarrow> echo_pos p k = k"
  "k < 6 \<Longrightarrow> echo_pos p k = 6 + k" "k < 6 \<Longrightarrow> echo_pos p (6 + k) = k"
  by (auto simp: echo_pos_def)

lemma echo_at:
  assumes "p = 14 + server_ip_offset b"
  shows "echo b k = b (echo_pos p k)"
proof -
  have "\<not> p + 12 \<le> k" "\<not> p + 16 \<le> k" if "k < 12" using that by simp_all
  moreover have "\<not> k + 4 < 12" "\<not> k + 4 < 6" if "p + 12 \<le> k" using that assms by simp_all
  moreover have "\<not> k - 4 < 12" "\<not> k - 4 < 6" if "p + 16 \<le> k" using that assms by simp_all
  ultimately show ?thesis unfolding echo_eq swap_ipv4_at swap_ether_at echo_pos_def assms [symmetric] by auto
qed

lemma echo_echo: "echo (echo b) = b"
proof
  fix k
  have "14 + server_ip_offset b = 14 + server_ip_offset (echo b)" by (simp only: server_ip_offset_echo)
  then show "echo (echo b) k = b k" using echo_at [of _ "echo b"] echo_at [OF refl, of b] by (simp add: echo_pos_simps(1))
qed

definition echo_word :: "nat \<Rightarrow> nat" where
  "echo_word i = (if i = 6 \<or> i = 7 then i + 2 else if i = 8 \<or> i = 9 then i - 2 else i)"

lemma load16_echo:
  assumes "p = 14 + server_ip_offset b"
  shows "load16 (echo b) (p + 2 * i) = load16 b (p + 2 * echo_word i)"
proof -
  have "echo_pos p (p + 2 * i) = p + 2 * echo_word i \<and> echo_pos p (p + 2 * i + 1) = p + 2 * echo_word i + 1"
    using assms by (auto simp: echo_pos_def echo_word_def)
  then show ?thesis by (simp add: load16_def echo_at [OF assms])
qed

lemma echo_checksum:
  assumes "p = 14 + server_ip_offset b"
  shows "compute_checksum (echo b) p 20 = compute_checksum b p 20"
proof -
  have "(\<Sum>i<10. unat (load16 (echo b) (p + 2 * i))) = (\<Sum>i<10. unat (load16 b (p + 2 * i)))"
    unfolding load16_echo [OF assms] by (simp add: eval_nat_numeral echo_word_def)
  then have "unat (compute_checksum (echo b) p 20) = unat (compute_checksum b p 20)"
    using compute_checksum_even [of 10] by simp
  then show ?thesis by (rule word_unat_eq_iff [THEN iffD2])
qed

text \<open>
  The server's reply.  Whatever the packet, the server keeps its length, exchanges the Ethernet
  addresses and the IPv4 addresses, leaves every other byte alone, and needs no new IPv4 checksum: the
  header sums to the same value as before.  Processing the reply again gives the request.
\<close>

theorem server_echo:
  assumes "process_packet b n = (b', n')" "p = 14 + server_ip_offset b"
  shows "n' = n \<and> process_packet b' n' = (b, n) \<and> load_bytes b' 0 6 = load_bytes b 6 6 \<and> load_bytes b' 6 6 = load_bytes b 0 6
    \<and> load32 b' (p + 12) = load32 b (p + 16) \<and> load32 b' (p + 16) = load32 b (p + 12)
    \<and> compute_checksum b' p 20 = compute_checksum b p 20 \<and> (\<forall>k. 12 \<le> k \<and> \<not> (p + 12 \<le> k \<and> k < p + 20) \<longrightarrow> b' k = b k)"
proof -
  have b': "b' = echo b" "n' = n" using assms(1) process_packet_echo [of b n] by simp_all
  note at = echo_at [OF assms(2)]
  have "load_bytes (echo b) 0 6 = load_bytes b 6 6" "load_bytes (echo b) 6 6 = load_bytes b 0 6"
    by (simp_all add: load_bytes_def at echo_pos_simps)
  moreover have "load32 (echo b) (p + 12) = load32 b (p + 16)" "load32 (echo b) (p + 16) = load32 b (p + 12)"
    using echo_pos_simps(2,3) [of p 0] echo_pos_simps(2,3) [of p 1] echo_pos_simps(2,3) [of p 2] echo_pos_simps(2,3) [of p 3] assms(2)
    by (simp_all add: load32_def at)
  moreover have "process_packet (echo b) n = (b, n)" using echo_echo process_packet_echo by simp
  moreover have "\<forall>k. 12 \<le> k \<and> \<not> (p + 12 \<le> k \<and> k < p + 20) \<longrightarrow> echo b k = b k" by (simp add: at echo_pos_simps(4))
  ultimately show ?thesis using echo_checksum [OF assms(2)] unfolding b' by blast
qed

theorem server_echo_witness:
  "process_packet (\<lambda>i. of_nat i) 42 = (echo (\<lambda>i. of_nat i), 42) \<and> compute_checksum (echo (\<lambda>i. of_nat i)) 14 20 = compute_checksum (\<lambda>i. of_nat i) 14 20"
proof -
  have "server_ip_offset (\<lambda>i. of_nat i) = 0" by (simp add: server_ip_offset_def load16_def htons_def)
  then show ?thesis using server_echo [OF process_packet_echo [of "\<lambda>i. of_nat i" 42], of 14] process_packet_echo by simp
qed

subsection \<open>Client, switch and server\<close>

lemma kv_reach_identity:
  assumes "kv_main modular bin txt stale stale' arg ts = Inr apps" "kv_reach kv cksum to_us apps s" "j < num_apps apps"
    and "read_key_dist (txt ''zipf_dist_a_1.1_n_100000.csv'') (\<lambda>_. 0) = Inr (dist, n)" "0 < n"
  shows "ctxt_kv modular dist n j (apps_ctxt (cs_apps s) j)"
proof -
  have "ctxt_kv modular dist n j (apps_ctxt apps j)"
    using assms(1,3-5) by (auto elim!: kv_main_started simp: kv_started_def ctxt_kv_def kv_good_def)
  then show ?thesis using kv_reach_good [OF assms(2)] by blast
qed

text \<open>With at most \<open>65535\<close> instances, identifiers and ports are distinct and find their instance.\<close>

lemma find_instance:
  assumes "\<And>j. j < num_apps apps \<Longrightarrow> ctxt_kv modular dist n j (apps_ctxt apps j)" "i < num_apps apps" "num_apps apps < 65536"
  shows "find_ctxt apps (word_of_int (ctx_fid (apps_ctxt apps i))) = Some i" "find_port apps (app_port (app_context (apps_ctxt apps i))) = Some i"
proof -
  have c: "ctx_fid (apps_ctxt apps j) = int (Suc j)" "app_port (app_context (apps_ctxt apps j)) = of_nat (PORT_START + j)" if "j < num_apps apps" for j
    using assms(1) [OF that] by (auto simp: ctxt_kv_def kv_good_def)
  have fid: "int (unat (word_of_int (ctx_fid (apps_ctxt apps i)) :: u16)) = int (Suc i)"
    using c(1) [OF assms(2)] assms(2,3) by (simp add: unat_of_nat take_bit_nat_eq_self flip: of_nat_Suc)
  have "filter (\<lambda>j. ctx_fid (apps_ctxt apps j) = int (Suc i)) [0..<num_apps apps] = filter (\<lambda>j. j = i) [0..<num_apps apps]"
    using c(1) by (intro filter_cong) auto
  also have "\<dots> = [i]"
  proof -
    have "i < m \<Longrightarrow> filter (\<lambda>j. j = i) [0..<m] = [i]" for m
      by (induction m) (auto simp: less_Suc_eq filter_empty_conv)
    then show ?thesis using assms(2) by blast
  qed
  finally show "find_ctxt apps (word_of_int (ctx_fid (apps_ctxt apps i))) = Some i" unfolding find_ctxt_def fid by simp
  have "(of_nat (PORT_START + i) :: u16) \<noteq> of_nat (PORT_START + j)" if "j < i" for j
  proof
    assume "(of_nat (PORT_START + i) :: u16) = of_nat (PORT_START + j)"
    then have "(PORT_START + i) mod 65536 = (PORT_START + j) mod 65536" unfolding word_of_nat_eq_iff take_bit_eq_mod by simp
    then have "65536 dvd i - j" using that mod_eq_dvd_iff_nat [of "PORT_START + j" "PORT_START + i" 65536] by simp
    then show False using that assms(2,3) dvd_imp_le [of 65536 "i - j"] by simp
  qed
  then show "find_port apps (app_port (app_context (apps_ctxt apps i))) = Some i"
    using c(2) assms(2) by (auto simp: find_port_def find_Some_iff intro!: exI [of _ i])
qed

lemma construct_packet_samples:
  assumes "construct_packet kv cksum mac c m = Inr (Some (c', m'))"
  shows "cc_num_samples (kc_cache (app_context c')) = cc_num_samples (kc_cache (app_context c))"
  using assms
  by (auto simp: construct_packet_def tx_update_args_def Let_def bind_result_Inr_iff split: option.splits if_splits)

lemma server_burst_one: "server_burst [r] 1 = ([r\<lparr>mb_data := echo (mb_data r), mb_data_len := mb_pkt_len r\<rparr>], [])"
  by (simp add: server_burst_def process_packet_echo)

text \<open>The server leaves the Ethernet type, the active header, the arguments and the ports alone.\<close>

lemma echo_loads:
  "load16 (echo b) 12 = load16 b 12" "load32 (echo b) 14 = load32 b 14" "load16 (echo b) 18 = load16 b 18" "load16 (echo b) 20 = load16 b 20"
  "load8 (echo b) 23 = load8 b 23" "ntohs (load16 b 12) \<noteq> AP4_ETHER_TYPE_AP4 \<Longrightarrow> load16 (echo b) 36 = load16 b 36"
  "ntohs (load16 b 12) = AP4_ETHER_TYPE_AP4 \<Longrightarrow> ntohs (load16 b 18) AND AP4FLAGMASK_OPT_ARGS \<noteq> 0 \<Longrightarrow> load32 (echo b) 36 = load32 b 36"
proof -
  have k: "echo b k = b k" if "12 \<le> k" "k < 26 \<or> 34 + server_ip_offset b \<le> k \<or> k < 26 + server_ip_offset b" for k
    using that by (auto simp: echo_at [OF refl] intro!: arg_cong [of _ _ b] echo_pos_simps(4))
  show "load16 (echo b) 12 = load16 b 12" "load32 (echo b) 14 = load32 b 14" "load16 (echo b) 18 = load16 b 18" "load16 (echo b) 20 = load16 b 20"
    "load8 (echo b) 23 = load8 b 23" by (simp_all add: load8_def load16_def load32_def k)
  show "load16 (echo b) 36 = load16 b 36" if "ntohs (load16 b 12) \<noteq> AP4_ETHER_TYPE_AP4"
    using that by (simp add: load16_def k server_ip_offset_def)
  show "load32 (echo b) 36 = load32 b 36" if "ntohs (load16 b 12) = AP4_ETHER_TYPE_AP4" "ntohs (load16 b 18) AND AP4FLAGMASK_OPT_ARGS \<noteq> 0"
    using that by (simp add: load32_def k server_ip_offset_def)
qed

lemma constructed:
  assumes "activate_packets c \<Longrightarrow> 0 \<le> mut_proglen (mutant (current_program c))" "length addr = 6" "0 < distsize (app_context c)"
  obtains c' p where "construct_packet kv cksum (Some addr) c m = Inr (Some (c', p))" "c' = c\<lparr>app_context := app_context c'\<rparr>"
    "activate_packets c \<Longrightarrow> ctrl_packet p (AP4FLAGMASK_OPT_ARGS OR AP4FLAGMASK_FLAG_PRELOAD) (ctx_fid c)"
    "\<not> activate_packets c \<Longrightarrow> ntohs (load16 (mb_data p) 12) = RTE_ETHER_TYPE_IPV4 \<and> load8 (mb_data p) 23 = IPPROTO_UDP
        \<and> ntohs (load16 (mb_data p) 36) = app_port (app_context c)"
proof (cases "activate_packets c")
  case True
  obtain kc args where t: "tx_update_args kv (app_context c) (\<lambda>_. 0) = Inr (kc, args)"
    using assms(3) by (cases "tx_update_args kv (app_context c) (\<lambda>_. 0)") (auto simp: tx_update_args_def Let_def split: if_splits)
  show ?thesis
    using kv_request_layout [OF assms(2) assms(1) [OF True] t refl, of cksum m] True by (auto intro!: that)
next
  case False
  show ?thesis
    using False assms(2) put_udp_at [of cksum 14 "ipv4_srcaddr c" "kc_ipv4_dstaddr (app_context c)" "app_port (app_context c)" "app_port (app_context c)"
        "put_ether_addrs addr (put_ether_type RTE_ETHER_TYPE_IPV4 (mb_data m))"]
    by (intro that [of c]) (auto simp: construct_packet_def Let_def set_len_def put_udp_below put_ether_ip_type udp_at_def)
qed



end
