(* ===== verification/AP4_Stats.thy ===== *)
theory AP4_Stats
  imports AP4_Prelude
begin

text \<open>
  The statistics counters (\<open>common/stats.h\<close>): a monitor thread that samples two shared counters once a
  second and resets them, and the threads that count.  A step is one access to the shared counters or
  one critical section; the model has one step between every two of them where another thread can run.
\<close>

abbreviation (input) MAX_STATS_SAMPLES :: nat where "MAX_STATS_SAMPLES \<equiv> 10000"

subsection \<open>Model\<close>

record stats_t =
  count :: u64
  count_alt :: u64
  numSamples :: nat
  reqRate :: "u64 arr"
  reqRateAlt :: "u64 arr"
  ts_sec :: "u64 arr"
  ts_nsec :: "u64 arr"

record timespec =
  tv_sec :: int
  tv_nsec :: int

definition elapsed_ns :: "timespec \<Rightarrow> timespec \<Rightarrow> int" where
  "elapsed_ns now start = (tv_sec now - tv_sec start) * 1000000000 + (tv_nsec now - tv_nsec start)"

text \<open>
  The places of \<open>monitor_stats\<close>: at the clock, between the two rates, and in front of the two
  critical sections.
\<close>

datatype monitor_pc = MonPoll | MonRate | MonReset | MonResetAlt

definition monitor_sample :: "timespec \<Rightarrow> stats_t \<Rightarrow> stats_t" where
  "monitor_sample now stats =
     (let n = numSamples stats in
      stats\<lparr>ts_sec := (ts_sec stats)(n := word_of_int (tv_sec now)), ts_nsec := (ts_nsec stats)(n := word_of_int (tv_nsec now)),
        reqRateAlt := (reqRateAlt stats)(n := count_alt stats)\<rparr>)"

fun monitor_stats :: "timespec \<Rightarrow> monitor_pc \<Rightarrow> timespec \<Rightarrow> stats_t \<Rightarrow> monitor_pc \<times> timespec \<times> stats_t" where
  "monitor_stats now MonPoll start stats =
     (if elapsed_ns now start \<ge> 1000000000 \<and> numSamples stats < MAX_STATS_SAMPLES then (MonRate, now, monitor_sample now stats)
      else (MonPoll, start, stats))"
| "monitor_stats now MonRate start stats =
     (MonReset, start, stats\<lparr>reqRate := (reqRate stats)(numSamples stats := count stats), numSamples := Suc (numSamples stats)\<rparr>)"
| "monitor_stats now MonReset start stats = (MonResetAlt, start, stats\<lparr>count := 0\<rparr>)"
| "monitor_stats now MonResetAlt start stats = (MonPoll, start, stats\<lparr>count_alt := 0\<rparr>)"

definition add_count :: "nat \<Rightarrow> stats_t \<Rightarrow> stats_t" where
  "add_count n stats = stats\<lparr>count := count stats + of_nat n\<rparr>"

definition add_count_alt :: "nat \<Rightarrow> stats_t \<Rightarrow> stats_t" where
  "add_count_alt n stats = stats\<lparr>count_alt := count_alt stats + of_nat n\<rparr>"

text \<open>
  The threads together.  \<open>ss_section\<close> is a receiver of the POSIX client inside its critical section: it
  has read \<open>count_alt\<close> and has not written it yet.  It holds \<open>lock\<close>, which keeps senders and the reset of
  \<open>count\<close> out; the reset of \<open>count_alt\<close> is guarded by \<open>lock_alt\<close>, which it does not hold.  The last
  four fields only account for what was counted, in total and after the monitor had taken its sample.
\<close>

record stats_sys =
  ss_stats :: stats_t
  ss_pc :: monitor_pc
  ss_start :: timespec
  ss_section :: "(nat \<times> u64) option"
  ss_sent :: nat
  ss_received :: nat
  ss_late :: nat
  ss_late_alt :: nat

definition stats_init :: "timespec \<Rightarrow> stats_sys" where
  "stats_init start =
     \<lparr>ss_stats = \<lparr>count = 0, count_alt = 0, numSamples = 0, reqRate = (\<lambda>_. 0), reqRateAlt = (\<lambda>_. 0), ts_sec = (\<lambda>_. 0), ts_nsec = (\<lambda>_. 0)\<rparr>,
      ss_pc = MonPoll, ss_start = start, ss_section = None, ss_sent = 0, ss_received = 0, ss_late = 0, ss_late_alt = 0\<rparr>"

definition monitor_turn :: "timespec \<Rightarrow> stats_sys \<Rightarrow> stats_sys" where
  "monitor_turn now s =
     (let (pc, start, stats) = monitor_stats now (ss_pc s) (ss_start s) (ss_stats s) in s\<lparr>ss_pc := pc, ss_start := start, ss_stats := stats\<rparr>)"

definition send_turn :: "nat \<Rightarrow> stats_sys \<Rightarrow> stats_sys" where
  "send_turn n s = s\<lparr>ss_stats := add_count n (ss_stats s), ss_sent := ss_sent s + n,
     ss_late := (if ss_pc s = MonReset then ss_late s + n else ss_late s)\<rparr>"

definition receive_turn :: "nat \<Rightarrow> stats_sys \<Rightarrow> stats_sys" where
  "receive_turn n s = s\<lparr>ss_stats := add_count_alt n (ss_stats s), ss_received := ss_received s + n,
     ss_late_alt := (if ss_pc s \<noteq> MonPoll then ss_late_alt s + n else ss_late_alt s)\<rparr>"

text \<open>
  \<open>posix\<close> distinguishes the POSIX client, whose receivers take \<open>lock\<close>, from the socket layer, whose
  receivers take \<open>lock_alt\<close>.
\<close>

inductive stats_step :: "bool \<Rightarrow> stats_sys \<Rightarrow> stats_sys \<Rightarrow> bool" for posix where
  monitor: "ss_pc s = MonReset \<longrightarrow> ss_section s = None \<Longrightarrow> stats_step posix s (monitor_turn now s)"
| send: "ss_section s = None \<Longrightarrow> stats_step posix s (send_turn n s)"
| receive: "\<not> posix \<Longrightarrow> stats_step posix s (receive_turn n s)"
| enter: "posix \<Longrightarrow> ss_section s = None \<Longrightarrow> stats_step posix s (s\<lparr>ss_section := Some (n, count_alt (ss_stats s))\<rparr>)"
| leave: "posix \<Longrightarrow> ss_section s = Some (n, c) \<Longrightarrow>
    stats_step posix s (s\<lparr>ss_section := None, ss_stats := (ss_stats s)\<lparr>count_alt := c + of_nat n\<rparr>, ss_received := ss_received s + n\<rparr>)"

inductive stats_reach :: "bool \<Rightarrow> stats_sys \<Rightarrow> bool" for posix where
  start: "stats_reach posix (stats_init start)"
| step: "stats_reach posix s \<Longrightarrow> stats_step posix s s' \<Longrightarrow> stats_reach posix s'"

subsection \<open>Every counted event is accounted for\<close>

definition recorded :: "stats_t \<Rightarrow> nat" where
  "recorded st = (\<Sum>i<numSamples st. unat (reqRate st i))"

definition recorded_alt :: "stats_t \<Rightarrow> nat" where
  "recorded_alt st = (\<Sum>i<numSamples st. unat (reqRateAlt st i))"

text \<open>What the counters still hold that no sample has recorded.\<close>

definition pending :: "stats_sys \<Rightarrow> nat" where
  "pending s = (if ss_pc s = MonReset then 0 else unat (count (ss_stats s)))"

text \<open>Between the two rates the sample of \<open>count_alt\<close> is taken, but does not count as a sample yet.\<close>

definition pending_alt :: "stats_sys \<Rightarrow> nat" where
  "pending_alt s =
     (case ss_pc s of MonPoll \<Rightarrow> unat (count_alt (ss_stats s)) | MonRate \<Rightarrow> unat (reqRateAlt (ss_stats s) (numSamples (ss_stats s))) | _ \<Rightarrow> 0)"

lemma unat_add_of_nat: "unat x + n < 2 ^ 64 \<Longrightarrow> unat (x + of_nat n) = unat x + n" for x :: u64
  by (simp add: unat_word_ariths unat_of_nat take_bit_nat_eq_self)

definition conserved :: "bool \<Rightarrow> stats_sys \<Rightarrow> bool" where
  "conserved posix s \<longleftrightarrow> numSamples (ss_stats s) \<le> MAX_STATS_SAMPLES \<and> (ss_pc s = MonRate \<longrightarrow> numSamples (ss_stats s) < MAX_STATS_SAMPLES)
     \<and> (ss_sent s < 2 ^ 64 \<longrightarrow> ss_sent s = recorded (ss_stats s) + pending s + ss_late s)
     \<and> (\<not> posix \<longrightarrow> ss_section s = None \<and> (ss_received s < 2 ^ 64 \<longrightarrow> ss_received s = recorded_alt (ss_stats s) + pending_alt s + ss_late_alt s))"

lemmas stats_defs = conserved_def pending_def pending_alt_def recorded_def recorded_alt_def

lemma monitor_conserved:
  assumes "conserved posix s"
  shows "conserved posix (monitor_turn now s)"
proof (cases "ss_pc s")
  case MonPoll
  then show ?thesis using assms by (auto simp: monitor_turn_def stats_defs monitor_sample_def Let_def)
next
  case MonRate
  then show ?thesis using assms by (auto simp: monitor_turn_def stats_defs)
next
  case MonReset
  then show ?thesis using assms by (auto simp: monitor_turn_def stats_defs)
next
  case MonResetAlt
  then show ?thesis using assms by (auto simp: monitor_turn_def stats_defs)
qed

lemma send_conserved: "conserved posix s \<Longrightarrow> conserved posix (send_turn n s)"
  using unat_add_of_nat [of "count (ss_stats s)" n]
  by (cases "ss_pc s") (auto simp: send_turn_def stats_defs add_count_def)

lemma receive_conserved: "conserved posix s \<Longrightarrow> conserved posix (receive_turn n s)"
  using unat_add_of_nat [of "count_alt (ss_stats s)" n]
  by (cases "ss_pc s") (auto simp: receive_turn_def stats_defs add_count_alt_def)

lemma section_conserved:
  assumes "conserved True s"
  shows "conserved True (s\<lparr>ss_section := x\<rparr>)"
    and "conserved True (s\<lparr>ss_section := x, ss_stats := (ss_stats s)\<lparr>count_alt := c\<rparr>, ss_received := m\<rparr>)"
  using assms by (auto simp: stats_defs)

lemma reach_conserved: "stats_reach posix s \<Longrightarrow> conserved posix s"
proof (induction rule: stats_reach.induct)
  case (start start)
  show ?case by (simp add: stats_init_def stats_defs)
next
  case (step s s')
  from step.hyps(2) show ?case
  proof (cases rule: stats_step.cases)
    case (monitor now)
    then show ?thesis using step.IH monitor_conserved by blast
  next
    case (send n)
    then show ?thesis using step.IH send_conserved by blast
  next
    case (receive n)
    then show ?thesis using step.IH receive_conserved by blast
  next
    case (enter n)
    then show ?thesis using step.IH section_conserved(1) [of s] by simp
  next
    case (leave n c)
    then show ?thesis using step.IH section_conserved(2) [of s] by simp
  qed
qed


subsection \<open>Runs\<close>

text \<open>
  Turns of the threads as a list, executed in order; \<open>None\<close> where a turn is not possible.
\<close>

datatype turn = Monitor timespec | Send nat | Receive nat | Enter nat | Leave

fun run_turn :: "bool \<Rightarrow> turn \<Rightarrow> stats_sys \<Rightarrow> stats_sys option" where
  "run_turn posix (Monitor now) s = (if ss_pc s = MonReset \<longrightarrow> ss_section s = None then Some (monitor_turn now s) else None)"
| "run_turn posix (Send n) s = (if ss_section s = None then Some (send_turn n s) else None)"
| "run_turn posix (Receive n) s = (if posix then None else Some (receive_turn n s))"
| "run_turn posix (Enter n) s =
     (if posix \<and> ss_section s = None then Some (s\<lparr>ss_section := Some (n, count_alt (ss_stats s))\<rparr>) else None)"
| "run_turn posix Leave s =
     (case ss_section s of
        Some (n, c) \<Rightarrow> if posix then Some (s\<lparr>ss_section := None, ss_stats := (ss_stats s)\<lparr>count_alt := c + of_nat n\<rparr>, ss_received := ss_received s + n\<rparr>) else None
      | None \<Rightarrow> None)"

fun run_turns :: "bool \<Rightarrow> turn list \<Rightarrow> stats_sys \<Rightarrow> stats_sys option" where
  "run_turns posix [] s = Some s"
| "run_turns posix (t # ts) s = (case run_turn posix t s of None \<Rightarrow> None | Some s' \<Rightarrow> run_turns posix ts s')"

lemma run_turn_step: "run_turn posix t s = Some s' \<Longrightarrow> stats_step posix s s'"
proof (cases t)
  case (Monitor now)
  assume "run_turn posix t s = Some s'"
  then have "ss_pc s = MonReset \<longrightarrow> ss_section s = None" "s' = monitor_turn now s"
    using Monitor by (auto split: if_split_asm)
  then show ?thesis using stats_step.monitor by blast
qed (auto split: if_splits option.splits intro: stats_step.intros)

lemma run_turns_reach: "run_turns posix ts s = Some s' \<Longrightarrow> stats_reach posix s \<Longrightarrow> stats_reach posix s'"
  by (induction posix ts s rule: run_turns.induct) (auto split: option.splits intro: stats_reach.step run_turn_step)

abbreviation at_sec :: "int \<Rightarrow> timespec" where
  "at_sec t \<equiv> \<lparr>tv_sec = t, tv_nsec = 0\<rparr>"

lemmas run_defs = stats_init_def monitor_turn_def send_turn_def receive_turn_def add_count_def add_count_alt_def monitor_sample_def elapsed_ns_def Let_def


text \<open>
  The receivers of the POSIX client add to \<open>count_alt\<close> under \<open>lock\<close> while the monitor resets it under
  \<open>lock_alt\<close>: a receiver that has read the counter before the reset writes it back afterwards, and
  the samples record more events than were received.
\<close>

theorem posix_counts_twice:
  "\<exists>s. stats_reach True s \<and> ss_received s < recorded_alt (ss_stats s)"
proof -
  let ?ts = "[Enter 5, Leave, Monitor (at_sec 1), Monitor (at_sec 1), Monitor (at_sec 1), Enter 1, Monitor (at_sec 1), Leave, Monitor (at_sec 2), Monitor (at_sec 2)]"
  let ?s = "the (run_turns True ?ts (stats_init (at_sec 0)))"
  have r: "run_turns True ?ts (stats_init (at_sec 0)) = Some ?s" by (simp add: run_defs)
  have "ss_received ?s < recorded_alt (ss_stats ?s)" by (simp add: run_defs recorded_alt_def lessThan_Suc)
  then show ?thesis using run_turns_reach [OF r stats_reach.start] by blast
qed

end
