(* ===== verification/AP4_Posix.thy ===== *)
theory AP4_Posix
  imports AP4_Stats AP4_Cache
begin

text \<open>
  The POSIX key-value client (\<open>examples/kv_store/app/posix/kvapp.c\<close>): an unmodified program that sends
  its requests through the shim.  Each instance has a sender and a receiver thread; the results of
  the system calls are arguments.  A message is the memory from its first byte on, and its length.
\<close>

abbreviation (input) POSIX_MAX_KEYS :: nat where "POSIX_MAX_KEYS \<equiv> 100000"
abbreviation (input) POSIX_BURST_SIZE :: nat where "POSIX_BURST_SIZE \<equiv> 32"
abbreviation (input) POSIX_BUFSIZE :: nat where "POSIX_BUFSIZE \<equiv> 2048"
abbreviation (input) NUM_SAMPLES_HM :: nat where "NUM_SAMPLES_HM \<equiv> 100000"
abbreviation (input) ZIPF_SIZE :: nat where "ZIPF_SIZE \<equiv> 100000"
abbreviation (input) KVRESP_LEN :: nat where "KVRESP_LEN \<equiv> 16"

type_synonym message = "buffer \<times> nat"

subsection \<open>Model\<close>

text \<open>The key distribution of \<open>main\<close>, read line by line until the array is full.\<close>

fun dist_lines :: "string list \<Rightarrow> u64 list \<Rightarrow> u64 list" where
  "dist_lines [] dist = dist"
| "dist_lines (l # ls) dist =
     (let dist = dist @ [word_of_int (atoi l)] in if ZIPF_SIZE \<le> length dist then dist else dist_lines ls dist)"

definition read_dist :: "string option \<Rightarrow> u64 list c_result" where
  "read_dist file = (case file of None \<Rightarrow> Inl NullDeref | Some content \<Rightarrow> Inr (dist_lines (fgets_all 99 content) []))"

text \<open>The messages prepared by \<open>tx_loop\<close>: a key and eight zero bytes, or nothing for the key zero.\<close>

definition key_memory :: "u64 \<Rightarrow> buffer" where
  "key_memory key = store32 4 (key_hi key) (store32 0 (key_lo key) (\<lambda>_. 0))"

definition posix_message :: "u64 list \<Rightarrow> nat \<Rightarrow> message" where
  "posix_message dist i = (let key = dist ! (i mod length dist) in if key = 0 then (\<lambda>_. 0, 0) else (key_memory key, 16))"

definition tx_prepare :: "u64 list \<Rightarrow> message arr c_result" where
  "tx_prepare dist = (if dist = [] then Inl DivByZero else Inr (posix_message dist))"

fun tx_burst_msgs :: "message arr \<Rightarrow> nat \<Rightarrow> nat \<Rightarrow> message list \<times> nat" where
  "tx_burst_msgs msg 0 key_current = ([], key_current)"
| "tx_burst_msgs msg (Suc n) key_current =
     (let (ms, k) = tx_burst_msgs msg n ((key_current + 1) mod POSIX_MAX_KEYS) in (msg key_current # ms, k))"

text \<open>
  One round of \<open>tx_loop\<close>: the result of \<open>select\<close> (with the flag whether the call was interrupted), whether
  the socket is writable, and the number of messages \<open>sendmmsg\<close> accepts.  The result has the messages
  sent and what is added to \<open>stats.count\<close>.
\<close>

definition posix_tx_round :: "int \<Rightarrow> bool \<Rightarrow> bool \<Rightarrow> int \<Rightarrow> message arr \<Rightarrow> nat \<Rightarrow> (nat \<times> message list) c_result" where
  "posix_tx_round ret eintr writable retval msg key_current =
     (if ret < 0 \<and> eintr then Inr (key_current, [])
      else if ret < 0 then Inl ExitFailure
      else let (ms, k) = tx_burst_msgs msg POSIX_BURST_SIZE key_current in
        if \<not> writable then Inr (k, []) else if retval < 0 then Inl ExitFailure else Inr (k, take (nat retval) ms))"

record posix_rx =
  px_hits :: u32
  px_total :: u32
  px_start :: timespec
  px_num_samples :: nat
  px_rx_hits :: "u32 arr"
  px_rx_total :: "u32 arr"
  px_ts :: "u64 arr"

definition posix_rx_message :: "message \<Rightarrow> posix_rx \<Rightarrow> posix_rx c_result" where
  "posix_rx_message m s =
     (let (b, len) = m in
      if POSIX_BUFSIZE \<le> len then Inl OutOfBounds
      else if KVRESP_LEN \<le> len \<and> load64 b 0 > 0 then
        Inr (let s = s\<lparr>px_total := px_total s + 1\<rparr> in if load32 b 12 > 0 then s\<lparr>px_hits := px_hits s + 1\<rparr> else s)
      else Inr s)"

fun posix_rx_messages :: "message list \<Rightarrow> posix_rx \<Rightarrow> posix_rx c_result" where
  "posix_rx_messages [] s = Inr s"
| "posix_rx_messages (m # ms) s = bind_result (posix_rx_message m s) (posix_rx_messages ms)"

definition posix_rx_sample :: "timespec \<Rightarrow> posix_rx \<Rightarrow> posix_rx" where
  "posix_rx_sample now s =
     (let n = px_num_samples s in
      if 1000000 \<le> elapsed_ns now (px_start s) \<and> n < NUM_SAMPLES_HM
      then s\<lparr>px_start := now, px_rx_hits := (px_rx_hits s)(n := px_hits s), px_rx_total := (px_rx_total s)(n := px_total s),
             px_ts := (px_ts s)(n := word_of_int (tv_sec now * 1000000000 + tv_nsec now)), px_num_samples := Suc n, px_total := 0, px_hits := 0\<rparr>
      else s)"

text \<open>One round of \<open>rx_loop\<close>; \<open>None\<close> is a failing \<open>recvmmsg\<close>.\<close>

definition posix_rx_round :: "message list option \<Rightarrow> timespec \<Rightarrow> posix_rx \<Rightarrow> posix_rx c_result" where
  "posix_rx_round msgs now s =
     (case msgs of None \<Rightarrow> Inl ExitFailure | Some ms \<Rightarrow> bind_result (posix_rx_messages ms s) (\<lambda>s. Inr (posix_rx_sample now s)))"

definition posix_rx_init :: "timespec \<Rightarrow> posix_rx" where
  "posix_rx_init start = \<lparr>px_hits = 0, px_total = 0, px_start = start, px_num_samples = 0, px_rx_hits = (\<lambda>_. 0), px_rx_total = (\<lambda>_. 0), px_ts = (\<lambda>_. 0)\<rparr>"

fun posix_rx_rounds :: "(message list \<times> timespec) list \<Rightarrow> posix_rx \<Rightarrow> posix_rx c_result" where
  "posix_rx_rounds [] s = Inr s"
| "posix_rx_rounds ((ms, now) # rs) s = bind_result (posix_rx_round (Some ms) now s) (posix_rx_rounds rs)"

subsection \<open>The sender\<close>

fun posix_tx_rounds :: "nat \<Rightarrow> message arr \<Rightarrow> nat \<Rightarrow> (nat \<times> message list) c_result" where
  "posix_tx_rounds 0 msg key_current = Inr (key_current, [])"
| "posix_tx_rounds (Suc k) msg key_current =
     bind_result (posix_tx_round 1 False True (int POSIX_BURST_SIZE) msg key_current) (\<lambda>(key_current, ms).
     bind_result (posix_tx_rounds k msg key_current) (\<lambda>(key_current, ms'). Inr (key_current, ms @ ms')))"

lemma tx_burst_msgs_eq:
  "tx_burst_msgs msg n (k mod POSIX_MAX_KEYS) = (map (\<lambda>t. msg (t mod POSIX_MAX_KEYS)) [k..<k + n], (k + n) mod POSIX_MAX_KEYS)"
proof (induction n arbitrary: k)
  case (Suc n)
  have "(k mod POSIX_MAX_KEYS + 1) mod POSIX_MAX_KEYS = Suc k mod POSIX_MAX_KEYS" by presburger
  then show ?case using Suc [of "Suc k"] by (simp add: upt_conv_Cons del: upt_Suc)
qed simp

lemma posix_tx_rounds_eq:
  "posix_tx_rounds k msg (t0 mod POSIX_MAX_KEYS) =
     Inr ((t0 + 32 * k) mod POSIX_MAX_KEYS, map (\<lambda>t. msg (t mod POSIX_MAX_KEYS)) [t0..<t0 + 32 * k])"
proof (induction k arbitrary: t0)
  case (Suc k)
  have "[t0..<t0 + 32 * Suc k] = [t0..<t0 + 32] @ [t0 + 32..<t0 + 32 + 32 * k]"
    using upt_add_eq_append [of t0 "t0 + 32" "32 * k"] by (simp add: algebra_simps)
  then show ?case
    using Suc [of "t0 + 32"] by (simp add: posix_tx_round_def tx_burst_msgs_eq algebra_simps)
qed simp

lemma load64_key: "load64 (key_memory key) 0 = key"
  using key_halves [of key] by (simp add: load64_def key_memory_def buffer_simps or.commute)

text \<open>
  The sender goes through the keys of the file in turn.  The \<open>t\<close>-th message of a sender whose bursts
  are accepted is the request for the key number \<open>(t mod 100000) mod n\<close> of the \<open>n\<close> keys: sixteen
  bytes, the key followed by zeros; the key zero gives an empty message.
\<close>

theorem posix_requests_in_turn:
  assumes "tx_prepare dist = Inr msg" "posix_tx_rounds k msg 0 = Inr (key_current, ms)" "t < 32 * k"
  shows "length ms = 32 * k \<and> key_current < POSIX_MAX_KEYS
    \<and> (let key = dist ! ((t mod POSIX_MAX_KEYS) mod length dist); (b, len) = ms ! t in
       if key = 0 then len = 0 else len = KVRESP_LEN \<and> load64 b 0 = key \<and> (\<forall>j. 8 \<le> j \<and> j < 16 \<longrightarrow> b j = 0))"
proof -
  have msg: "msg = posix_message dist" using assms(1) by (simp add: tx_prepare_def split: if_splits)
  have ms: "key_current = (32 * k) mod POSIX_MAX_KEYS" "ms = map (\<lambda>t. msg (t mod POSIX_MAX_KEYS)) [0..<32 * k]"
    using assms(2) posix_tx_rounds_eq [of k msg 0] by simp_all
  have "key_memory key j = 0" if "8 \<le> j" for key j using that by (simp add: key_memory_def store32_def)
  moreover have "ms ! t = posix_message dist (t mod POSIX_MAX_KEYS)" "length ms = 32 * k"
    using assms(3) by (simp_all add: ms(2) msg)
  moreover have "key_current < POSIX_MAX_KEYS" by (simp add: ms(1))
  ultimately show ?thesis by (simp add: posix_message_def Let_def load64_key del: length_0_conv)
qed

theorem posix_requests_in_turn_witness:
  "\<exists>msg ms. tx_prepare [5, 0, 7] = Inr msg \<and> posix_tx_rounds 1 msg 0 = Inr (32, ms) \<and> load64 (fst (ms ! 2)) 0 = 7"
proof -
  let ?msg = "posix_message [5, 0, 7]"
  have p: "tx_prepare [5, 0, 7] = Inr ?msg" by (simp add: tx_prepare_def)
  obtain ms where r: "posix_tx_rounds 1 ?msg 0 = Inr (32, ms)" using posix_tx_rounds_eq [of 1 ?msg 0] by simp
  show ?thesis using posix_requests_in_turn [OF p r, of 2] p r by (auto simp: case_prod_beta)
qed

subsection \<open>The receiver\<close>

definition is_reply :: "message \<Rightarrow> bool" where
  "is_reply m \<longleftrightarrow> KVRESP_LEN \<le> snd m \<and> load64 (fst m) 0 \<noteq> 0"

definition is_hit :: "message \<Rightarrow> bool" where
  "is_hit m \<longleftrightarrow> is_reply m \<and> load32 (fst m) 12 \<noteq> 0"

definition counted_total :: "posix_rx \<Rightarrow> nat" where
  "counted_total s = (\<Sum>i<px_num_samples s. unat (px_rx_total s i)) + unat (px_total s)"

definition counted_hits :: "posix_rx \<Rightarrow> nat" where
  "counted_hits s = (\<Sum>i<px_num_samples s. unat (px_rx_hits s i)) + unat (px_hits s)"

lemma unat_Suc_u32: "unat x + 1 < 2 ^ 32 \<Longrightarrow> unat (x + 1) = Suc (unat x)" for x :: u32
  by (simp add: unat_word_ariths)

lemma posix_rx_message_eq:
  assumes "snd m < POSIX_BUFSIZE"
  shows "posix_rx_message m s = Inr (s\<lparr>px_total := (if is_reply m then px_total s + 1 else px_total s), px_hits := (if is_hit m then px_hits s + 1 else px_hits s)\<rparr>)"
  using assms by (cases m) (simp add: posix_rx_message_def is_reply_def is_hit_def Let_def word_gt_0)

lemma posix_rx_messages_count:
  assumes "\<forall>m\<in>set ms. snd m < POSIX_BUFSIZE" "counted_total s + length (filter is_reply ms) < 2 ^ 32" "counted_hits s + length (filter is_hit ms) < 2 ^ 32"
  shows "\<exists>s'. posix_rx_messages ms s = Inr s' \<and> px_num_samples s' = px_num_samples s \<and> px_start s' = px_start s
    \<and> counted_total s' = counted_total s + length (filter is_reply ms) \<and> counted_hits s' = counted_hits s + length (filter is_hit ms)"
  using assms
proof (induction ms arbitrary: s)
  case (Cons m ms)
  let ?s = "s\<lparr>px_total := (if is_reply m then px_total s + 1 else px_total s), px_hits := (if is_hit m then px_hits s + 1 else px_hits s)\<rparr>"
  have c: "counted_total ?s = counted_total s + (if is_reply m then 1 else 0)" "counted_hits ?s = counted_hits s + (if is_hit m then 1 else 0)"
    using Cons.prems(2,3) by (auto simp: counted_total_def counted_hits_def unat_Suc_u32 split: if_splits)
  have "\<exists>s'. posix_rx_messages ms ?s = Inr s' \<and> px_num_samples s' = px_num_samples ?s \<and> px_start s' = px_start ?s
    \<and> counted_total s' = counted_total ?s + length (filter is_reply ms) \<and> counted_hits s' = counted_hits ?s + length (filter is_hit ms)"
    using Cons.prems c by (intro Cons.IH) (auto split: if_splits)
  then show ?case using posix_rx_message_eq [of m s] Cons.prems(1) c by auto
qed simp

lemma posix_rx_sample_count:
  "counted_total (posix_rx_sample now s) = counted_total s" "counted_hits (posix_rx_sample now s) = counted_hits s"
  "px_num_samples s \<le> NUM_SAMPLES_HM \<Longrightarrow> px_num_samples (posix_rx_sample now s) \<le> NUM_SAMPLES_HM"
  by (simp_all add: posix_rx_sample_def counted_total_def counted_hits_def Let_def)

lemma posix_rx_rounds_count:
  assumes "\<forall>m\<in>set (concat (map fst rs)). snd m < POSIX_BUFSIZE" "counted_total s + length (filter is_reply (concat (map fst rs))) < 2 ^ 32"
    and "counted_hits s + length (filter is_hit (concat (map fst rs))) < 2 ^ 32" "px_num_samples s \<le> NUM_SAMPLES_HM"
  shows "\<exists>s'. posix_rx_rounds rs s = Inr s' \<and> px_num_samples s' \<le> NUM_SAMPLES_HM
    \<and> counted_total s' = counted_total s + length (filter is_reply (concat (map fst rs)))
    \<and> counted_hits s' = counted_hits s + length (filter is_hit (concat (map fst rs)))"
  using assms
proof (induction rs arbitrary: s)
  case (Cons r rs)
  obtain ms now where r: "r = (ms, now)" by fastforce
  obtain s1 where s1: "posix_rx_messages ms s = Inr s1" "px_num_samples s1 = px_num_samples s"
    "counted_total s1 = counted_total s + length (filter is_reply ms)" "counted_hits s1 = counted_hits s + length (filter is_hit ms)"
    using posix_rx_messages_count [of ms s] Cons.prems by (auto simp: r)
  let ?s = "posix_rx_sample now s1"
  have "\<exists>s'. posix_rx_rounds rs ?s = Inr s' \<and> px_num_samples s' \<le> NUM_SAMPLES_HM
    \<and> counted_total s' = counted_total ?s + length (filter is_reply (concat (map fst rs)))
    \<and> counted_hits s' = counted_hits ?s + length (filter is_hit (concat (map fst rs)))"
    using Cons.prems s1 posix_rx_sample_count [where now = now and s = s1] by (intro Cons.IH) (auto simp: r)
  then show ?case using s1 posix_rx_sample_count [where now = now and s = s1] by (auto simp: r posix_rx_round_def)
qed simp

text \<open>
  The receiver counts every reply.  Over any number of rounds with messages that fit the buffers
  (and less than \<open>2^32\<close> replies), the samples and the current counters together are exactly the
  number of replies, and of hits among them; the tables of samples are never left.
\<close>

theorem posix_replies_counted:
  assumes "\<forall>m\<in>set (concat (map fst rs)). snd m < POSIX_BUFSIZE" "length (filter is_reply (concat (map fst rs))) < 2 ^ 32"
  shows "\<exists>s. posix_rx_rounds rs (posix_rx_init start) = Inr s \<and> px_num_samples s \<le> NUM_SAMPLES_HM
    \<and> (\<Sum>i<px_num_samples s. unat (px_rx_total s i)) + unat (px_total s) = length (filter is_reply (concat (map fst rs)))
    \<and> (\<Sum>i<px_num_samples s. unat (px_rx_hits s i)) + unat (px_hits s) = length (filter is_hit (concat (map fst rs)))"
proof -
  have "length (filter is_hit ms) \<le> length (filter is_reply ms)" for ms
    by (induction ms) (auto simp: is_hit_def)
  then have "length (filter is_hit (concat (map fst rs))) < 2 ^ 32" using assms(2) order_le_less_trans by blast
  then show ?thesis
    using posix_rx_rounds_count [OF assms(1), of "posix_rx_init start"] assms(2)
    by (simp add: counted_total_def counted_hits_def posix_rx_init_def)
qed

theorem posix_replies_counted_witness:
  "\<exists>s. posix_rx_rounds [([(key_memory 5, 16), (\<lambda>_. 0, 0)], at_sec 1), ([(key_memory 7, 16)], at_sec 2)] (posix_rx_init (at_sec 0)) = Inr s
    \<and> (\<Sum>i<px_num_samples s. unat (px_rx_total s i)) + unat (px_total s) = 2"
proof -
  let ?rs = "[([(key_memory 5, 16), (\<lambda>_. 0, 0)], at_sec 1), ([(key_memory 7, 16)], at_sec 2)]"
  have "length (filter is_reply (concat (map fst ?rs))) = 2" by (simp add: is_reply_def load64_key)
  then show ?thesis using posix_replies_counted [of ?rs "at_sec 0"] by auto
qed

subsection \<open>Through the shim\<close>

lemma load32_cong: "(\<And>k. k < 4 \<Longrightarrow> f (i + k) = g (i + k)) \<Longrightarrow> load32 f i = load32 g i"
proof -
  assume "\<And>k. k < 4 \<Longrightarrow> f (i + k) = g (i + k)"
  from this [of 0] this [of 1] this [of 2] this [of 3] show ?thesis by (simp add: load32_def)
qed

lemma load32_shift: "load32 (\<lambda>k. b (p + k)) i = load32 b (p + i)"
  by (simp add: load32_def add.assoc)

lemma load64_shift: "load64 (\<lambda>k. b (p + k)) i = load64 b (p + i)"
  by (simp add: load64_def load32_shift add.assoc)

lemma posix_rx_at:
  assumes "load64 b p = key" "key \<noteq> 0" "load32 b (p + 12) = v"
  shows "posix_rx_message (\<lambda>k. b (p + k), 16) s = Inr (s\<lparr>px_total := px_total s + 1, px_hits := (if v \<noteq> 0 then px_hits s + 1 else px_hits s)\<rparr>)"
  using assms by (simp add: posix_rx_message_eq is_reply_def is_hit_def load32_shift load64_shift)

text \<open>
  C33: the client behind the shim.  The shim's cache application reads from a UDP request of the client
  exactly the client's key; and when the switch's answer to the request has passed the cache handler,
  the client counts it as one reply, as a hit exactly when the switch returned a value.
\<close>

theorem posix_through_shim:
  assumes "key \<noteq> 0" "\<forall>k<16. b (pos + 28 + k) = key_memory key k" "load8 b (pos + 9) = IPPROTO_UDP"
    and "2 \<le> cc_memory_size c" "cc_num_samples c < MAX_SAMPLES_CACHE"
    and "pkt = \<lparr>hdr_ipv4 = Some pos, hdr_udp = Some (pos + 20), hdr_tcp = None, payload = Some (pos + 28), payload_length = 16\<rparr>"
  shows "(\<exists>data c'. payload_parser_cache ut crc b pos d mem c = Inr (data, c')
            \<and> push_bit 32 (ucast (ntohl (data ACTIVE_DEFAULT_ARG_MBR))) OR ucast (ntohl (data ACTIVE_DEFAULT_ARG_MBR2)) = key)
       \<and> (\<exists>b' c'. active_rx_handler_cache to_ms now ih (Some args) pkt b c = Inr (b', c')
            \<and> posix_rx_message (\<lambda>k. b' (pos + 28 + k), 16) s =
                Inr (s\<lparr>px_total := px_total s + 1, px_hits := (if args ACTIVE_DEFAULT_ARG_RESULT \<noteq> 0 then px_hits s + 1 else px_hits s)\<rparr>))"
proof -
  have w: "load32 b (pos + 28 + i) = load32 (key_memory key) i" if "i + 4 \<le> 16" for i
  proof -
    have "load32 (\<lambda>k. b (pos + 28 + k)) i = load32 (key_memory key) i" using assms(2) that by (intro load32_cong) auto
    then show ?thesis by (simp only: load32_shift)
  qed
  have key: "load64 b (pos + 28) = key"
    using w [of 0] w [of 4] load64_key [of key] by (simp add: load64_def add.assoc)
  have p: "\<exists>data c'. payload_parser_cache ut crc b pos d mem c = Inr (data, c')
    \<and> push_bit 32 (ucast (ntohl (data ACTIVE_DEFAULT_ARG_MBR))) OR ucast (ntohl (data ACTIVE_DEFAULT_ARG_MBR2)) = key"
    using assms(3,4) by (simp add: payload_parser_cache_def Let_def key key_halves)
  let ?b = "store16 (pos + 22) (load16 b (pos + 20)) (store16 (pos + 20) (load16 b (pos + 22)) b)"
  let ?b' = "if args 3 \<noteq> 0 then store16 (pos + 26) 0 (store32 (pos + 40) 1 ?b) else ?b"
  obtain c' where c': "count_reply to_ms now (args 3 \<noteq> 0) c = Inr c'" using assms(5) by (simp add: count_reply_def Let_def)
  have z: "htonl x = 0 \<longleftrightarrow> x = 0" for x using htonl_eq_iff [of x 0] by (simp add: htonl_def)
  have r: "active_rx_handler_cache to_ms now ih (Some args) pkt b c = Inr (?b', c')"
    using c' by (simp add: active_rx_handler_cache_def assms(6) Let_def z add.commute [of _ pos])
  have "load32 ?b' (pos + 40) = (if args 3 \<noteq> 0 then 1 else 0)"
  proof -
    have "load32 (key_memory key) 12 = 0" by (simp add: key_memory_def load32_store32_other) (simp add: load32_def)
    then have "load32 b (pos + 40) = 0" using w [of 12] by (simp add: add.assoc)
    then show ?thesis by (simp add: buffer_simps)
  qed
  moreover have "load64 ?b' (pos + 28) = key" using key by (simp add: load64_def buffer_simps)
  ultimately have "posix_rx_message (\<lambda>k. ?b' (pos + 28 + k), 16) s =
      Inr (s\<lparr>px_total := px_total s + 1, px_hits := (if args 3 \<noteq> 0 then px_hits s + 1 else px_hits s)\<rparr>)"
    using posix_rx_at [of ?b' "pos + 28" key _ s, OF _ assms(1)] by (simp add: add.assoc)
  then show ?thesis using p r by blast
qed

theorem posix_through_shim_witness:
  "\<exists>b' c'. active_rx_handler_cache id 0 (ih_at (\<lambda>_. 0)) (Some (\<lambda>_. 1))
      \<lparr>hdr_ipv4 = Some 0, hdr_udp = Some 20, hdr_tcp = None, payload = Some 28, payload_length = 16\<rparr>
      (\<lambda>k. if k = 9 then 17 else if k < 28 then 0 else key_memory 5 (k - 28)) (zero_cache\<lparr>cc_memory_size := 4\<rparr>) = Inr (b', c')
    \<and> posix_rx_message (\<lambda>k. b' (28 + k), 16) (posix_rx_init (at_sec 0)) = Inr ((posix_rx_init (at_sec 0))\<lparr>px_total := 1, px_hits := 1\<rparr>)"
proof -
  let ?b = "\<lambda>k. if k = 9 then 17 else if k < 28 then 0 else key_memory 5 (k - 28)"
  have "\<forall>k<16. ?b (0 + 28 + k) = key_memory 5 k" "load8 ?b (0 + 9) = IPPROTO_UDP" by (simp_all add: load8_def)
  then show ?thesis
    using posix_through_shim [OF _ _ _ _ _ refl, where key = 5 and b = ?b and pos = 0 and c = "zero_cache\<lparr>cc_memory_size := 4\<rparr>"
        and to_ms = id and now = 0 and ih = "ih_at (\<lambda>_. 0)" and args = "\<lambda>_. 1" and s = "posix_rx_init (at_sec 0)"]
    by (simp add: zero_cache_def posix_rx_init_def)
qed

end
