(* ===== verification/AP4_Sockets.thy ===== *)
theory AP4_Sockets
  imports AP4_Netutils AP4_Stats
begin

text \<open>
  Packet input and output over sockets and memory-mapped rings (\<open>common/activep4_netutils.h\<close>): the
  frames a sender prepares in its ring, and the two receive loops.  Results of system calls are
  arguments.  The kernel's frame header is represented by the status and the length of the frame;
  \<open>hdr\<close> is the distance from the start of a frame to its packet.
\<close>

abbreviation (input) PACKET_SIZE :: nat where "PACKET_SIZE \<equiv> 64"
abbreviation (input) UDP_PORT :: u16 where "UDP_PORT \<equiv> 1234"

subsection \<open>Model\<close>

record port_config =
  pc_hwaddr :: "u8 list"
  pc_ipv4addr :: u32
  pc_eth_dstaddr :: "u8 list"
  pc_ipv4_dstaddr :: u32

record tx_ring =
  tr_req :: tpacket_req3
  tr_status :: "nat \<Rightarrow> tp_status"
  tr_len :: "nat \<Rightarrow> nat"
  tr_mem :: buffer

text \<open>The identifier of the IPv4 header is \<open>htonl(0)\<close>, cut to 16 bits.\<close>

definition put_ipv4_header :: "nat \<Rightarrow> u16 \<Rightarrow> u16 \<Rightarrow> u8 \<Rightarrow> u32 \<Rightarrow> u32 \<Rightarrow> buffer \<Rightarrow> buffer" where
  "put_ipv4_header pos tot_len ident protocol saddr daddr b =
     store32 (pos + 16) daddr (store32 (pos + 12) saddr (store16 (pos + 10) 0 (store8 (pos + 9) protocol (store8 (pos + 8) 255
       (store16 (pos + 6) 0 (store16 (pos + 4) ident (store16 (pos + 2) (htons tot_len) (store8 (pos + 1) 0 (store8 pos 0x45 b)))))))))"

definition tx_setup_frame :: "port_config \<Rightarrow> nat \<Rightarrow> buffer \<Rightarrow> buffer" where
  "tx_setup_frame cfg buf b =
     (let payload_length = PACKET_SIZE - (sizeof_eth + sizeof_ipv4 + sizeof_udp);
          b = store16 (buf + 12) (htons RTE_ETHER_TYPE_IPV4) (store_bytes buf (pc_eth_dstaddr cfg) (store_bytes (buf + 6) (pc_hwaddr cfg) b));
          b = put_ipv4_header (buf + 14) (of_nat (sizeof_ipv4 + sizeof_udp + payload_length)) (ucast (htonl 0)) IPPROTO_UDP
                (pc_ipv4addr cfg) (pc_ipv4_dstaddr cfg) b;
          b = store16 (buf + 24) (compute_checksum b (buf + 14) sizeof_ipv4) b;
          b = store16 (buf + 40) (htons 0) (store16 (buf + 38) (htons (of_nat (sizeof_udp + payload_length)))
                (store16 (buf + 36) (htons UDP_PORT) (store16 (buf + 34) (htons UDP_PORT) b)))
      in store_bytes (buf + 42) (replicate payload_length 0) b)"

fun tx_setup_frames :: "port_config \<Rightarrow> nat \<Rightarrow> nat list \<Rightarrow> tx_ring \<Rightarrow> nat \<Rightarrow> (tx_ring \<times> nat) c_result" where
  "tx_setup_frames cfg hdr [] ring constructed = Inr (ring, constructed)"
| "tx_setup_frames cfg hdr (i # is) ring constructed =
     (if tr_status ring i = TP_WRONG_FORMAT then Inl ExitFailure
      else if tr_status ring i \<noteq> TP_AVAILABLE then tx_setup_frames cfg hdr is ring constructed
      else tx_setup_frames cfg hdr is
        (ring\<lparr>tr_mem := tx_setup_frame cfg (frame_offset (tr_req ring) i + hdr) (tr_mem ring),
              tr_len := (tr_len ring)(i := PACKET_SIZE), tr_status := (tr_status ring)(i := TP_SEND_REQUEST)\<rparr>) (Suc constructed))"

definition tx_setup_buffers :: "port_config \<Rightarrow> nat \<Rightarrow> tx_ring \<Rightarrow> (tx_ring \<times> nat) c_result" where
  "tx_setup_buffers cfg hdr ring = tx_setup_frames cfg hdr [0..<tp_frame_nr (tr_req ring)] ring 0"

text \<open>
  \<open>tx_burst\<close>: the results of \<open>sendto\<close>, packet by packet.
\<close>

definition tx_burst :: "int list \<Rightarrow> stats_t \<Rightarrow> stats_t c_result" where
  "tx_burst results stats = (if \<exists>r\<in>set results. r < 0 then Inl ExitFailure else Inr (add_count (length results) stats))"

text \<open>
  One round of \<open>rx_loop\<close>: the result of \<open>select\<close> and whether it was interrupted, whether the socket is
  readable, the result of \<open>read\<close> and the buffer it filled.  The handler is called with the headers in
  the result.
\<close>

definition rx_loop_round ::
  "port_config \<Rightarrow> int \<Rightarrow> bool \<Rightarrow> bool \<Rightarrow> int \<Rightarrow> buffer \<Rightarrow> stats_t \<Rightarrow> (stats_t \<times> net_headers_t option) c_result" where
  "rx_loop_round cfg ret eintr readable read_bytes recvbuf stats =
     (if ret < 0 \<and> eintr then Inr (stats, None)
      else if ret < 0 then Inl ExitFailure
      else if \<not> readable then Inr (stats, None)
      else if read_bytes < 0 then Inl ExitFailure
      else if int sizeof_eth < read_bytes then
        bind_result (extract_network_headers recvbuf read_bytes) (\<lambda>r.
          case r of
            None \<Rightarrow> Inr (stats, None)
          | Some (hdrs, _) \<Rightarrow>
              if hwaddr_equals recvbuf (\<lambda>k. pc_hwaddr cfg ! k) then Inr (add_count_alt 1 stats, Some hdrs) else Inr (stats, None))
      else Inr (stats, None))"

text \<open>
  One round of \<open>rx_mmap_loop\<close> on a frame the kernel has handed over: \<open>tp_mac\<close> and \<open>tp_len\<close> are the fields of
  the frame header.  The frame index moves on before the frame is looked at.
\<close>

definition rx_mmap_round ::
  "port_config \<Rightarrow> tpacket_req3 \<Rightarrow> nat \<Rightarrow> nat \<Rightarrow> int \<Rightarrow> buffer \<Rightarrow> (nat \<times> net_headers_t option) c_result" where
  "rx_mmap_round cfg req frame_idx tp_mac tp_len mem =
     (if tp_frame_nr req = 0 then Inl DivByZero
      else let frame_idx = (frame_idx + 1) mod tp_frame_nr req; l2content = (\<lambda>k. mem (frame_offset req frame_idx + tp_mac + k)) in
        if hwaddr_equals l2content (\<lambda>k. pc_hwaddr cfg ! k)
        then bind_result (extract_network_headers l2content tp_len) (\<lambda>r. Inr (frame_idx, map_option fst r))
        else Inr (frame_idx, None))"

subsection \<open>Prepared frames\<close>

definition udp_frame :: "port_config \<Rightarrow> buffer \<Rightarrow> nat \<Rightarrow> bool" where
  "udp_frame cfg b buf \<longleftrightarrow> load_bytes b buf 6 = pc_eth_dstaddr cfg \<and> load_bytes b (buf + 6) 6 = pc_hwaddr cfg
     \<and> ntohs (load16 b (buf + 12)) = RTE_ETHER_TYPE_IPV4 \<and> compute_checksum b (buf + 14) 20 = 0
     \<and> ntohs (load16 b (buf + 16)) = 50 \<and> load8 b (buf + 23) = IPPROTO_UDP
     \<and> load32 b (buf + 26) = pc_ipv4addr cfg \<and> load32 b (buf + 30) = pc_ipv4_dstaddr cfg
     \<and> ntohs (load16 b (buf + 34)) = UDP_PORT \<and> ntohs (load16 b (buf + 36)) = UDP_PORT \<and> ntohs (load16 b (buf + 38)) = 30
     \<and> (\<forall>k<22. b (buf + 42 + k) = 0)"

lemma checksum_local:
  assumes "\<And>k. k < 20 \<Longrightarrow> b (pos + k) = c (pos' + k)"
  shows "compute_checksum b pos 20 = compute_checksum c pos' 20"
proof -
  have "sum_words b (pos + k) n = sum_words c (pos' + k) n" if "k + 2 * n \<le> 20" for k n
    using that
  proof (induction n arbitrary: k)
    case (Suc n)
    have "load16 b (pos + k) = load16 c (pos' + k)"
      using assms [of k] assms [of "k + 1"] Suc.prems by (simp add: load16_def)
    then show ?case using Suc.IH [of "k + 2"] Suc.prems by (simp add: add.assoc)
  qed simp
  from this [of 0 10] show ?thesis by (simp add: compute_checksum_def)
qed

lemma udp_frame_local:
  assumes "\<And>k. k < 64 \<Longrightarrow> b (buf + k) = c (buf' + k)"
  shows "udp_frame cfg b buf = udp_frame cfg c buf'"
proof -
  have b: "b (buf + i + k) = c (buf' + i + k)" if "i + k < 64" for i k using assms [of "i + k"] that by (simp add: add.assoc)
  have "load_bytes b (buf + i) 6 = load_bytes c (buf' + i) 6" if "i + 6 \<le> 64" for i using b that by (simp add: load_bytes_def)
  moreover have "load16 b (buf + i) = load16 c (buf' + i)" if "i + 2 \<le> 64" for i
    using b [of i 0] b [of i 1] that by (simp add: load16_def)
  moreover have "load32 b (buf + i) = load32 c (buf' + i)" if "i + 4 \<le> 64" for i
    using b [of i 0] b [of i 1] b [of i 2] b [of i 3] that by (simp add: load32_def)
  moreover have "compute_checksum b (buf + 14) 20 = compute_checksum c (buf' + 14) 20"
    using b by (intro checksum_local) simp
  moreover have "load8 b (buf + 23) = load8 c (buf' + 23)" using assms by (simp add: load8_def)
  moreover have "load_bytes b buf 6 = load_bytes c buf' 6" using assms by (simp add: load_bytes_def)
  ultimately show ?thesis using b by (simp add: udp_frame_def)
qed

lemma store_other:
  "k \<noteq> i \<Longrightarrow> store8 i v8 b k = b k" "k < i \<or> i + 2 \<le> k \<Longrightarrow> store16 i v16 b k = b k" "k < i \<or> i + 4 \<le> k \<Longrightarrow> store32 i v32 b k = b k"
  by (auto simp: store8_def store16_def store32_def)

lemma put_ipv4_header_other: "k < pos \<or> pos + 20 \<le> k \<Longrightarrow> put_ipv4_header pos tot ident protocol saddr daddr b k = b k"
  by (auto simp: put_ipv4_header_def store_other)

lemma tx_setup_frame_other:
  assumes "length (pc_hwaddr cfg) = 6" "length (pc_eth_dstaddr cfg) = 6" "k < buf \<or> buf + 64 \<le> k"
  shows "tx_setup_frame cfg buf b k = b k"
  using assms by (auto simp: tx_setup_frame_def Let_def store_other put_ipv4_header_other store_bytes_other)

text \<open>The header with its checksum, before the UDP header and the payload are written behind it.\<close>

lemma ipv4_header_verifies:
  assumes "b = put_ipv4_header pos tot ident protocol saddr daddr b0"
  shows "compute_checksum (store16 (pos + 10) (compute_checksum b pos 20) b) pos 20 = 0"
proof -
  have "b (pos + 10) = 0" "b (pos + 11) = 0"
    by (simp_all add: assms put_ipv4_header_def store16_def store32_def)
  then have "store16 (pos + 10) 0 b = b" by (auto simp: fun_eq_iff store16_def add.commute)
  then show ?thesis using compute_checksum_verifies [of 5 10 "compute_checksum b pos 20" pos b] by simp
qed

lemma tx_setup_frame_ok:
  assumes "length (pc_hwaddr cfg) = 6" "length (pc_eth_dstaddr cfg) = 6"
  shows "udp_frame cfg (tx_setup_frame cfg buf b) buf"
proof -
  let ?e = "store16 (buf + 12) (htons RTE_ETHER_TYPE_IPV4) (store_bytes buf (pc_eth_dstaddr cfg) (store_bytes (buf + 6) (pc_hwaddr cfg) b))"
  let ?i = "put_ipv4_header (buf + 14) 50 (ucast (htonl 0)) IPPROTO_UDP (pc_ipv4addr cfg) (pc_ipv4_dstaddr cfg) ?e"
  let ?c = "store16 (buf + 24) (compute_checksum ?i (buf + 14) 20) ?i"
  let ?u = "store16 (buf + 40) (htons 0) (store16 (buf + 38) (htons 30) (store16 (buf + 36) (htons UDP_PORT) (store16 (buf + 34) (htons UDP_PORT) ?c)))"
  have f: "tx_setup_frame cfg buf b = store_bytes (buf + 42) (replicate 22 0) ?u"
    by (simp add: tx_setup_frame_def Let_def)
  have below: "tx_setup_frame cfg buf b k = ?c k" if "k < buf + 34" for k
    using that by (simp add: f store_bytes_def store16_def)
  have "compute_checksum (tx_setup_frame cfg buf b) (buf + 14) 20 = compute_checksum ?c (buf + 14) 20"
    using below by (intro checksum_local) simp
  also have "\<dots> = 0" using ipv4_header_verifies [of ?i "buf + 14"] by (simp add: add.assoc)
  finally have ck: "compute_checksum (tx_setup_frame cfg buf b) (buf + 14) 20 = 0" .
  have loads: "load16 (tx_setup_frame cfg buf b) (buf + 12) = htons RTE_ETHER_TYPE_IPV4"
    "load16 (tx_setup_frame cfg buf b) (buf + 16) = htons 50" "load8 (tx_setup_frame cfg buf b) (buf + 23) = IPPROTO_UDP"
    "load32 (tx_setup_frame cfg buf b) (buf + 26) = pc_ipv4addr cfg" "load32 (tx_setup_frame cfg buf b) (buf + 30) = pc_ipv4_dstaddr cfg"
    "load16 (tx_setup_frame cfg buf b) (buf + 34) = htons UDP_PORT" "load16 (tx_setup_frame cfg buf b) (buf + 36) = htons UDP_PORT"
    "load16 (tx_setup_frame cfg buf b) (buf + 38) = htons 30"
    by (simp_all add: f put_ipv4_header_def buffer_simps add.commute [of _ buf])
  have addr: "tx_setup_frame cfg buf b (buf + k) = pc_eth_dstaddr cfg ! k" "tx_setup_frame cfg buf b (buf + 6 + k) = pc_hwaddr cfg ! k" if "k < 6" for k
    using that assms by (simp_all add: f put_ipv4_header_other store_other store_bytes_def)
  have mac: "load_bytes (tx_setup_frame cfg buf b) buf 6 = pc_eth_dstaddr cfg" "load_bytes (tx_setup_frame cfg buf b) (buf + 6) 6 = pc_hwaddr cfg"
    using assms addr by (auto simp: load_bytes_def intro!: nth_equalityI)
  have "tx_setup_frame cfg buf b (buf + 42 + k) = 0" if "k < 22" for k
    using that by (simp add: f store_bytes_def)
  with ck loads mac show ?thesis by (simp add: udp_frame_def)
qed

lemma udp_frame_delivered:
  assumes "udp_frame cfg recvbuf 0" "pc_hwaddr rcv = pc_eth_dstaddr cfg" "length (pc_eth_dstaddr cfg) = 6"
  shows "rx_loop_round rcv 1 False True 64 recvbuf stats =
     Inr (add_count_alt 1 stats, Some \<lparr>nh_iph = 14, nh_tcph = None, nh_udph = Some 34, nh_ap4ih = None, nh_ap4args = None, nh_payload = 42, nh_payload_length = 42\<rparr>)"
proof -
  have "recvbuf k = pc_hwaddr rcv ! k" if "k < 6" for k
    using assms that by (auto simp: udp_frame_def load_bytes_def dest: arg_cong [of _ _ "\<lambda>xs. xs ! k"])
  then have "hwaddr_equals recvbuf (\<lambda>k. pc_hwaddr rcv ! k)" by (simp add: hwaddr_equals_def)
  moreover have "\<not> size_less 64 14" "\<not> size_less 50 20" "\<not> size_less 30 8" "\<not> size_less 30 20" by (simp_all add: size_less_nonneg)
  moreover have "load8 recvbuf 23 = 17" "ntohs (load16 recvbuf 12) = RTE_ETHER_TYPE_IPV4" "ntohs (load16 recvbuf 16) = 50"
    using assms(1) by (simp_all add: udp_frame_def)
  moreover have "(17 :: u8) \<noteq> 6" "RTE_ETHER_TYPE_IPV4 \<noteq> AP4_ETHER_TYPE_AP4" by simp_all
  ultimately show ?thesis
    by (simp add: rx_loop_round_def extract_network_headers_def extract_inner_headers_def Let_def)
qed

text \<open>What the loop leaves behind, for frames that do not overlap.\<close>

definition frames_apart :: "tpacket_req3 \<Rightarrow> bool" where
  "frames_apart req \<longleftrightarrow> (\<forall>i j. i < j \<longrightarrow> frame_offset req i + tp_frame_size req \<le> frame_offset req j)"

lemma frame_bytes_apart:
  assumes "frames_apart req" "i \<noteq> j" "x < tp_frame_size req" "y < tp_frame_size req"
  shows "frame_offset req i + x \<noteq> frame_offset req j + y"
proof (cases "i < j")
  case True
  then have "frame_offset req i + tp_frame_size req \<le> frame_offset req j" using assms(1) by (simp add: frames_apart_def)
  then show ?thesis using assms(3) by linarith
next
  case False
  then have "frame_offset req j + tp_frame_size req \<le> frame_offset req i" using assms(1,2) by (simp add: frames_apart_def)
  then show ?thesis using assms(4) by linarith
qed

lemma tx_setup_frame_apart:
  assumes "frames_apart req" "i \<noteq> j" "hdr + 64 \<le> tp_frame_size req" "k < tp_frame_size req"
    and "length (pc_hwaddr cfg) = 6" "length (pc_eth_dstaddr cfg) = 6"
  shows "tx_setup_frame cfg (frame_offset req i + hdr) b (frame_offset req j + k) = b (frame_offset req j + k)"
proof (rule tx_setup_frame_other [OF assms(5,6)])
  have "frame_offset req i + (hdr + m) \<noteq> frame_offset req j + k" if "m < 64" for m
    using frame_bytes_apart [OF assms(1,2)] assms(3,4) that by simp
  from this [of "frame_offset req j + k - (frame_offset req i + hdr)"]
  show "frame_offset req j + k < frame_offset req i + hdr \<or> frame_offset req i + hdr + 64 \<le> frame_offset req j + k" by linarith
qed

definition frame_kept :: "tx_ring \<Rightarrow> tx_ring \<Rightarrow> nat \<Rightarrow> bool" where
  "frame_kept ring ring' i \<longleftrightarrow> tr_status ring' i = tr_status ring i \<and> tr_len ring' i = tr_len ring i
     \<and> (\<forall>k<tp_frame_size (tr_req ring). tr_mem ring' (frame_offset (tr_req ring) i + k) = tr_mem ring (frame_offset (tr_req ring) i + k))"

definition frame_prepared :: "port_config \<Rightarrow> nat \<Rightarrow> tx_ring \<Rightarrow> tx_ring \<Rightarrow> nat \<Rightarrow> bool" where
  "frame_prepared cfg hdr ring ring' i \<longleftrightarrow>
     (if tr_status ring i = TP_AVAILABLE
      then tr_status ring' i = TP_SEND_REQUEST \<and> tr_len ring' i = PACKET_SIZE \<and> udp_frame cfg (tr_mem ring') (frame_offset (tr_req ring) i + hdr)
      else frame_kept ring ring' i)"

lemma tx_setup_frames_spec:
  assumes "distinct is" "\<forall>i\<in>set is. tr_status ring i \<noteq> TP_WRONG_FORMAT" "frames_apart (tr_req ring)" "hdr + 64 \<le> tp_frame_size (tr_req ring)"
    and "length (pc_hwaddr cfg) = 6" "length (pc_eth_dstaddr cfg) = 6"
  shows "\<exists>ring'. tx_setup_frames cfg hdr is ring n = Inr (ring', n + length (filter (\<lambda>i. tr_status ring i = TP_AVAILABLE) is))
    \<and> (\<forall>i. if i \<in> set is then frame_prepared cfg hdr ring ring' i else frame_kept ring ring' i)"
  using assms(1-4)
proof (induction "is" arbitrary: ring n)
  case Nil
  then show ?case by (auto simp: frame_kept_def)
next
  case (Cons i "is")
  show ?case
  proof (cases "tr_status ring i = TP_AVAILABLE")
    case False
    obtain ring' where r: "tx_setup_frames cfg hdr is ring n = Inr (ring', n + length (filter (\<lambda>i. tr_status ring i = TP_AVAILABLE) is))"
      "\<And>j. if j \<in> set is then frame_prepared cfg hdr ring ring' j else frame_kept ring ring' j"
      using Cons.IH [of ring n] Cons.prems by auto
    have "if j \<in> set (i # is) then frame_prepared cfg hdr ring ring' j else frame_kept ring ring' j" for j
      using r(2) [of j] Cons.prems(1) False by (auto simp: frame_prepared_def)
    then show ?thesis using r(1) False Cons.prems(2) by auto
  next
    case True
    let ?r = "ring\<lparr>tr_mem := tx_setup_frame cfg (frame_offset (tr_req ring) i + hdr) (tr_mem ring),
              tr_len := (tr_len ring)(i := PACKET_SIZE), tr_status := (tr_status ring)(i := TP_SEND_REQUEST)\<rparr>"
    have f: "filter (\<lambda>j. tr_status ?r j = TP_AVAILABLE) is = filter (\<lambda>j. tr_status ring j = TP_AVAILABLE) is"
      using Cons.prems(1) by (intro filter_cong) auto
    have "\<exists>ring'. tx_setup_frames cfg hdr is ?r (Suc n) = Inr (ring', Suc n + length (filter (\<lambda>j. tr_status ?r j = TP_AVAILABLE) is))
      \<and> (\<forall>j. if j \<in> set is then frame_prepared cfg hdr ?r ring' j else frame_kept ?r ring' j)"
      using Cons.prems by (intro Cons.IH) auto
    then obtain ring' where r: "tx_setup_frames cfg hdr is ?r (Suc n) = Inr (ring', Suc n + length (filter (\<lambda>j. tr_status ring j = TP_AVAILABLE) is))"
      and s: "\<And>j. if j \<in> set is then frame_prepared cfg hdr ?r ring' j else frame_kept ?r ring' j"
      unfolding f by blast
    note apart = tx_setup_frame_apart [OF Cons.prems(3) _ Cons.prems(4) _ assms(5,6)]
    have "frame_prepared cfg hdr ring ring' i"
    proof -
      have i: "tr_status ring' i = TP_SEND_REQUEST" "tr_len ring' i = PACKET_SIZE"
        "\<And>k. k < tp_frame_size (tr_req ring) \<Longrightarrow> tr_mem ring' (frame_offset (tr_req ring) i + k) = tr_mem ?r (frame_offset (tr_req ring) i + k)"
        using s [of i] Cons.prems(1) by (auto simp: frame_kept_def)
      have "udp_frame cfg (tr_mem ring') (frame_offset (tr_req ring) i + hdr) = udp_frame cfg (tr_mem ?r) (frame_offset (tr_req ring) i + hdr)"
        using i(3) [of "hdr + _"] Cons.prems(4) by (intro udp_frame_local) (simp add: add.assoc)
      then show ?thesis using i(1,2) True tx_setup_frame_ok [OF assms(5,6)] by (simp add: frame_prepared_def)
    qed
    moreover have kept: "frame_kept ring ring' j" if "frame_kept ?r ring' j" "j \<noteq> i" for j
      using that apart [of i j] by (auto simp: frame_kept_def)
    have "frame_prepared cfg hdr ring ring' j" if "j \<in> set is" "j \<noteq> i" for j
      using s [of j] that kept by (auto simp: frame_prepared_def split: if_splits)
    moreover have "frame_kept ring ring' j" if "j \<notin> set (i # is)" for j using s [of j] that kept by auto
    ultimately show ?thesis using r True Cons.prems(1) by (intro exI [of _ ring']) auto
  qed
qed

text \<open>
  C36: from the ring to the handler.  On a ring of \<open>setup_ring\<close> whose frames hold the packet, and none
  of which the kernel rejects, \<open>tx_setup_buffers\<close> fills exactly the available frames and counts them:
  each carries a UDP packet with the configured addresses and an IPv4 header that verifies, and the
  other frames are untouched.  A host with the destination address that reads such a frame counts it
  once and hands it to its handler with the UDP header and the payload at their positions; the
  reported payload length, however, is \<open>42\<close> instead of \<open>22\<close>.
\<close>

theorem ring_frames_delivered:
  assumes "0 < frame_size" "0 < pagesize" "pagesize \<le> 2 ^ 24" "frame_size \<le> 2 ^ 24" "phys_pages * pagesize < 2 ^ 32 * 128"
    and "setup_ring frame_size pagesize phys_pages = Inr (tr_req ring, ring_size)" "hdr + 64 \<le> frame_size"
    and "\<forall>i<tp_frame_nr (tr_req ring). tr_status ring i \<noteq> TP_WRONG_FORMAT" "length (pc_hwaddr cfg) = 6" "length (pc_eth_dstaddr cfg) = 6"
  shows "\<exists>ring'. tx_setup_buffers cfg hdr ring = Inr (ring', length (filter (\<lambda>i. tr_status ring i = TP_AVAILABLE) [0..<tp_frame_nr (tr_req ring)]))
    \<and> (\<forall>i<tp_frame_nr (tr_req ring). frame_prepared cfg hdr ring ring' i
        \<and> (tr_status ring i = TP_AVAILABLE \<and> pc_hwaddr rcv = pc_eth_dstaddr cfg
            \<and> (\<forall>k<64. recvbuf k = tr_mem ring' (frame_offset (tr_req ring) i + hdr + k)) \<longrightarrow>
            rx_loop_round rcv 1 False True 64 recvbuf stats = Inr (add_count_alt 1 stats,
              Some \<lparr>nh_iph = 14, nh_tcph = None, nh_udph = Some 34, nh_ap4ih = None, nh_ap4args = None, nh_payload = 42, nh_payload_length = 42\<rparr>)))"
proof -
  have req: "frames_apart (tr_req ring)" "tp_frame_size (tr_req ring) = frame_size"
  proof -
    obtain req ring_size' where "setup_ring frame_size pagesize phys_pages = Inr (req, ring_size')" "frames_apart req"
      using setup_ring_frames [OF assms(1-5)] unfolding frames_apart_def by blast
    then show "frames_apart (tr_req ring)" using assms(6) by simp
    show "tp_frame_size (tr_req ring) = frame_size" using assms(6) by (auto simp: setup_ring_def Let_def bind_result_Inr_iff dest: arg_cong [of _ _ tp_frame_size])
  qed
  obtain ring' where r: "tx_setup_buffers cfg hdr ring = Inr (ring', length (filter (\<lambda>i. tr_status ring i = TP_AVAILABLE) [0..<tp_frame_nr (tr_req ring)]))"
    "\<And>i. i < tp_frame_nr (tr_req ring) \<Longrightarrow> frame_prepared cfg hdr ring ring' i"
    using tx_setup_frames_spec [of "[0..<tp_frame_nr (tr_req ring)]" ring hdr cfg 0] assms(7-10) req
    by (auto simp: tx_setup_buffers_def split: if_splits)
  have "rx_loop_round rcv 1 False True 64 recvbuf stats = Inr (add_count_alt 1 stats,
      Some \<lparr>nh_iph = 14, nh_tcph = None, nh_udph = Some 34, nh_ap4ih = None, nh_ap4args = None, nh_payload = 42, nh_payload_length = 42\<rparr>)"
    if "i < tp_frame_nr (tr_req ring)" "tr_status ring i = TP_AVAILABLE" "pc_hwaddr rcv = pc_eth_dstaddr cfg"
      "\<forall>k<64. recvbuf k = tr_mem ring' (frame_offset (tr_req ring) i + hdr + k)" for i
  proof -
    have "udp_frame cfg recvbuf 0 = udp_frame cfg (tr_mem ring') (frame_offset (tr_req ring) i + hdr)"
      using that(4) by (intro udp_frame_local) simp
    then have "udp_frame cfg recvbuf 0" using r(2) [OF that(1)] that(2) by (simp add: frame_prepared_def)
    then show ?thesis using udp_frame_delivered that(3) assms(10) by blast
  qed
  with r show ?thesis by blast
qed

text \<open>A ring of four frames, all available.\<close>

theorem ring_frames_delivered_witness:
  "\<exists>req n ring'. setup_ring 1600 4096 256 = Inr (req, n) \<and> tp_frame_nr req = 4
    \<and> tx_setup_buffers \<lparr>pc_hwaddr = [1, 2, 3, 4, 5, 6], pc_ipv4addr = 1, pc_eth_dstaddr = [6, 5, 4, 3, 2, 1], pc_ipv4_dstaddr = 2\<rparr> 48
        \<lparr>tr_req = req, tr_status = (\<lambda>_. TP_AVAILABLE), tr_len = (\<lambda>_. 0), tr_mem = (\<lambda>_. 0)\<rparr> = Inr (ring', 4)"
proof -
  let ?req = "\<lparr>tp_block_size = 4096, tp_block_nr = 2, tp_frame_size = 1600, tp_frame_nr = 4\<rparr>"
  let ?cfg = "\<lparr>pc_hwaddr = [1, 2, 3, 4, 5, 6], pc_ipv4addr = 1, pc_eth_dstaddr = [6, 5, 4, 3, 2, 1], pc_ipv4_dstaddr = 2\<rparr>"
  let ?ring = "\<lparr>tr_req = ?req, tr_status = (\<lambda>_. TP_AVAILABLE), tr_len = (\<lambda>_. 0), tr_mem = (\<lambda>_. 0)\<rparr>"
  have r: "setup_ring 1600 4096 256 = Inr (tr_req ?ring, 8192)" by (simp add: setup_ring_def grow_block_size.simps Let_def)
  show ?thesis
    using ring_frames_delivered [OF _ _ _ _ _ r, of 48 ?cfg ?cfg] r by (auto simp: upt_rec)
qed

end
