(* ===== verification/AP4_Arp.thy ===== *)
theory AP4_Arp
  imports AP4_Isa
begin

text \<open>
  The readers of the system's ARP table \<open>/proc/net/arp\<close>: \<open>arp_resolve\<close> (\<open>common/activep4_netutils.h\<close>) looks up one
  address, \<open>get_arp_cache\<close> (\<open>common/activep4_tunnel.h\<close>) fills a table indexed by the last byte of the
  address.  The first section has the functions of the C library they call.
\<close>

abbreviation (input) ARPMASK :: u32 where "ARPMASK \<equiv> 0x000000FF"

subsection \<open>The C library functions the readers call\<close>

text \<open>\<open>inet_pton(AF_INET, ...)\<close>: four decimal numbers without leading zeros, at most 255.\<close>

fun pton4 :: "nat list \<Rightarrow> nat option \<Rightarrow> string \<Rightarrow> nat list option" where
  "pton4 octets cur [] = (case cur of None \<Rightarrow> None | Some n \<Rightarrow> if length octets = 3 then Some (octets @ [n]) else None)"
| "pton4 octets cur (c # cs) =
     (if is_digit c then
        (case cur of
           None \<Rightarrow> pton4 octets (Some (of_char c - 48)) cs
         | Some n \<Rightarrow> if n = 0 \<or> 255 < 10 * n + (of_char c - 48) then None else pton4 octets (Some (10 * n + (of_char c - 48))) cs)
      else if c = CHR ''.'' then
        (case cur of None \<Rightarrow> None | Some n \<Rightarrow> if length octets = 3 then None else pton4 (octets @ [n]) None cs)
      else None)"

text \<open>The four bytes in memory, read as \<open>uint32_t\<close>.\<close>

definition ipv4_of :: "nat list \<Rightarrow> u32" where
  "ipv4_of octets = load32 (store_bytes 0 (map of_nat octets) (\<lambda>_. 0)) 0"

definition inet_pton :: "string \<Rightarrow> u32 option" where
  "inet_pton s = map_option ipv4_of (pton4 [] None s)"

definition xdigit :: "char \<Rightarrow> nat option" where
  "xdigit c = (let n = of_char c :: nat in
     if 48 \<le> n \<and> n < 58 then Some (n - 48) else if 65 \<le> n \<and> n < 71 then Some (n - 55) else if 97 \<le> n \<and> n < 103 then Some (n - 87) else None)"

fun xdigits :: "nat \<Rightarrow> string \<Rightarrow> nat \<times> string" where
  "xdigits acc [] = (acc, [])"
| "xdigits acc (c # cs) = (case xdigit c of None \<Rightarrow> (acc, c # cs) | Some d \<Rightarrow> xdigits (16 * acc + d) cs)"

text \<open>\<open>%hx\<close>: white space, a sign and a prefix \<open>0x\<close> may precede the digits.\<close>

definition scan_hx :: "string \<Rightarrow> (u16 \<times> string) option" where
  "scan_hx s =
     (let s = dropWhile is_space s;
          (neg, s) = (case s of [] \<Rightarrow> (False, s) | c # cs \<Rightarrow> if c = CHR ''-'' then (True, cs) else if c = CHR ''+'' then (False, cs) else (False, s));
          s = (if take 2 s = ''0x'' \<or> take 2 s = ''0X'' then drop 2 s else s) in
      case s of
        [] \<Rightarrow> None
      | c # cs \<Rightarrow> (case xdigit c of None \<Rightarrow> None | Some _ \<Rightarrow> (case xdigits 0 s of (n, rest) \<Rightarrow> Some (if neg then - of_nat n else of_nat n, rest))))"

text \<open>\<open>sscanf(tok, "%hx:%hx:%hx:%hx:%hx:%hx", ...) == ETH_ALEN\<close>, for the last \<open>n\<close> conversions.\<close>

fun scan_hwaddr :: "nat \<Rightarrow> string \<Rightarrow> u16 list option" where
  "scan_hwaddr 0 s = Some []"
| "scan_hwaddr (Suc n) s = (case scan_hx s of
       None \<Rightarrow> None
     | Some (v, rest) \<Rightarrow>
         if n = 0 then Some [v]
         else (case rest of [] \<Rightarrow> None | c # cs \<Rightarrow> if c = CHR '':'' then map_option ((#) v) (scan_hwaddr n cs) else None))"

subsection \<open>Model\<close>

record arp_entry_t =
  ae_ip_addr :: u32
  ae_eth_addr :: "u8 list"

text \<open>A token that is a hardware address, with the bytes that are kept of it.\<close>

definition hwaddr_token :: "string \<Rightarrow> u8 list option" where
  "hwaddr_token tok = (if length tok = 17 then map_option (map ucast) (scan_hwaddr 6 tok) else None)"

definition pton_or_zero :: "string \<Rightarrow> u32" where
  "pton_or_zero tok = (case inet_pton tok of None \<Rightarrow> 0 | Some ip \<Rightarrow> ip)"

definition arp_tokens :: "string \<Rightarrow> string list" where
  "arp_tokens = strtok_first [CHR '' ''] [CHR '' '', CHR 0x0A]"

text \<open>
  The token loop of \<open>arp_resolve\<close>; the state is \<open>ip_addr\<close>, which is kept from line to line, and the
  caller's buffer.
\<close>

fun resolve_tokens :: "u32 \<Rightarrow> string \<Rightarrow> string list \<Rightarrow> u32 \<times> u8 list \<Rightarrow> bool \<times> u32 \<times> u8 list" where
  "resolve_tokens dst dev [] (ip_addr, eth) = (False, ip_addr, eth)"
| "resolve_tokens dst dev (tok # toks) (ip_addr, eth) =
     (if tok = dev \<and> ip_addr = dst then (True, ip_addr, eth)
      else if ip_addr = 0 then resolve_tokens dst dev toks (pton_or_zero tok, eth)
      else (case hwaddr_token tok of
              None \<Rightarrow> resolve_tokens dst dev toks (ip_addr, eth)
            | Some hwaddr \<Rightarrow> if ip_addr = dst then resolve_tokens dst dev toks (ip_addr, hwaddr) else resolve_tokens dst dev toks (0, eth)))"

fun resolve_lines :: "u32 \<Rightarrow> string \<Rightarrow> string list \<Rightarrow> u32 \<times> u8 list \<Rightarrow> bool \<times> u8 list" where
  "resolve_lines dst dev [] s = (False, snd s)"
| "resolve_lines dst dev (l # ls) s =
     (case resolve_tokens dst dev (arp_tokens l) s of (found, s') \<Rightarrow> if found then (True, snd s') else resolve_lines dst dev ls s')"

text \<open>The file is opened without a check.\<close>

definition arp_resolve :: "string option \<Rightarrow> u32 \<Rightarrow> string \<Rightarrow> u8 list \<Rightarrow> (bool \<times> u8 list) c_result" where
  "arp_resolve file dst dev eth = (case file of
       None \<Rightarrow> Inl NullDeref
     | Some content \<Rightarrow> Inr (resolve_lines dst dev (fgets_all 1023 content) (0, eth)))"

fun cache_tokens :: "string \<Rightarrow> string list \<Rightarrow> bool \<times> u32 \<times> arp_entry_t \<Rightarrow> bool \<times> u32 \<times> arp_entry_t" where
  "cache_tokens dev [] s = s"
| "cache_tokens dev (tok # toks) (valid, ip_addr, arp_entry) =
     (let valid = (valid \<or> tok = dev) in
      if ip_addr = 0 then cache_tokens dev toks (valid, pton_or_zero tok, arp_entry)
      else (case hwaddr_token tok of
              None \<Rightarrow> cache_tokens dev toks (valid, ip_addr, arp_entry)
            | Some hwaddr \<Rightarrow> cache_tokens dev toks (valid, 0, \<lparr>ae_ip_addr = ip_addr, ae_eth_addr = hwaddr\<rparr>)))"

fun cache_lines :: "string \<Rightarrow> string list \<Rightarrow> u32 \<times> arp_entry_t \<Rightarrow> arp_entry_t arr \<times> nat \<Rightarrow> arp_entry_t arr \<times> nat" where
  "cache_lines dev [] s r = r"
| "cache_lines dev (l # ls) (ip_addr, arp_entry) (arp_cache, num_entries) =
     (case cache_tokens dev (arp_tokens l) (False, ip_addr, arp_entry) of (valid, ip_addr, arp_entry) \<Rightarrow>
        cache_lines dev ls (ip_addr, arp_entry)
          (if valid then (arp_cache(unat (ntohl (ae_ip_addr arp_entry) AND ARPMASK) := arp_entry), Suc num_entries) else (arp_cache, num_entries)))"

text \<open>\<open>stale\<close> is the uninitialised variable \<open>arp_entry\<close>.\<close>

definition get_arp_cache :: "arp_entry_t \<Rightarrow> string option \<Rightarrow> arp_entry_t arr \<Rightarrow> string \<Rightarrow> (arp_entry_t arr \<times> nat) c_result" where
  "get_arp_cache stale file arp_cache dev = (case file of
       None \<Rightarrow> Inl NullDeref
     | Some content \<Rightarrow> Inr (cache_lines dev (fgets_all 1023 content) (0, stale) (arp_cache, 0)))"

subsection \<open>Addresses as text\<close>

definition digit :: "nat \<Rightarrow> char" where "digit n = ''0123456789abcdef'' ! n"

definition dec_octet :: "nat \<Rightarrow> string" where
  "dec_octet n = (if n < 10 then [digit n] else if n < 100 then [digit (n div 10), digit (n mod 10)]
     else [digit (n div 100), digit (n div 10 mod 10), digit (n mod 10)])"

definition ip_text :: "nat \<times> nat \<times> nat \<times> nat \<Rightarrow> string" where
  "ip_text a = (case a of (a, b, c, d) \<Rightarrow> dec_octet a @ ''.'' @ dec_octet b @ ''.'' @ dec_octet c @ ''.'' @ dec_octet d)"

definition hex_byte :: "u8 \<Rightarrow> string" where
  "hex_byte b = [digit (unat b div 16), digit (unat b mod 16)]"

fun mac_text :: "u8 list \<Rightarrow> string" where
  "mac_text [] = []"
| "mac_text [b] = hex_byte b"
| "mac_text (b # c # bs) = hex_byte b @ CHR '':'' # mac_text (c # bs)"

lemma digit_cases: "(n :: nat) < 16 \<Longrightarrow> n \<in> {0, 1, 2, 3, 4, 5, 6, 7, 8, 9, 10, 11, 12, 13, 14, 15}"
  by simp presburger

lemma digit_simps:
  assumes "n < 10"
  shows "is_digit (digit n)" "of_char (digit n) - 48 = n"
proof -
  have "n \<in> {0, 1, 2, 3, 4, 5, 6, 7, 8, 9}" using assms by auto
  then show "is_digit (digit n)" "of_char (digit n) - 48 = n" by (auto simp: digit_def is_digit_def)
qed

lemma xdigit_digit [simp]: "n < 16 \<Longrightarrow> xdigit (digit n) = Some n"
  using digit_cases [of n] by (auto simp: digit_def xdigit_def)

lemma dec_octet_ne [simp]: "dec_octet n \<noteq> []"
  by (simp add: dec_octet_def)

lemma pton4_octet:
  assumes "n < 256"
  shows "pton4 os None (dec_octet n @ rest) = pton4 os (Some n) rest"
proof -
  consider "n < 10" | "10 \<le> n" "n < 100" | "100 \<le> n" by linarith
  then show ?thesis
  proof cases
    case 1
    then show ?thesis by (simp add: dec_octet_def digit_simps)
  next
    case 2
    then have "n div 10 < 10" "n div 10 \<noteq> 0" "10 * (n div 10) + n mod 10 = n" "\<not> n < 10" by auto
    with 2 assms show ?thesis by (simp add: dec_octet_def digit_simps)
  next
    case 3
    have "10 * (n div 10 div 10) + n div 10 mod 10 = n div 10" by (rule mult_div_mod_eq)
    with 3 have "n div 100 < 10" "n div 100 \<noteq> 0" "10 * (n div 100) + n div 10 mod 10 = n div 10" "10 * (n div 10) + n mod 10 = n" "n div 10 \<noteq> 0" "n div 10 \<le> 255"
      "\<not> n < 100" "\<not> n < 10" using assms by (auto simp: div_mult2_eq [symmetric])
    with 3 assms show ?thesis by (simp add: dec_octet_def digit_simps)
  qed
qed

lemma inet_pton_text:
  assumes "a < 256" "b < 256" "c < 256" "d < 256"
  shows "inet_pton (ip_text (a, b, c, d)) = Some (ipv4_of [a, b, c, d])"
proof -
  have "pton4 os None (dec_octet d) = pton4 os (Some d) []" for os using pton4_octet [OF assms(4), of os "[]"] by simp
  moreover have "\<not> is_digit (CHR ''.'')" by (simp add: is_digit_def)
  ultimately show ?thesis
    using assms by (simp add: inet_pton_def ip_text_def pton4_octet)
qed

lemma scan_hex_byte:
  assumes "rest = [] \<or> (\<exists>r. rest = CHR '':'' # r)"
  shows "scan_hx (hex_byte b @ rest) = Some (ucast b, rest)"
proof -
  have d: "unat b div 16 < 16" "unat b mod 16 < 16" using unsigned_less [of b, where ?'a = nat] by auto
  have nd: "\<not> is_space (digit n)" "digit n \<noteq> CHR ''-''" "digit n \<noteq> CHR ''+''" "digit n \<noteq> CHR ''x''" "digit n \<noteq> CHR ''X''" if "n < 16" for n
    using digit_cases [OF that] by (auto simp: digit_def is_space_def)
  have "xdigits (unat b) rest = (unat b, rest)" using assms by (auto simp: xdigit_def)
  moreover have "16 * (unat b div 16) + unat b mod 16 = unat b" by simp
  ultimately have "xdigits 0 (hex_byte b @ rest) = (unat b, rest)" using d by (simp add: hex_byte_def)
  moreover have "(of_nat (unat b) :: u16) = ucast b" by simp
  ultimately show ?thesis using d nd by (simp add: scan_hx_def hex_byte_def Let_def)
qed

lemma scan_mac_text: "bs \<noteq> [] \<Longrightarrow> scan_hwaddr (length bs) (mac_text bs) = Some (map ucast bs)"
proof (induction bs rule: mac_text.induct)
  case (2 b)
  then show ?case using scan_hex_byte [of "[]" b] by simp
next
  case (3 b c bs)
  then show ?case using scan_hex_byte [of "CHR '':'' # mac_text (c # bs)" b] by simp
qed simp

lemma length_mac_text: "bs \<noteq> [] \<Longrightarrow> length (mac_text bs) + 1 = 3 * length bs"
  by (induction bs rule: mac_text.induct) (simp_all add: hex_byte_def)

lemma hwaddr_token_text: "length bs = 6 \<Longrightarrow> hwaddr_token (mac_text bs) = Some bs"
proof -
  assume bs: "length bs = 6"
  then have "bs \<noteq> []" by auto
  moreover have "ucast (ucast b :: u16) = b" for b :: u8 by (rule bit_word_eqI) (simp add: bit_simps)
  ultimately show ?thesis using bs scan_mac_text [of bs] length_mac_text [of bs] by (simp add: hwaddr_token_def comp_def)
qed

subsection \<open>The table of the kernel\<close>

record arp_line =
  al_ip :: "nat \<times> nat \<times> nat \<times> nat"
  al_flags :: string
  al_mac :: "u8 list"
  al_dev :: string

definition al_addr :: "arp_line \<Rightarrow> u32" where
  "al_addr e = (case al_ip e of (a, b, c, d) \<Rightarrow> ipv4_of [a, b, c, d])"

fun padded :: "(string \<times> nat) list \<Rightarrow> string" where
  "padded [] = []"
| "padded ((t, n) # fs) = t @ replicate (Suc n) CHR '' '' @ padded fs"

definition arp_fields :: "arp_line \<Rightarrow> (string \<times> nat) list" where
  "arp_fields e = [(ip_text (al_ip e), 16 - length (ip_text (al_ip e))), (''0x1'', 8), (al_flags e, 8), (mac_text (al_mac e), 4), (''*'', 7)]"

definition arp_text :: "arp_line \<Rightarrow> string" where
  "arp_text e = padded (arp_fields e) @ al_dev e"

definition arp_header :: string where
  "arp_header = ''IP address       HW type     Flags       HW address            Mask     Device''"

definition arp_table :: "arp_line list \<Rightarrow> string" where
  "arp_table es = concat (map (\<lambda>b. b @ [CHR 0x0A]) (arp_header # map arp_text es))"

definition arp_field :: "string \<Rightarrow> bool" where
  "arp_field t \<longleftrightarrow> t \<noteq> [] \<and> CHR '' '' \<notin> set t \<and> CHR 0x0A \<notin> set t"

text \<open>An entry as the kernel prints it: flags and device are short words, and neither looks like an address.\<close>

definition arp_line_ok :: "arp_line \<Rightarrow> bool" where
  "arp_line_ok e \<longleftrightarrow> (case al_ip e of (a, b, c, d) \<Rightarrow> a < 256 \<and> b < 256 \<and> c < 256 \<and> d < 256) \<and> al_addr e \<noteq> 0 \<and> length (al_mac e) = 6
     \<and> arp_field (al_flags e) \<and> length (al_flags e) < 11 \<and> take 2 (al_flags e) = ''0x'' \<and> arp_field (al_dev e) \<and> length (al_dev e) < 16 \<and> inet_pton (al_dev e) = None"

lemma digit_no_sep: "n < 16 \<Longrightarrow> digit n \<noteq> CHR '' ''" "n < 16 \<Longrightarrow> digit n \<noteq> CHR 0x0A"
  using digit_cases [of n] by (auto simp: digit_def)

lemma dec_octet_field: "n < 256 \<Longrightarrow> arp_field (dec_octet n)"
  by (auto simp: dec_octet_def arp_field_def digit_no_sep [THEN not_sym])

lemma ip_text_field:
  assumes "arp_line_ok e"
  shows "arp_field (ip_text (al_ip e))" "length (ip_text (al_ip e)) < 16" "inet_pton (ip_text (al_ip e)) = Some (al_addr e)"
proof -
  obtain a b c d where abcd: "al_ip e = (a, b, c, d)" by (metis prod_cases4)
  then have l: "a < 256" "b < 256" "c < 256" "d < 256" using assms by (simp_all add: arp_line_ok_def)
  show "inet_pton (ip_text (al_ip e)) = Some (al_addr e)" using inet_pton_text [OF l] by (simp add: abcd al_addr_def)
  show "arp_field (ip_text (al_ip e))" using l dec_octet_field by (simp add: abcd ip_text_def arp_field_def)
  have "length (dec_octet n) \<le> 3" for n by (simp add: dec_octet_def)
  from this [of a] this [of b] this [of c] this [of d] show "length (ip_text (al_ip e)) < 16" by (simp add: abcd ip_text_def)
qed

lemma mac_text_field: "bs \<noteq> [] \<Longrightarrow> arp_field (mac_text bs)"
proof -
  have h: "arp_field (hex_byte b)" for b
    using unsigned_less [of b, where ?'a = nat] digit_no_sep [THEN not_sym] by (simp add: hex_byte_def arp_field_def)
  show "bs \<noteq> [] \<Longrightarrow> arp_field (mac_text bs)"
    using h by (induction bs rule: mac_text.induct) (auto simp: arp_field_def)
qed

lemma strtok_skip: "strtok_all [CHR '' '', CHR 0x0A] (replicate n CHR '' '' @ s) = strtok_all [CHR '' '', CHR 0x0A] s"
proof (induction n)
  case (Suc n)
  have "strtok_all [CHR '' '', CHR 0x0A] (CHR '' '' # t) = strtok_all [CHR '' '', CHR 0x0A] t" for t
    by (simp add: strtok_all.simps [of _ "CHR '' '' # t"] strtok_all.simps [of _ t])
  with Suc show ?case by simp
qed simp

lemma strtok_padded:
  assumes "\<forall>f\<in>set fs. arp_field (fst f)" "arp_field dev"
  shows "strtok_all [CHR '' '', CHR 0x0A] (padded fs @ dev @ [CHR 0x0A]) = map fst fs @ [dev]"
  using assms(1)
proof (induction fs rule: padded.induct)
  case 1
  have "strtok_all [CHR '' '', CHR 0x0A] [] = []" by (simp add: strtok_all.simps)
  then show ?case using strtok_field [of dev "[CHR '' '', CHR 0x0A]" "CHR 0x0A" "[]"] assms(2) by (auto simp: arp_field_def)
next
  case (2 t n fs)
  then show ?case
    using strtok_field [of t "[CHR '' '', CHR 0x0A]" "CHR '' ''" "replicate n CHR '' '' @ padded fs @ dev @ [CHR 0x0A]"]
    by (auto simp: arp_field_def strtok_skip)
qed

lemma arp_tokens_padded:
  assumes "\<forall>f\<in>set ((t, n) # fs). arp_field (fst f)" "arp_field dev"
  shows "arp_tokens (padded ((t, n) # fs) @ dev @ [CHR 0x0A]) = t # map fst fs @ [dev]"
proof -
  let ?r = "replicate n CHR '' '' @ padded fs @ dev @ [CHR 0x0A]"
  have t: "t \<noteq> []" "CHR '' '' \<notin> set t" using assms by (auto simp: arp_field_def)
  have "dropWhile (\<lambda>c. c \<in> set [CHR '' '']) (t @ CHR '' '' # ?r) = t @ CHR '' '' # ?r" using t by (cases t) auto
  moreover have "takeWhile (\<lambda>c. c \<notin> set [CHR '' '']) (t @ CHR '' '' # ?r) = t" "dropWhile (\<lambda>c. c \<notin> set [CHR '' '']) (t @ CHR '' '' # ?r) = CHR '' '' # ?r"
    using t(2) by (auto simp: takeWhile_append dropWhile_append intro!: takeWhile_eq_all_conv [THEN iffD2])
  ultimately show ?thesis
    using t strtok_padded [of fs dev] assms by (simp add: arp_tokens_def strtok_first_def Let_def strtok_skip)
qed

lemma arp_tokens_line:
  assumes "arp_line_ok e"
  shows "arp_tokens (arp_text e @ [CHR 0x0A]) = [ip_text (al_ip e), ''0x1'', al_flags e, mac_text (al_mac e), ''*'', al_dev e]"
proof -
  have "al_mac e \<noteq> []" using assms by (auto simp: arp_line_ok_def)
  then have "\<forall>f\<in>set (arp_fields e). arp_field (fst f)"
    using assms ip_text_field(1) [OF assms] mac_text_field [of "al_mac e"] by (auto simp: arp_fields_def arp_line_ok_def arp_field_def)
  moreover have "(ip_text (al_ip e), 16 - length (ip_text (al_ip e))) # tl (arp_fields e) = arp_fields e" by (simp add: arp_fields_def)
  moreover have "arp_field (al_dev e)" using assms by (simp add: arp_line_ok_def)
  ultimately have "arp_tokens (padded (arp_fields e) @ al_dev e @ [CHR 0x0A]) = ip_text (al_ip e) # map fst (tl (arp_fields e)) @ [al_dev e]"
    using arp_tokens_padded [of "ip_text (al_ip e)" "16 - length (ip_text (al_ip e))" "tl (arp_fields e)" "al_dev e"] by metis
  moreover have "map fst (tl (arp_fields e)) = [''0x1'', al_flags e, mac_text (al_mac e), ''*'']" by (simp add: arp_fields_def)
  ultimately show ?thesis by (simp add: arp_text_def)
qed

definition arp_words :: "string list" where
  "arp_words = [''IP'', ''address'', ''HW'', ''type'', ''Flags'', ''HW'', ''address'', ''Mask'', ''Device'']"

text \<open>A device name to look for: no word of the table but the names of devices.\<close>

definition arp_device :: "string \<Rightarrow> bool" where
  "arp_device dev \<longleftrightarrow> length dev < 16 \<and> take 2 dev \<noteq> ''0x'' \<and> dev \<noteq> ''*'' \<and> inet_pton dev = None
     \<and> dev \<notin> set arp_words"

definition al_tokens :: "arp_line \<Rightarrow> string list" where
  "al_tokens e = [ip_text (al_ip e), ''0x1'', al_flags e, mac_text (al_mac e), ''*'', al_dev e]"

lemma hwaddr_token_other: "length tok < 16 \<Longrightarrow> hwaddr_token tok = None"
  by (simp add: hwaddr_token_def)

lemma pton_star: "pton_or_zero ''*'' = 0"
  by (simp add: pton_or_zero_def inet_pton_def is_digit_def)

lemma al_token_facts:
  assumes "arp_line_ok e"
  shows "pton_or_zero (ip_text (al_ip e)) = al_addr e" "al_addr e \<noteq> 0" "pton_or_zero (al_dev e) = 0" "hwaddr_token (mac_text (al_mac e)) = Some (al_mac e)"
    "hwaddr_token (ip_text (al_ip e)) = None" "hwaddr_token ''0x1'' = None" "hwaddr_token ''*'' = None" "hwaddr_token (al_flags e) = None" "hwaddr_token (al_dev e) = None"
  using assms ip_text_field [OF assms] hwaddr_token_text [of "al_mac e"] by (simp_all add: arp_line_ok_def pton_or_zero_def hwaddr_token_other)

lemma arp_device_facts:
  assumes "arp_line_ok e" "arp_device dev"
  shows "ip_text (al_ip e) \<noteq> dev" "''0x1'' \<noteq> dev" "al_flags e \<noteq> dev" "mac_text (al_mac e) \<noteq> dev" "''*'' \<noteq> dev"
proof -
  have "length (mac_text (al_mac e)) = 17" using assms(1) length_mac_text [of "al_mac e"] by (cases "al_mac e") (simp_all add: arp_line_ok_def)
  then show "mac_text (al_mac e) \<noteq> dev" using assms(2) by (auto simp: arp_device_def)
  show "ip_text (al_ip e) \<noteq> dev" using ip_text_field(3) [OF assms(1)] assms(2) by (auto simp: arp_device_def)
  show "''0x1'' \<noteq> dev" "al_flags e \<noteq> dev" "''*'' \<noteq> dev" using assms by (auto simp: arp_device_def arp_line_ok_def)
qed

text \<open>One line of the table in \<open>arp_resolve\<close>: with no address pending, and with the address of another device pending.\<close>

lemma resolve_line:
  assumes "arp_line_ok e" "arp_device dev" "dst \<noteq> 0"
  shows "resolve_tokens dst dev (al_tokens e) (0, eth) =
      (if al_addr e = dst then (al_dev e = dev, dst, al_mac e) else (False, 0, eth))"
    "resolve_tokens dst dev (al_tokens e) (dst, eth) = (al_dev e = dev, dst, al_mac e)"
  using al_token_facts [OF assms(1)] arp_device_facts [OF assms(1,2)] assms(3) pton_star by (simp_all add: al_tokens_def)

lemma cache_line:
  assumes "arp_line_ok e" "arp_device dev"
  shows "cache_tokens dev (al_tokens e) (False, 0, ent) = (al_dev e = dev, 0, \<lparr>ae_ip_addr = al_addr e, ae_eth_addr = al_mac e\<rparr>)"
  using al_token_facts [OF assms(1)] arp_device_facts [OF assms] pton_star by (simp add: al_tokens_def)

lemma arp_tokens_text: "arp_line_ok e \<Longrightarrow> arp_tokens (arp_text e @ [CHR 0x0A]) = al_tokens e"
  using arp_tokens_line by (simp add: al_tokens_def)

lemma arp_header_tokens: "arp_tokens (arp_header @ [CHR 0x0A]) = arp_words"
  by code_simp

lemma tokens_without_address:
  assumes "\<forall>t\<in>set toks. pton_or_zero t = 0 \<and> t \<noteq> dev"
  shows "resolve_tokens dst dev toks (0, eth) = (False, 0, eth)" "cache_tokens dev toks (False, 0, ent) = (False, 0, ent)"
  using assms by (induction toks) auto

lemma arp_header_line:
  assumes "arp_device dev"
  shows "resolve_tokens dst dev (arp_tokens (arp_header @ [CHR 0x0A])) (0, eth) = (False, 0, eth)"
    "cache_tokens dev (arp_tokens (arp_header @ [CHR 0x0A])) (False, 0, ent) = (False, 0, ent)"
proof -
  have "\<forall>t\<in>set arp_words. pton_or_zero t = 0" by (simp add: arp_words_def pton_or_zero_def inet_pton_def is_digit_def)
  moreover have "\<forall>t\<in>set arp_words. t \<noteq> dev" using assms by (auto simp: arp_device_def)
  ultimately show "resolve_tokens dst dev (arp_tokens (arp_header @ [CHR 0x0A])) (0, eth) = (False, 0, eth)"
    "cache_tokens dev (arp_tokens (arp_header @ [CHR 0x0A])) (False, 0, ent) = (False, 0, ent)"
    unfolding arp_header_tokens by (simp_all add: tokens_without_address)
qed

lemma arp_text_line:
  assumes "arp_line_ok e"
  shows "CHR 0x0A \<notin> set (arp_text e)" "length (arp_text e) < 1023"
proof -
  have mac: "al_mac e \<noteq> []" "length (mac_text (al_mac e)) = 17" using assms length_mac_text [of "al_mac e"] by (cases "al_mac e"; simp add: arp_line_ok_def)+
  then have "arp_field (mac_text (al_mac e))" by (intro mac_text_field)
  with assms ip_text_field [OF assms] mac(2) show "CHR 0x0A \<notin> set (arp_text e)" "length (arp_text e) < 1023"
    by (auto simp: arp_text_def arp_fields_def arp_line_ok_def arp_field_def)
qed

lemma arp_table_lines:
  assumes "\<forall>e\<in>set es. arp_line_ok e"
  shows "fgets_all 1023 (arp_table es) = (arp_header @ [CHR 0x0A]) # map (\<lambda>e. arp_text e @ [CHR 0x0A]) es"
proof -
  have "CHR 0x0A \<notin> set arp_header \<and> length arp_header < 1023" by (simp add: arp_header_def)
  then have "fgets_all 1023 (arp_table es) = map (\<lambda>b. b @ [CHR 0x0A]) (arp_header # map arp_text es)"
    unfolding arp_table_def using assms arp_text_line by (intro fgets_all_lines) auto
  then show ?thesis by simp
qed

subsection \<open>What the readers find\<close>

lemma resolve_lines_spec:
  assumes "\<forall>e\<in>set es. arp_line_ok e" "arp_device dev" "dst \<noteq> 0" "\<forall>e\<in>set es. al_addr e = dst \<longrightarrow> al_dev e = dev"
  shows "resolve_lines dst dev (map (\<lambda>e. arp_text e @ [CHR 0x0A]) es) (0, eth) =
    (case find (\<lambda>e. al_addr e = dst) es of None \<Rightarrow> (False, eth) | Some e \<Rightarrow> (True, al_mac e))"
  using assms(1,4)
  by (induction es) (simp_all add: arp_tokens_text resolve_line(1) [OF _ assms(2,3)])

text \<open>
  On the table as the kernel prints it, and if all entries with the address
  belong to the given device, \<open>arp_resolve\<close> reports whether there is an entry with the address and
  stores the hardware address of the first one; otherwise it leaves the caller's buffer alone.
\<close>

theorem arp_resolve_correct:
  assumes "\<forall>e\<in>set es. arp_line_ok e" "arp_device dev" "dst \<noteq> 0" "\<forall>e\<in>set es. al_addr e = dst \<longrightarrow> al_dev e = dev"
  shows "arp_resolve (Some (arp_table es)) dst dev eth =
    Inr (case find (\<lambda>e. al_addr e = dst) es of None \<Rightarrow> (False, eth) | Some e \<Rightarrow> (True, al_mac e))"
  using resolve_lines_spec [OF assms] arp_header_line(1) [OF assms(2)]
  by (simp add: arp_resolve_def arp_table_lines [OF assms(1)])

definition demo_arp :: "nat \<Rightarrow> string \<Rightarrow> arp_line" where
  "demo_arp n dev = \<lparr>al_ip = (10, 0, 0, n), al_flags = ''0x2'', al_mac = [0x0A, 0xFF, 0, 0, 0, of_nat n], al_dev = dev\<rparr>"

lemma demo_arp_ok: "n < 256 \<Longrightarrow> dev \<in> {''eth0'', ''eth1''} \<Longrightarrow> arp_line_ok (demo_arp n dev)"
proof -
  assume n: "n < 256" and dev: "dev \<in> {''eth0'', ''eth1''}"
  have "ucast (ipv4_of [10, 0, 0, n]) = (10 :: u8)" by (rule bit_word_eqI) (auto simp: ipv4_of_def load32_def store_bytes_def bit_simps)
  then have "ipv4_of [10, 0, 0, n] \<noteq> 0" by auto
  with n dev show ?thesis
    by (auto simp: arp_line_ok_def demo_arp_def al_addr_def arp_field_def inet_pton_def is_digit_def)
qed

lemma demo_arp_device: "arp_device ''eth0''"
  by (simp add: arp_device_def inet_pton_def is_digit_def arp_words_def)

theorem arp_resolve_correct_witness:
  "arp_resolve (Some (arp_table [demo_arp 1 ''eth0''])) (al_addr (demo_arp 1 ''eth0'')) ''eth0'' [] = Inr (True, [0x0A, 0xFF, 0, 0, 0, 1])"
proof -
  have "arp_line_ok (demo_arp 1 ''eth0'')" by (rule demo_arp_ok) simp_all
  then show ?thesis
    using arp_resolve_correct [of "[demo_arp 1 ''eth0'']" "''eth0''" "al_addr (demo_arp 1 ''eth0'')" "[]"] demo_arp_device
    by (simp add: arp_line_ok_def) (simp add: demo_arp_def)
qed

text \<open>
  An entry of another device misleads the look-up.  When the address is first found on another
  device, \<open>arp_resolve\<close> does not forget it at the end of the line: it takes the next line for a
  continuation and, if that entry belongs to the device, returns the hardware address of that entry,
  whatever its address.
\<close>

theorem arp_resolve_wrong_entry:
  assumes "arp_line_ok d" "arp_line_ok e" "arp_device dev" "al_addr d \<noteq> 0" "al_dev d \<noteq> dev" "al_dev e = dev" "\<forall>e\<in>set es. arp_line_ok e"
  shows "arp_resolve (Some (arp_table (d # e # es))) (al_addr d) dev eth = Inr (True, al_mac e)"
  using arp_header_line(1) [OF assms(3)] resolve_line [OF assms(1,3,4)] resolve_line(2) [OF assms(2,3,4)] assms
  by (simp add: arp_resolve_def arp_table_lines arp_tokens_text)

theorem arp_resolve_wrong_entry_witness:
  "arp_resolve (Some (arp_table [demo_arp 1 ''eth1'', demo_arp 2 ''eth0''])) (al_addr (demo_arp 1 ''eth1'')) ''eth0'' [] = Inr (True, [0x0A, 0xFF, 0, 0, 0, 2])"
proof -
  have ok: "arp_line_ok (demo_arp 1 ''eth1'')" "arp_line_ok (demo_arp 2 ''eth0'')" by (rule demo_arp_ok; simp)+
  moreover from ok have "al_addr (demo_arp 1 ''eth1'') \<noteq> 0" by (simp add: arp_line_ok_def)
  ultimately have "arp_resolve (Some (arp_table [demo_arp 1 ''eth1'', demo_arp 2 ''eth0''])) (al_addr (demo_arp 1 ''eth1'')) ''eth0'' [] = Inr (True, al_mac (demo_arp 2 ''eth0''))"
    by (intro arp_resolve_wrong_entry) (simp_all add: demo_arp_device, simp_all add: demo_arp_def)
  then show ?thesis by (simp add: demo_arp_def)
qed

definition arp_index :: "u32 \<Rightarrow> nat" where
  "arp_index ip = unat (ntohl ip AND ARPMASK)"

lemma cache_lines_spec:
  assumes "\<forall>e\<in>set es. arp_line_ok e" "arp_device dev"
  shows "cache_lines dev (map (\<lambda>e. arp_text e @ [CHR 0x0A]) es) (0, ent) (arp_cache, n) =
    ((\<lambda>i. case find (\<lambda>e. al_dev e = dev \<and> arp_index (al_addr e) = i) (rev es) of
        None \<Rightarrow> arp_cache i | Some e \<Rightarrow> \<lparr>ae_ip_addr = al_addr e, ae_eth_addr = al_mac e\<rparr>),
     n + length (filter (\<lambda>e. al_dev e = dev) es))"
  using assms(1)
proof (induction es arbitrary: ent arp_cache n)
  case (Cons e es)
  have app: "find P (xs @ [x]) = (case find P xs of None \<Rightarrow> if P x then Some x else None | Some y \<Rightarrow> Some y)" for P :: "arp_line \<Rightarrow> bool" and xs x
    by (induction xs) auto
  show ?case
    using Cons by (auto simp: arp_tokens_text cache_line [OF _ assms(2)] app arp_index_def fun_eq_iff split: option.splits)
qed (simp add: fun_eq_iff)

text \<open>
  On the table as the kernel prints it, \<open>get_arp_cache\<close> stores at each index the last entry of the device
  whose address ends in that byte, leaves the other slots as they were, and returns the number of
  entries of the device.
\<close>

lemma get_arp_cache_spec:
  assumes "\<forall>e\<in>set es. arp_line_ok e" "arp_device dev"
  shows "get_arp_cache stale (Some (arp_table es)) arp_cache dev = Inr
    ((\<lambda>i. case find (\<lambda>e. al_dev e = dev \<and> arp_index (al_addr e) = i) (rev es) of
        None \<Rightarrow> arp_cache i | Some e \<Rightarrow> \<lparr>ae_ip_addr = al_addr e, ae_eth_addr = al_mac e\<rparr>),
     length (filter (\<lambda>e. al_dev e = dev) es))"
  using cache_lines_spec [OF assms, of stale arp_cache 0] arp_header_line(2) [OF assms(2)]
  by (simp add: get_arp_cache_def arp_table_lines [OF assms(1)])

end
