(* ===== verification/AP4_Tunnel.thy ===== *)
theory AP4_Tunnel
  imports AP4_Sockets AP4_Arp
begin

text \<open>
  The tunnel of hosts without DPDK (\<open>common/activep4_tunnel.h\<close>): a TUN device whose packets leave with an
  active program in front of them, and whose peer strips the program again.

  The four filters are written by the application that includes the header and are parameters; so
  is \<open>get_active_eof\<close>, as the header calls it with one argument, a version that the repository no
  longer has.  Results of system calls are arguments.
\<close>

abbreviation (input) TUNNEL_BUFSIZE :: nat where "TUNNEL_BUFSIZE \<equiv> 16384"
abbreviation (input) TUN_NETMASK :: u32 where "TUN_NETMASK \<equiv> 0x00FFFFFF"
abbreviation (input) TUNOFFSET :: nat where "TUNOFFSET \<equiv> 4"

subsection \<open>Model\<close>

text \<open>The variables of \<open>run_tunnel\<close> that its loop reads: own hardware address, address of the TUN device,
  ARP cache.\<close>

record tunnel_cfg =
  tn_hwaddr :: "u8 list"
  tn_ipv4addr :: u32
  tn_arp :: "arp_entry_t arr"

text \<open>
  A transmit filter gets the positions of the IPv4 header, of the transport header and of the
  payload in the packet read from the TUN device, and the position in the frame at which it writes;
  it returns the number of bytes it has put there.  A receive filter gets the positions of the IPv4
  header, the transport header, the active header and the payload.
\<close>

record tunnel_filters =
  tf_tcp_tx :: "nat \<Rightarrow> nat \<Rightarrow> nat \<Rightarrow> nat \<Rightarrow> buffer \<Rightarrow> buffer \<Rightarrow> nat \<times> buffer \<times> buffer"
  tf_udp_tx :: "nat \<Rightarrow> nat \<Rightarrow> nat \<Rightarrow> nat \<Rightarrow> buffer \<Rightarrow> buffer \<Rightarrow> nat \<times> buffer \<times> buffer"
  tf_tcp_rx :: "nat \<Rightarrow> nat \<Rightarrow> nat \<Rightarrow> nat \<Rightarrow> buffer \<Rightarrow> buffer"
  tf_udp_rx :: "nat \<Rightarrow> nat \<Rightarrow> nat \<Rightarrow> nat \<Rightarrow> buffer \<Rightarrow> buffer"

definition tunnel_tx_filter :: "tunnel_filters \<Rightarrow> buffer \<Rightarrow> buffer \<Rightarrow> nat \<times> buffer \<times> buffer" where
  "tunnel_tx_filter flt recvbuf sendbuf =
     (let iph = TUNOFFSET; l4 = TUNOFFSET + sizeof_ipv4 in
      if load8 recvbuf (iph + 9) = IPPROTO_TCP then
        tf_tcp_tx flt iph l4 (l4 + 4 * unat (drop_bit 4 (load8 recvbuf (l4 + 12)))) sizeof_eth recvbuf sendbuf
      else if load8 recvbuf (iph + 9) = IPPROTO_UDP then tf_udp_tx flt iph l4 (l4 + sizeof_udp) sizeof_eth recvbuf sendbuf
      else (0, recvbuf, sendbuf))"

text \<open>The frame sent for a packet of the TUN device, with its length.\<close>

definition tunnel_tx :: "tunnel_cfg \<Rightarrow> tunnel_filters \<Rightarrow> int \<Rightarrow> buffer \<Rightarrow> (buffer \<times> nat) c_result" where
  "tunnel_tx cfg flt read_bytes recvbuf =
     (if read_bytes < 0 then Inl ExitFailure
      else let arp_idx = unat (ntohl (load32 recvbuf (TUNOFFSET + 16)) AND ARPMASK);
               sendbuf = store16 12 (htons AP4_ETHER_TYPE_AP4)
                 (store_bytes 0 (ae_eth_addr (tn_arp cfg arp_idx)) (store_bytes 6 (tn_hwaddr cfg) (\<lambda>_. 0)));
               (ap4_offset, recvbuf, sendbuf) = tunnel_tx_filter flt recvbuf sendbuf;
               tot_len = unat (ntohs (load16 recvbuf (TUNOFFSET + 2))) in
        if TUNNEL_BUFSIZE < TUNOFFSET + tot_len \<or> TUNNEL_BUFSIZE < sizeof_eth + ap4_offset + tot_len then Inl OutOfBounds
        else Inr (store_bytes (sizeof_eth + ap4_offset) (load_bytes recvbuf TUNOFFSET tot_len) sendbuf, sizeof_eth + tot_len + ap4_offset))"

definition tunnel_rx_filter :: "tunnel_filters \<Rightarrow> nat \<Rightarrow> nat \<Rightarrow> buffer \<Rightarrow> buffer" where
  "tunnel_rx_filter flt iph ap4ih recvbuf =
     (let l4 = iph + sizeof_ipv4 in
      if load8 recvbuf (iph + 9) = IPPROTO_TCP then
        tf_tcp_rx flt iph l4 ap4ih (l4 + 4 * unat (drop_bit 4 (load8 recvbuf (l4 + 12)))) recvbuf
      else if load8 recvbuf (iph + 9) = IPPROTO_UDP then tf_udp_rx flt iph l4 ap4ih (l4 + sizeof_udp) recvbuf
      else recvbuf)"

text \<open>Where the IPv4 header of an active frame starts.\<close>

definition tunnel_iph :: "(buffer \<Rightarrow> nat \<Rightarrow> nat option) \<Rightarrow> buffer \<Rightarrow> nat c_result" where
  "tunnel_iph eof recvbuf =
     (let ap4_flags = ntohs (load16 recvbuf 18);
          pptr = sizeof_eth + sizeof_ih;
          pptr = (if (ap4_flags AND AP4FLAGMASK_OPT_ARGS) \<noteq> 0 then pptr + sizeof_data else pptr) in
      if (ap4_flags AND AP4FLAGMASK_FLAG_EOE) = 0
      then (case eof recvbuf pptr of None \<Rightarrow> Inl NoReturn | Some ap4_offset \<Rightarrow> Inr (pptr + ap4_offset))
      else Inr pptr)"

text \<open>A frame of the network device: the packet relayed to the TUN device with its length, if any.\<close>

definition tunnel_rx ::
  "tunnel_cfg \<Rightarrow> tunnel_filters \<Rightarrow> (buffer \<Rightarrow> nat \<Rightarrow> nat option) \<Rightarrow> int \<Rightarrow> buffer \<Rightarrow> (buffer \<times> nat) option c_result" where
  "tunnel_rx cfg flt eof read_bytes recvbuf =
     (if \<not> hwaddr_equals recvbuf (\<lambda>k. tn_hwaddr cfg ! k) then Inr None
      else if \<not> (ntohs (load16 recvbuf 12) = AP4_ETHER_TYPE_AP4 \<and> 34 < read_bytes) then Inr None
      else if \<not> is_activep4 recvbuf sizeof_eth then Inr None
      else bind_result (tunnel_iph eof recvbuf) (\<lambda>iph.
        if TUNNEL_BUFSIZE < iph + sizeof_ipv4 then Inl OutOfBounds
        else if (load32 recvbuf (iph + 16) AND TUN_NETMASK) = (tn_ipv4addr cfg AND TUN_NETMASK) then
          (let recvbuf = tunnel_rx_filter flt iph sizeof_eth recvbuf;
               tot_len = unat (ntohs (load16 recvbuf (iph + 2))) in
           if TUNNEL_BUFSIZE < iph + tot_len then Inl OutOfBounds
           else Inr (Some (store_bytes 0 (load_bytes recvbuf iph tot_len) (\<lambda>_. 0), tot_len)))
        else Inr None))"

text \<open>
  One round of the loop: the result of \<open>select\<close>, whether it was interrupted, and for each readable
  descriptor the result of \<open>read\<close> with the buffer.
\<close>

definition tunnel_round ::
  "tunnel_cfg \<Rightarrow> tunnel_filters \<Rightarrow> (buffer \<Rightarrow> nat \<Rightarrow> nat option) \<Rightarrow> int \<Rightarrow> bool \<Rightarrow> (int \<times> buffer) option \<Rightarrow> (int \<times> buffer) option
    \<Rightarrow> ((buffer \<times> nat) option \<times> (buffer \<times> nat) option) c_result" where
  "tunnel_round cfg flt eof ret eintr sock tun =
     (if ret < 0 then (if eintr then Inr (None, None) else Inl ExitFailure)
      else bind_result (case sock of None \<Rightarrow> Inr None | Some (n, b) \<Rightarrow> tunnel_rx cfg flt eof n b) (\<lambda>relayed.
           bind_result (case tun of None \<Rightarrow> Inr None | Some (n, b) \<Rightarrow> bind_result (tunnel_tx cfg flt n b) (\<lambda>f. Inr (Some f)))
             (\<lambda>sent. Inr (relayed, sent))))"

subsection \<open>From one host to the other\<close>

text \<open>What the tunnel expects of a transmit filter and of the search for the end of a program.\<close>

definition filter_inserts :: "activep4_instr list \<Rightarrow> bool \<Rightarrow> buffer \<Rightarrow> (buffer \<Rightarrow> buffer \<Rightarrow> nat \<times> buffer \<times> buffer) \<Rightarrow> bool" where
  "filter_inserts is args recvbuf f \<longleftrightarrow> (\<forall>sendbuf. \<exists>sendbuf'.
     f recvbuf sendbuf = (10 + (if args then 16 else 0) + 2 * length is, recvbuf, sendbuf')
     \<and> (\<forall>k<14. sendbuf' k = sendbuf k) \<and> load32 sendbuf' 14 = htonl ACTIVEP4SIG
     \<and> ((ntohs (load16 sendbuf' 18) AND AP4FLAGMASK_OPT_ARGS) \<noteq> 0) = args
     \<and> program_at sendbuf' (24 + (if args then 16 else 0)) is)"

definition eof_finds :: "(buffer \<Rightarrow> nat \<Rightarrow> nat option) \<Rightarrow> bool" where
  "eof_finds eof \<longleftrightarrow> (\<forall>b p is. program_at b p is \<and> complete_program is \<longrightarrow> eof b p = Some (2 * length is))"

text \<open>
  What the network does to a frame: it keeps Ethernet header and signature, may change the other
  fields of the active header and the arguments, and either leaves the program in place or, after
  executing it, sets the flag \<open>EOE\<close> and removes it.
\<close>

definition tunnel_forwarded :: "nat \<Rightarrow> bool \<Rightarrow> buffer \<Rightarrow> buffer \<Rightarrow> bool" where
  "tunnel_forwarded n args s f \<longleftrightarrow> (\<forall>k<18. f k = s k)
     \<and> ((ntohs (load16 f 18) AND AP4FLAGMASK_OPT_ARGS) \<noteq> 0) = args
     \<and> (let removed = (if (ntohs (load16 f 18) AND AP4FLAGMASK_FLAG_EOE) = 0 then 0 else 2 * n)
        in \<forall>k\<ge>24 + (if args then 16 else 0). f k = s (k + removed))"

lemma load_shift:
  assumes "\<And>k. k < 4 \<Longrightarrow> b (i + k) = c (j + k)"
  shows "load32 b i = load32 c j"
  using assms [of 0] assms [of 1] assms [of 2] assms [of 3] by (simp add: load32_def)

lemma load16_shift:
  assumes "\<And>k. k < 2 \<Longrightarrow> b (i + k) = c (j + k)"
  shows "load16 b i = load16 c j"
  using assms [of 0] assms [of 1] by (simp add: load16_def)

lemma eof_finds_netutils: "4 \<le> n \<Longrightarrow> n < 2 ^ 31 \<Longrightarrow> eof_finds (\<lambda>b p. get_active_eof b p n)"
proof -
  assume n: "4 \<le> n" "n < 2 ^ 31"
  have "\<not> size_less n 2" "\<not> size_less (n - 2) 2" using n by (simp_all add: size_less_nonneg)
  moreover have "complete_program is \<Longrightarrow> 2 \<le> 2 * length is" for "is" by (cases "is") (simp_all add: complete_program_def)
  ultimately show ?thesis
    using complete_program_eof by (fastforce simp: eof_finds_def get_active_eof_def)
qed

lemma tunnel_iph_forwarded:
  assumes "eof_finds eof" "complete_program is" "tunnel_forwarded (length is) args s f"
    and "p = 24 + (if args then 16 else 0)" "program_at s p is"
  shows "\<exists>iph. tunnel_iph eof f = Inr iph \<and> iph \<le> p + 2 * length is \<and> (\<forall>k. f (iph + k) = s (p + 2 * length is + k))"
proof (cases "(ntohs (load16 f 18) AND AP4FLAGMASK_FLAG_EOE) = 0")
  case True
  then have f: "f k = s k" if "p \<le> k" for k using assms(3,4) that by (simp add: tunnel_forwarded_def)
  then have "program_at f p is" using assms(5) by (simp add: program_at_def)
  then have "eof f p = Some (2 * length is)" using assms(1,2) by (simp add: eof_finds_def)
  with True assms(3,4) f show ?thesis by (auto simp: tunnel_iph_def tunnel_forwarded_def Let_def)
next
  case False
  then have "f (p + k) = s (p + 2 * length is + k)" for k using assms(3,4) by (simp add: tunnel_forwarded_def Let_def ac_simps)
  with False assms(3,4) show ?thesis by (auto simp: tunnel_iph_def tunnel_forwarded_def Let_def)
qed

text \<open>The frame of a packet whose filter inserts a program.\<close>

lemma tunnel_tx_frame:
  assumes "0 \<le> n" "filter_inserts is args r (tunnel_tx_filter flt)" "length (tn_hwaddr cfg) = 6"
    and "len = unat (ntohs (load16 r 6))" "p = 24 + (if args then 16 else 0)" "p + 2 * length is + len \<le> TUNNEL_BUFSIZE"
    and "mac = ae_eth_addr (tn_arp cfg (unat (ntohl (load32 r 20) AND ARPMASK)))" "length mac = 6"
  shows "\<exists>s. tunnel_tx cfg flt n r = Inr (s, p + 2 * length is + len) \<and> (\<forall>k<6. s k = mac ! k) \<and> load16 s 12 = htons AP4_ETHER_TYPE_AP4
    \<and> load32 s 14 = htonl ACTIVEP4SIG \<and> program_at s p is \<and> (\<forall>k<len. s (p + 2 * length is + k) = r (4 + k))"
proof -
  let ?e = "store16 12 (htons AP4_ETHER_TYPE_AP4) (store_bytes 0 mac (store_bytes 6 (tn_hwaddr cfg) (\<lambda>_. 0)))"
  obtain s' where s': "tunnel_tx_filter flt r ?e = (p - 14 + 2 * length is, r, s')" "\<And>k. k < 14 \<Longrightarrow> s' k = ?e k"
    "load32 s' 14 = htonl ACTIVEP4SIG" "program_at s' p is"
    using assms(2) unfolding filter_inserts_def assms(5) by (fastforce split: if_splits)
  let ?q = "p + 2 * length is"
  let ?s = "store_bytes ?q (load_bytes r 4 len) s'"
  have p: "24 \<le> p" "14 + (p - 14 + 2 * length is) = ?q" "14 + len + (p - 14 + 2 * length is) = ?q + len" using assms(5) by simp_all
  have "tunnel_tx cfg flt n r = Inr (?s, ?q + len)"
    using assms(1,4,6) s'(1) p unfolding assms(7) by (simp add: tunnel_tx_def Let_def)
  moreover have below: "?s k = s' k" if "k < ?q" for k using that by (simp add: store_bytes_def)
  moreover have "?s k = mac ! k" if "k < 6" for k
    using that below [of k] s'(2) [of k] p assms(8) by (simp add: store16_def store_bytes_def)
  moreover have "load16 ?s 12 = htons AP4_ETHER_TYPE_AP4"
  proof -
    have "load16 ?s 12 = load16 ?e 12" using below s'(2) p by (intro load16_shift) simp
    then show ?thesis by (simp add: load16_store16)
  qed
  moreover have "load32 ?s 14 = htonl ACTIVEP4SIG" using s'(3) p by (simp add: load32_store_bytes_other)
  moreover have "program_at ?s p is" using s'(4) below by (simp add: program_at_def)
  moreover have "?s (?q + k) = r (4 + k)" if "k < len" for k using that by (simp add: store_bytes_in) (simp add: load_bytes_def)
  ultimately show ?thesis by blast
qed

text \<open>
  C38: through the tunnel.  The ARP cache of the sender is read from the system's table.  A packet of the
  TUN device for which the filter inserts a complete active program leaves in a frame; whatever the
  network does with arguments and active header, and whether or not it removes the executed
  program, the host that has the hardware address of the last entry for the last byte of the
  destination, and is in the destination's network, relays to its own TUN device exactly the packet
  that was sent, provided its receive filter leaves the packet alone.
\<close>

theorem tunnel_roundtrip:
  assumes "0 \<le> n" "filter_inserts is args r (tunnel_tx_filter flt)" "complete_program is" "length (tn_hwaddr cfg) = 6"
    and "len = unat (ntohs (load16 r 6))" "20 \<le> len" "40 + 2 * length is + len \<le> TUNNEL_BUFSIZE"
    and "\<forall>e\<in>set es. arp_line_ok e" "arp_device dev" "get_arp_cache stale (Some (arp_table es)) cache dev = Inr (tn_arp cfg, num_entries)"
    and "find (\<lambda>e. al_dev e = dev \<and> arp_index (al_addr e) = arp_index (load32 r 20)) (rev es) = Some e" "tn_hwaddr cfg' = al_mac e"
    and "(load32 r 20 AND TUN_NETMASK) = (tn_ipv4addr cfg' AND TUN_NETMASK)"
    and "eof_finds eof" "\<And>iph b k. iph \<le> k \<Longrightarrow> tunnel_rx_filter flt' iph 14 b k = b k"
  shows "\<exists>s m. tunnel_tx cfg flt n r = Inr (s, m)
    \<and> (\<forall>f n'. tunnel_forwarded (length is) args s f \<and> 34 < n' \<longrightarrow>
         (\<exists>out. tunnel_rx cfg' flt' eof n' f = Inr (Some (out, len)) \<and> (\<forall>k<len. out k = r (4 + k))))"
proof -
  define p where "p = 24 + (if args then 16 else 0 :: nat)"
  define q where "q = p + 2 * length is"
  have p40: "p \<le> 40" by (simp add: p_def)
  have "tn_arp cfg = (\<lambda>i. case find (\<lambda>e. al_dev e = dev \<and> arp_index (al_addr e) = i) (rev es) of
      None \<Rightarrow> cache i | Some e \<Rightarrow> \<lparr>ae_ip_addr = al_addr e, ae_eth_addr = al_mac e\<rparr>)"
    using assms(10) get_arp_cache_spec [OF assms(8,9), of stale cache] by simp
  then have mac: "tn_hwaddr cfg' = ae_eth_addr (tn_arp cfg (unat (ntohl (load32 r 20) AND ARPMASK)))"
    using assms(11,12) by (simp add: arp_index_def [symmetric])
  have "e \<in> set es" using assms(11) by (metis find_Some_iff length_rev nth_mem set_rev)
  then have mac6: "length (tn_hwaddr cfg') = 6" using assms(8,12) by (simp add: arp_line_ok_def)
  obtain s where s: "tunnel_tx cfg flt n r = Inr (s, q + len)" "\<And>k. k < 6 \<Longrightarrow> s k = tn_hwaddr cfg' ! k"
    "load16 s 12 = htons AP4_ETHER_TYPE_AP4" "load32 s 14 = htonl ACTIVEP4SIG" "program_at s p is"
    "\<And>k. k < len \<Longrightarrow> s (q + k) = r (4 + k)"
    using tunnel_tx_frame [OF assms(1,2,4,5) p_def _ mac mac6] assms(7) p40 unfolding q_def by auto
  have "\<exists>out. tunnel_rx cfg' flt' eof n' f = Inr (Some (out, len)) \<and> (\<forall>k<len. out k = r (4 + k))"
    if f: "tunnel_forwarded (length is) args s f" and "34 < n'" for f n'
  proof -
    obtain iph where iph: "tunnel_iph eof f = Inr iph" "iph \<le> q" "\<And>k. f (iph + k) = s (q + k)"
      using tunnel_iph_forwarded [OF assms(14,3) f p_def s(5)] unfolding q_def by auto
    have f18: "f k = s k" if "k < 18" for k using f that by (simp add: tunnel_forwarded_def)
    let ?b = "tunnel_rx_filter flt' iph 14 f"
    have b: "?b (iph + k) = r (4 + k)" if "k < len" for k using assms(15) [of iph "iph + k"] iph(3) s(6) that by simp
    have "load16 ?b (iph + 2) = load16 r 6" using b [of 2] b [of 3] assms(6) by (simp add: load16_def numeral_3_eq_3)
    moreover have "load16 f 12 = load16 s 12" "load32 f 14 = load32 s 14" "load32 f (iph + 16) = load32 r 20"
      using f18 iph(3) s(6) assms(6) by (intro load16_shift load_shift; simp add: add.assoc)+
    moreover have "hwaddr_equals f (\<lambda>k. tn_hwaddr cfg' ! k)" using f18 s(2) by (simp add: hwaddr_equals_def)
    moreover have "iph + len \<le> TUNNEL_BUFSIZE" using iph(2) assms(7) p40 by (simp add: q_def)
    ultimately have "tunnel_rx cfg' flt' eof n' f = Inr (Some (store_bytes 0 (load_bytes ?b iph len) (\<lambda>_. 0), len))"
      using s(3,4) iph(1) assms(5,6,13) \<open>34 < n'\<close> by (simp add: tunnel_rx_def is_activep4_def Let_def)
    moreover have "store_bytes 0 (load_bytes ?b iph len) (\<lambda>_. 0) k = r (4 + k)" if "k < len" for k
      using b [OF that] that by (simp add: store_bytes_def load_bytes_def)
    ultimately show ?thesis by blast
  qed
  with s(1) show ?thesis by blast
qed

text \<open>A UDP packet of 28 bytes, a filter that inserts the empty program, and the frame received as it was sent.\<close>

definition demo_tun_filters :: tunnel_filters where
  "demo_tun_filters = (let tx = (\<lambda>iph l4 payload pos r s. (12, r, store_bytes 24 [0, 0] (store16 18 0 (store32 14 (htonl ACTIVEP4SIG) s))));
     rx = (\<lambda>iph l4 ap4ih payload r. r) in \<lparr>tf_tcp_tx = tx, tf_udp_tx = tx, tf_tcp_rx = rx, tf_udp_rx = rx\<rparr>)"

definition demo_tun_packet :: buffer where
  "demo_tun_packet = (\<lambda>_. 0)(4 := 0x45, 7 := 28, 13 := IPPROTO_UDP, 20 := 10, 23 := 1)"

definition demo_tun_cfg :: "u8 list \<Rightarrow> tunnel_cfg" where
  "demo_tun_cfg hwaddr = \<lparr>tn_hwaddr = hwaddr, tn_ipv4addr = al_addr (demo_arp 1 ''eth0''),
     tn_arp = (case get_arp_cache \<lparr>ae_ip_addr = 0, ae_eth_addr = []\<rparr> (Some (arp_table [demo_arp 1 ''eth0''])) (\<lambda>_. \<lparr>ae_ip_addr = 0, ae_eth_addr = []\<rparr>) ''eth0'' of
       Inl _ \<Rightarrow> (\<lambda>_. \<lparr>ae_ip_addr = 0, ae_eth_addr = []\<rparr>) | Inr (cache, _) \<Rightarrow> cache)\<rparr>"

lemma demo_tun_inserts: "filter_inserts [\<lparr>instr_flags = 0, instr_opcode = 0\<rparr>] False demo_tun_packet (tunnel_tx_filter demo_tun_filters)"
proof -
  have "\<exists>s'. tunnel_tx_filter demo_tun_filters demo_tun_packet s = (12, demo_tun_packet, s') \<and> (\<forall>k<14. s' k = s k)
    \<and> load32 s' 14 = htonl ACTIVEP4SIG \<and> load16 s' 18 = 0 \<and> program_at s' 24 [\<lparr>instr_flags = 0, instr_opcode = 0\<rparr>]" for s
  proof (intro exI [of _ "store_bytes 24 [0, 0] (store16 18 0 (store32 14 (htonl ACTIVEP4SIG) s))"] conjI)
    show "tunnel_tx_filter demo_tun_filters demo_tun_packet s = (12, demo_tun_packet, store_bytes 24 [0, 0] (store16 18 0 (store32 14 (htonl ACTIVEP4SIG) s)))"
      by (simp add: tunnel_tx_filter_def demo_tun_filters_def demo_tun_packet_def load8_def Let_def)
  qed (simp_all add: buffer_simps store_other program_at_def, simp_all add: store_bytes_def)
  then show ?thesis by (fastforce simp: filter_inserts_def htons_def)
qed

theorem tunnel_roundtrip_witness:
  "\<exists>s m out. tunnel_tx (demo_tun_cfg [1, 2, 3, 4, 5, 6]) demo_tun_filters 32 demo_tun_packet = Inr (s, m)
    \<and> tunnel_rx (demo_tun_cfg (al_mac (demo_arp 1 ''eth0''))) demo_tun_filters (\<lambda>b p. get_active_eof b p 4) (int 54) s = Inr (Some (out, 28)) \<and> out 9 = 17"
proof -
  let ?A = "demo_tun_cfg [1, 2, 3, 4, 5, 6]" and ?B = "demo_tun_cfg (al_mac (demo_arp 1 ''eth0''))" and ?e = "demo_arp 1 ''eth0''"
  let ?stale = "\<lparr>ae_ip_addr = 0, ae_eth_addr = []\<rparr>"
  have len: "unat (ntohs (load16 demo_tun_packet 6)) = 28" by (simp add: demo_tun_packet_def load16_def htons_def)
  have dst: "load32 demo_tun_packet 20 = al_addr ?e"
    by (simp add: demo_tun_packet_def demo_arp_def al_addr_def ipv4_of_def load32_def store_bytes_def)
  have ok: "arp_line_ok ?e" by (rule demo_arp_ok) simp_all
  have arp: "\<exists>num. get_arp_cache ?stale (Some (arp_table [?e])) (\<lambda>_. ?stale) ''eth0'' = Inr (tn_arp ?A, num)"
    using get_arp_cache_spec [of "[?e]" "''eth0''" ?stale "\<lambda>_. ?stale"] ok demo_arp_device by (simp add: demo_tun_cfg_def)
  have rx: "tunnel_rx_filter demo_tun_filters iph 14 b = b" for iph b
    by (simp add: tunnel_rx_filter_def demo_tun_filters_def Let_def)
  have dev: "al_dev ?e = ''eth0''" "tn_hwaddr ?B = al_mac ?e" "length (tn_hwaddr ?A) = 6" "tn_ipv4addr ?B = al_addr ?e"
    by (simp_all add: demo_arp_def demo_tun_cfg_def)
  have "\<exists>s m. tunnel_tx ?A demo_tun_filters 32 demo_tun_packet = Inr (s, m)
    \<and> (\<forall>f n'. tunnel_forwarded 1 False s f \<and> 34 < n' \<longrightarrow> (\<exists>out. tunnel_rx ?B demo_tun_filters (\<lambda>b p. get_active_eof b p 4) n' f
         = Inr (Some (out, 28)) \<and> (\<forall>k<28. out k = demo_tun_packet (4 + k))))"
    using tunnel_roundtrip [OF _ demo_tun_inserts, of 32 ?A 28 "[?e]" "''eth0''" ?stale "\<lambda>_. ?stale" _ ?e ?B "\<lambda>b p. get_active_eof b p 4" demo_tun_filters]
      arp len rx ok dst dev demo_arp_device eof_finds_netutils [of 4] by (auto simp: complete_program_def)
  then obtain s m where s: "tunnel_tx ?A demo_tun_filters 32 demo_tun_packet = Inr (s, m)"
    "\<And>f. tunnel_forwarded 1 False s f \<Longrightarrow> \<exists>out. tunnel_rx ?B demo_tun_filters (\<lambda>b p. get_active_eof b p 4) (int 54) f
         = Inr (Some (out, 28)) \<and> (\<forall>k<28. out k = demo_tun_packet (4 + k))"
    by fastforce
  have "load16 s 18 = 0"
    using s(1) by (auto simp: tunnel_tx_def Let_def tunnel_tx_filter_def demo_tun_filters_def demo_tun_packet_def load8_def
      buffer_simps split: if_splits)
  then have "tunnel_forwarded 1 False s s" by (simp add: tunnel_forwarded_def htons_def)
  with s show ?thesis by (fastforce simp: demo_tun_packet_def)
qed

text \<open>
  A packet that is neither TCP nor UDP is lost in the tunnel.  It is sent without an active header
  but with the Ethernet type of active packets; no receiving tunnel relays it, and no other host
  takes the frame for an IPv4 packet.
\<close>

theorem tunnel_loses_plain:
  assumes "0 \<le> n" "load8 r 13 \<noteq> IPPROTO_TCP" "load8 r 13 \<noteq> IPPROTO_UDP" "drop_bit 4 (load8 r 4) = 4"
    and "len = unat (ntohs (load16 r 6))" "20 \<le> len" "14 + len \<le> TUNNEL_BUFSIZE"
  shows "\<exists>s. tunnel_tx cfg flt n r = Inr (s, 14 + len) \<and> (\<forall>k<len. s (14 + k) = r (4 + k))
    \<and> ntohs (load16 s 12) = AP4_ETHER_TYPE_AP4 \<and> tunnel_rx cfg' flt' eof (int (14 + len)) s = Inr None"
proof -
  let ?e = "store16 12 (htons AP4_ETHER_TYPE_AP4) (store_bytes 0 (ae_eth_addr (tn_arp cfg (unat (ntohl (load32 r 20) AND ARPMASK))))
    (store_bytes 6 (tn_hwaddr cfg) (\<lambda>_. 0)))"
  let ?s = "store_bytes 14 (load_bytes r 4 len) ?e"
  have tx: "tunnel_tx cfg flt n r = Inr (?s, 14 + len)"
    using assms by (simp add: tunnel_tx_def tunnel_tx_filter_def Let_def)
  have b: "?s (14 + k) = r (4 + k)" if "k < len" for k using that by (simp add: store_bytes_in) (simp add: load_bytes_def)
  have "load16 ?s 12 = htons AP4_ETHER_TYPE_AP4" by (simp add: buffer_simps)
  moreover have "\<not> is_activep4 ?s 14"
  proof
    assume "is_activep4 ?s 14"
    then have "load32 ?s 14 = htonl ACTIVEP4SIG" by (metis htonl_htonl is_activep4_def)
    then have "ucast (load32 ?s 14) = (0x12 :: u8)" by (simp add: htonl_def)
    moreover have "ucast (load32 ?s 14) = ?s 14" by (rule bit_word_eqI) (auto simp: load32_def bit_simps)
    ultimately show False using b [of 0] assms(4,6) by (simp add: load8_def)
  qed
  then have "tunnel_rx cfg' flt' eof m ?s = Inr None" for m by (simp add: tunnel_rx_def)
  ultimately show ?thesis using tx b by auto
qed

theorem tunnel_loses_plain_witness:
  "\<exists>s. tunnel_tx (demo_tun_cfg [1, 2, 3, 4, 5, 6]) demo_tun_filters 32 (demo_tun_packet(13 := 1)) = Inr (s, 42)
    \<and> tunnel_rx (demo_tun_cfg [1, 2, 3, 4, 5, 6]) demo_tun_filters (\<lambda>b p. None) (int 42) s = Inr None"
proof -
  let ?r = "demo_tun_packet(13 := 1)"
  have "unat (ntohs (load16 ?r 6)) = 28" "load8 ?r 13 = 1" "drop_bit 4 (load8 ?r 4) = 4"
    by (simp_all add: demo_tun_packet_def load16_def load8_def htons_def)
  then show ?thesis
    using tunnel_loses_plain [of 32 ?r 28 "demo_tun_cfg [1, 2, 3, 4, 5, 6]" demo_tun_filters "demo_tun_cfg [1, 2, 3, 4, 5, 6]" demo_tun_filters "\<lambda>b p. None"] by auto
qed

end
