(* ===== verification/AP4_Pktgen.thy ===== *)
theory AP4_Pktgen
  imports AP4_Tunnel AP4_Queue
begin

text \<open>
  The packet generator of hosts without DPDK (\<open>common/activep4_pktgen.h\<close>): active programs of a queue are
  sent in frames, and active frames of other hosts are handed to the application.  Its queue is in
  \<open>AP4_Queue\<close>.  As in the tunnel, \<open>get_active_eof\<close> is called with one argument and is a parameter;
  results of system calls are arguments.
\<close>

abbreviation (input) IPPROTO_ICMP :: u8 where "IPPROTO_ICMP \<equiv> 1"

subsection \<open>Model\<close>

record active_program_t =
  ap_ih :: activep4_ih
  ap_data :: activep4_data_t
  ap_code :: "activep4_instr arr"
  ap_codelen :: int
  ap_malloc :: activep4_malloc_req_t
  ap_alloc :: activep4_malloc_res_t

definition zero_program :: active_program_t where
  "zero_program = \<lparr>ap_ih = \<lparr>ih_SIG = 0, ih_flags = 0, ih_fid = 0, ih_seq = 0\<rparr>, ap_data = (\<lambda>_. 0),
     ap_code = (\<lambda>_. \<lparr>instr_flags = 0, instr_opcode = 0\<rparr>), ap_codelen = 0,
     ap_malloc = \<lparr>req_proglen = 0, req_iglim = 0, req_mem = (\<lambda>_. 0), req_dem = (\<lambda>_. 0)\<rparr>,
     ap_alloc = \<lparr>mem_range = (\<lambda>_. \<lparr>blk_start = 0, blk_end = 0\<rparr>)\<rparr>\<rparr>"

text \<open>
  The globals: own hardware address, hardware address of the peer, both IPv4 addresses, next
  identifier.  \<open>active_rx_tx\<close> gets the hardware address of the peer and the own IPv4 address as arguments;
  for it these are the fields of the record.
\<close>

record pktgen =
  pg_hwaddr :: "u8 list"
  pg_eth_dst :: "u8 list"
  pg_ipv4_src :: u32
  pg_ipv4_dst :: u32
  pg_ip_id :: u16

text \<open>\<open>memcpy\<close> of the packed structs.\<close>

definition put_raw_ih :: "nat \<Rightarrow> activep4_ih \<Rightarrow> buffer \<Rightarrow> buffer" where
  "put_raw_ih pos ih b = store16 (pos + 8) (ih_seq ih) (store16 (pos + 6) (ih_fid ih) (store16 (pos + 4) (ih_flags ih) (store32 pos (ih_SIG ih) b)))"

definition get_raw_ih :: "nat \<Rightarrow> buffer \<Rightarrow> activep4_ih" where
  "get_raw_ih pos b = \<lparr>ih_SIG = load32 b pos, ih_flags = load16 b (pos + 4), ih_fid = load16 b (pos + 6), ih_seq = load16 b (pos + 8)\<rparr>"

definition put_raw_malloc_req :: "nat \<Rightarrow> activep4_malloc_req_t \<Rightarrow> buffer \<Rightarrow> buffer" where
  "put_raw_malloc_req pos req b =
     store_bytes (pos + 11) (map (req_dem req) [0..<MAX_MEMACCESS]) (store_bytes (pos + 3) (map (req_mem req) [0..<MAX_MEMACCESS])
       (store8 (pos + 2) (req_iglim req) (store16 pos (req_proglen req) b)))"

definition put_data :: "nat \<Rightarrow> activep4_data_t \<Rightarrow> buffer \<Rightarrow> buffer" where
  "put_data pos d b = store32 (pos + 12) (d 3) (store32 (pos + 8) (d 2) (store32 (pos + 4) (d 1) (store32 pos (d 0) b)))"

definition code_of :: "active_program_t \<Rightarrow> activep4_instr list" where
  "code_of program = map (ap_code program) [0..<nat (ap_codelen program)]"

text \<open>The active headers of a program, and the position behind them.\<close>

definition put_program :: "active_program_t \<Rightarrow> buffer \<Rightarrow> nat \<times> buffer" where
  "put_program program b =
     (let flags = ntohs (ih_flags (ap_ih program));
          b = put_raw_ih sizeof_eth (ap_ih program) b;
          pptr = sizeof_eth + sizeof_ih;
          (pptr, b) = (if (flags AND AP4FLAGMASK_FLAG_REQALLOC) > 0 then (pptr + sizeof_malloc_req, put_raw_malloc_req pptr (ap_malloc program) b) else (pptr, b));
          (pptr, b) = (if (flags AND AP4FLAGMASK_OPT_ARGS) > 0 then (pptr + sizeof_data, put_data pptr (ap_data program) b) else (pptr, b))
      in (pptr + sizeof_instr * length (code_of program), store_bytes pptr (concat (map instr_bytes (code_of program))) b))"

text \<open>
  The frame of a program.  The checksum is taken over \<open>tot_len\<close> bytes, which at this point is in network
  byte order; the identifier is \<open>htonl\<close> of a 16-bit number, cut to 16 bits.
\<close>

definition pktgen_frame :: "pktgen \<Rightarrow> active_program_t \<Rightarrow> (buffer \<times> nat) c_result" where
  "pktgen_frame g program =
     (if int MAXPROGLEN < ap_codelen program then Inl OutOfBounds
      else let b = store16 12 (htons AP4_ETHER_TYPE_AP4) (store_bytes 0 (pg_eth_dst g) (store_bytes 6 (pg_hwaddr g) (\<lambda>_. 0)));
               (iph, b) = put_program program b;
               b = put_ipv4_header iph (of_nat sizeof_ipv4) (ucast (htonl (ucast (pg_ip_id g)))) IPPROTO_ICMP (pg_ipv4_src g) (pg_ipv4_dst g) b;
               b = store16 (iph + 10) (compute_checksum b iph (unat (load16 b (iph + 2)))) b
           in Inr (b, iph + unat (ntohs (load16 b (iph + 2)))))"

definition active_tx :: "active_program_t \<Rightarrow> pktgen \<times> stats_t \<Rightarrow> ((buffer \<times> nat) \<times> pktgen \<times> stats_t) c_result" where
  "active_tx program s = (case s of (g, stats) \<Rightarrow>
     bind_result (pktgen_frame g program) (\<lambda>f. Inr (f, g\<lparr>pg_ip_id := pg_ip_id g + 1\<rparr>, add_count 1 stats)))"

text \<open>The positions found in a received frame.\<close>

record pktgen_headers =
  ph_iph :: nat
  ph_ap4ih :: nat
  ph_ap4data :: "nat option"
  ph_ap4alloc :: "nat option"

definition pktgen_parse :: "pktgen \<Rightarrow> (buffer \<Rightarrow> nat \<Rightarrow> nat option) \<Rightarrow> buffer \<Rightarrow> pktgen_headers option c_result" where
  "pktgen_parse g eof recvbuf =
     (if hwaddr_equals recvbuf (\<lambda>k. pg_eth_dst g ! k) \<or> ntohs (load16 recvbuf 12) \<noteq> AP4_ETHER_TYPE_AP4
        \<or> \<not> is_activep4 recvbuf sizeof_eth then Inr None
      else let ap4_flags = ntohs (load16 recvbuf 18);
               pptr = sizeof_eth + sizeof_ih;
               (ap4alloc, pptr) = (if (ap4_flags AND AP4FLAGMASK_FLAG_ALLOCATED) \<noteq> 0 then (Some pptr, pptr + sizeof_malloc_res) else (None, pptr));
               (ap4data, pptr) = (if (ap4_flags AND AP4FLAGMASK_OPT_ARGS) \<noteq> 0 then (Some pptr, pptr + sizeof_data) else (None, pptr)) in
        bind_result (if (ap4_flags AND AP4FLAGMASK_FLAG_EOE) = 0
                     then (case eof recvbuf pptr of None \<Rightarrow> Inl NoReturn | Some ap4_offset \<Rightarrow> Inr (pptr + ap4_offset)) else Inr pptr)
          (\<lambda>iph. Inr (Some \<lparr>ph_iph = iph, ph_ap4ih = sizeof_eth, ph_ap4data = ap4data, ph_ap4alloc = ap4alloc\<rparr>)))"

text \<open>\<open>active_rx\<close>: \<open>timeout\<close> is the error number of a \<open>read\<close> that would block.\<close>

definition active_rx :: "pktgen \<Rightarrow> (buffer \<Rightarrow> nat \<Rightarrow> nat option) \<Rightarrow> int option \<Rightarrow> buffer \<Rightarrow> (int \<times> active_program_t) c_result" where
  "active_rx g eof timeout recvbuf =
     (case timeout of
        Some errno \<Rightarrow> Inr (errno, zero_program)
      | None \<Rightarrow> bind_result (pktgen_parse g eof recvbuf) (\<lambda>r. case r of
            None \<Rightarrow> Inr (0, zero_program)
          | Some h \<Rightarrow> Inr (0, zero_program\<lparr>ap_ih := get_raw_ih (ph_ap4ih h) recvbuf\<rparr>)))"

text \<open>
  One round of \<open>active_rx_tx\<close>: the headers handed to \<open>on_active_pkt_recv\<close> and the frame sent, if any.
\<close>

definition active_rx_tx_round ::
  "(buffer \<Rightarrow> nat \<Rightarrow> nat option) \<Rightarrow> int \<Rightarrow> bool \<Rightarrow> buffer option \<Rightarrow> pktgen \<times> active_program_t active_queue_t
    \<Rightarrow> ((pktgen_headers option \<times> (buffer \<times> nat) option) \<times> pktgen \<times> active_program_t active_queue_t) c_result" where
  "active_rx_tx_round eof ret eintr readable s = (case s of (g, queue) \<Rightarrow>
     if ret < 0 then (if eintr then Inr ((None, None), g, queue) else Inl ExitFailure)
     else bind_result (case readable of None \<Rightarrow> Inr None | Some recvbuf \<Rightarrow> pktgen_parse g eof recvbuf) (\<lambda>received.
       if is_active_queue_empty queue then Inr ((received, None), g, queue)
       else case dequeue_program queue of
              (None, _) \<Rightarrow> Inl ExitFailure
            | (Some program, queue) \<Rightarrow> bind_result (pktgen_frame g program)
                (\<lambda>f. Inr ((received, Some f), g\<lparr>pg_ip_id := pg_ip_id g + 1\<rparr>, queue))))"

subsection \<open>The frame of a program\<close>

lemma ident_zero: "(ucast (htonl (ucast (x :: u16))) :: u16) = 0"
  by (rule bit_word_eqI) (auto simp: bit_ucast_iff bit_htonl dest: bit_imp_le_length)

lemma pktgen_frame_ident: "pktgen_frame (g\<lparr>pg_ip_id := x\<rparr>) program = pktgen_frame g program"
  by (simp add: pktgen_frame_def ident_zero)

lemma sum_words_append: "sum_words b pos (n + m) = sum_words b pos n + sum_words b (pos + 2 * n) m"
  by (induction n arbitrary: pos) (simp_all add: add.assoc)

lemma sum_words_zero: "(\<And>k. pos \<le> k \<Longrightarrow> b k = 0) \<Longrightarrow> sum_words b pos n = 0"
  by (induction n arbitrary: pos) (simp_all add: load16_def)

text \<open>The sum over 5120 bytes is the sum of the header, as the buffer behind it is zero.\<close>

lemma checksum_zero_tail:
  assumes "\<And>k. pos + 20 \<le> k \<Longrightarrow> b k = 0"
  shows "compute_checksum b pos 5120 = compute_checksum b pos 20"
proof -
  have "sum_words b pos (10 + 2550) = sum_words b pos 10 + sum_words b (pos + 2 * 10) 2550" by (rule sum_words_append)
  then have "sum_words b pos 2560 = sum_words b pos 10" using sum_words_zero [of "pos + 20" b 2550] assms by simp
  then show ?thesis by (simp add: compute_checksum_def)
qed

definition code_pos :: "active_program_t \<Rightarrow> nat" where
  "code_pos program = 24 + (if (ntohs (ih_flags (ap_ih program)) AND AP4FLAGMASK_OPT_ARGS) \<noteq> 0 then 16 else 0)"

lemma put_raw_ih_simps:
  "get_raw_ih pos (put_raw_ih pos ih b) = ih" "k < pos \<or> pos + 10 \<le> k \<Longrightarrow> put_raw_ih pos ih b k = b k"
  by (simp_all add: get_raw_ih_def put_raw_ih_def buffer_simps) (auto simp: store_other)

lemma put_data_simps:
  "load32 (put_data pos d b) (pos + 4 * i) = d i" if "i < 4" for i
  using that by (auto simp: put_data_def buffer_simps numeral_eq_Suc less_Suc_eq)

lemma put_data_other: "k < pos \<or> pos + 16 \<le> k \<Longrightarrow> put_data pos d b k = b k"
  by (auto simp: put_data_def store_other)

lemma get_raw_ih_local:
  assumes "\<And>k. k < 10 \<Longrightarrow> b (pos + k) = c (pos + k)"
  shows "get_raw_ih pos b = get_raw_ih pos c"
proof -
  have "load32 b pos = load32 c pos" using assms by (intro load_shift) simp
  moreover have "load16 b (pos + i) = load16 c (pos + i)" if "i \<le> 8" for i
    using assms [of "i + _"] that by (intro load16_shift) (simp add: add.assoc)
  ultimately show ?thesis by (simp add: get_raw_ih_def)
qed

text \<open>The active headers of a program that is no allocation request.\<close>

lemma put_program_spec:
  assumes "(ntohs (ih_flags (ap_ih program)) AND AP4FLAGMASK_FLAG_REQALLOC) = 0" "put_program program b = (iph, b')"
  shows "iph = code_pos program + 2 * length (code_of program)" "get_raw_ih 14 b' = ap_ih program" "program_at b' (code_pos program) (code_of program)"
    "(ntohs (ih_flags (ap_ih program)) AND AP4FLAGMASK_OPT_ARGS) \<noteq> 0 \<Longrightarrow> i < 4 \<Longrightarrow> load32 b' (24 + 4 * i) = ap_data program i"
    "k < 14 \<or> iph \<le> k \<Longrightarrow> b' k = b k"
proof -
  let ?h = "put_raw_ih 14 (ap_ih program) b" and ?p = "code_pos program" and ?cs = "concat (map instr_bytes (code_of program))"
  define d where "d = (if (ntohs (ih_flags (ap_ih program)) AND AP4FLAGMASK_OPT_ARGS) \<noteq> 0 then put_data 24 (ap_data program) ?h else ?h)"
  have r: "iph = ?p + 2 * length (code_of program)" "b' = store_bytes ?p ?cs d"
    using assms unfolding d_def by (auto simp: put_program_def code_pos_def Let_def word_gt_0)
  have p: "24 \<le> ?p" "?p = (if (ntohs (ih_flags (ap_ih program)) AND AP4FLAGMASK_OPT_ARGS) \<noteq> 0 then 40 else 24)" by (simp_all add: code_pos_def)
  have d: "d k = ?h k" if "k < 24 \<or> ?p \<le> k" for k using that p by (auto simp: d_def put_data_other)
  show "iph = ?p + 2 * length (code_of program)" by (fact r)
  show "program_at b' ?p (code_of program)" unfolding r by (rule program_at_store_bytes)
  have "get_raw_ih 14 b' = get_raw_ih 14 ?h" using p d by (intro get_raw_ih_local) (simp add: r store_bytes_def)
  then show "get_raw_ih 14 b' = ap_ih program" by (simp add: put_raw_ih_simps)
  show "load32 b' (24 + 4 * i) = ap_data program i" if "(ntohs (ih_flags (ap_ih program)) AND AP4FLAGMASK_OPT_ARGS) \<noteq> 0" "i < 4"
    using that p put_data_simps [of i 24] by (simp add: r d_def load32_store_bytes_other)
  show "b' k = b k" if "k < 14 \<or> iph \<le> k"
    using that p d [of k] by (auto simp: r store_bytes_def put_raw_ih_simps)
qed

lemma pktgen_frame_spec:
  assumes "ap_codelen program \<le> int MAXPROGLEN" "(ntohs (ih_flags (ap_ih program)) AND AP4FLAGMASK_FLAG_REQALLOC) = 0"
    and "length (pg_eth_dst g) = 6" "length (pg_hwaddr g) = 6" "iph = code_pos program + 2 * length (code_of program)"
  shows "\<exists>b. pktgen_frame g program = Inr (b, iph + 20) \<and> (\<forall>k<6. b k = pg_eth_dst g ! k) \<and> load16 b 12 = htons AP4_ETHER_TYPE_AP4
    \<and> get_raw_ih 14 b = ap_ih program \<and> program_at b (code_pos program) (code_of program)
    \<and> ((ntohs (ih_flags (ap_ih program)) AND AP4FLAGMASK_OPT_ARGS) \<noteq> 0 \<longrightarrow> (\<forall>i<4. load32 b (24 + 4 * i) = ap_data program i))
    \<and> compute_checksum b iph 20 = 0 \<and> ntohs (load16 b (iph + 2)) = 20 \<and> load32 b (iph + 12) = pg_ipv4_src g \<and> load32 b (iph + 16) = pg_ipv4_dst g"
proof -
  let ?e = "store16 12 (htons AP4_ETHER_TYPE_AP4) (store_bytes 0 (pg_eth_dst g) (store_bytes 6 (pg_hwaddr g) (\<lambda>_. 0)))"
  obtain a where a: "put_program program ?e = (iph, a)"
    using put_program_spec(1) [OF assms(2)] assms(5) by (metis surj_pair)
  note spec = put_program_spec [OF assms(2) a]
  let ?i = "put_ipv4_header iph 20 0 IPPROTO_ICMP (pg_ipv4_src g) (pg_ipv4_dst g) a"
  let ?b = "store16 (iph + 10) (compute_checksum ?i iph 20) ?i"
  have e: "?e k = 0" if "14 \<le> k" for k using that assms(3,4) by (simp add: store16_def store_bytes_def)
  have iph: "24 \<le> iph" "code_pos program \<le> iph" using assms(5) by (simp_all add: code_pos_def)
  have tot: "load16 ?i (iph + 2) = htons 20" by (simp add: put_ipv4_header_def buffer_simps)
  have "compute_checksum ?i iph (unat (htons 20)) = compute_checksum ?i iph 20"
  proof -
    have "unat (htons 20) = 5120" by (simp add: htons_def)
    then show ?thesis using checksum_zero_tail [of iph ?i] spec(5) e iph by (simp add: put_ipv4_header_other)
  qed
  moreover have "load16 ?b (iph + 2) = htons 20" using tot by (simp add: load16_store16_other)
  ultimately have frame: "pktgen_frame g program = Inr (?b, iph + 20)"
    using assms(1) a tot by (simp add: pktgen_frame_def Let_def ident_zero)
  have below: "?b k = a k" if "k < iph" for k using that by (simp add: store_other put_ipv4_header_other)
  have "?b k = pg_eth_dst g ! k" if "k < 6" for k
    using that below [of k] spec(5) [of k] iph assms(3) by (simp add: store16_def store_bytes_def)
  moreover have "load16 ?b 12 = load16 ?e 12" using below spec(5) iph by (intro load16_shift) simp
  moreover have "get_raw_ih 14 ?b = ap_ih program"
    using below iph spec(2) get_raw_ih_local [of ?b 14 a] by simp
  moreover have "program_at ?b (code_pos program) (code_of program)" using spec(3) below assms(5) by (simp add: program_at_def)
  moreover have "load32 ?b (24 + 4 * i) = ap_data program i"
    if "(ntohs (ih_flags (ap_ih program)) AND AP4FLAGMASK_OPT_ARGS) \<noteq> 0" "i < 4" for i
  proof -
    have "24 + 4 * i + 4 \<le> iph" using that assms(5) by (simp add: code_pos_def)
    then have "load32 ?b (24 + 4 * i) = load32 a (24 + 4 * i)" using below by (intro load_shift) simp
    then show ?thesis using spec(4) that by simp
  qed
  moreover have "compute_checksum ?b iph 20 = 0" by (rule ipv4_header_verifies) (rule refl)
  moreover have "load32 ?b (iph + 12) = pg_ipv4_src g" "load32 ?b (iph + 16) = pg_ipv4_dst g"
    by (simp_all add: put_ipv4_header_def buffer_simps)
  ultimately show ?thesis using frame \<open>load16 ?b (iph + 2) = htons 20\<close> by (intro exI [of _ ?b]) (simp add: load16_store16)
qed

lemma hwaddr_equals_list: "length a = 6 \<Longrightarrow> length c = 6 \<Longrightarrow> \<forall>k<6. b k = a ! k \<Longrightarrow> hwaddr_equals b (\<lambda>k. c ! k) \<Longrightarrow> a = c"
  by (intro nth_equalityI) (auto simp: hwaddr_equals_def numeral_eq_Suc less_Suc_eq)

text \<open>
  C40: from one generator to another.  The frame of a program that is neither a request for memory nor an
  answer to one is understood by every generator that does not itself send to the frame's
  destination: it finds header, arguments and IPv4 packet where they were put, \<open>active_rx\<close> returns the
  header that was sent, and the IPv4 header behind the program verifies.  The program must be
  complete, or absent and marked as executed.
\<close>

theorem pktgen_roundtrip:
  assumes "ap_codelen program \<le> int MAXPROGLEN" "length (pg_eth_dst g) = 6" "length (pg_hwaddr g) = 6" "eof_finds eof"
    and "flags = ntohs (ih_flags (ap_ih program))" "ih_SIG (ap_ih program) = htonl ACTIVEP4SIG"
    and "(flags AND AP4FLAGMASK_FLAG_REQALLOC) = 0" "(flags AND AP4FLAGMASK_FLAG_ALLOCATED) = 0"
    and "if (flags AND AP4FLAGMASK_FLAG_EOE) = 0 then complete_program (code_of program) else code_of program = []"
    and "length (pg_eth_dst g') = 6" "pg_eth_dst g' \<noteq> pg_eth_dst g"
  shows "\<exists>b n h. pktgen_frame g program = Inr (b, n) \<and> pktgen_parse g' eof b = Inr (Some h)
    \<and> active_rx g' eof None b = Inr (0, zero_program\<lparr>ap_ih := ap_ih program\<rparr>)
    \<and> (if (flags AND AP4FLAGMASK_OPT_ARGS) = 0 then ph_ap4data h = None
       else \<exists>p. ph_ap4data h = Some p \<and> (\<forall>i<4. load32 b (p + 4 * i) = ap_data program i))
    \<and> n = ph_iph h + 20 \<and> ntohs (load16 b (ph_iph h + 2)) = 20 \<and> compute_checksum b (ph_iph h) 20 = 0
    \<and> load32 b (ph_iph h + 12) = pg_ipv4_src g \<and> load32 b (ph_iph h + 16) = pg_ipv4_dst g"
proof -
  define iph where "iph = code_pos program + 2 * length (code_of program)"
  note req = assms(7) [unfolded assms(5)]
  obtain b where b: "pktgen_frame g program = Inr (b, iph + 20)" "\<forall>k<6. b k = pg_eth_dst g ! k" "load16 b 12 = htons AP4_ETHER_TYPE_AP4"
    "get_raw_ih 14 b = ap_ih program" "program_at b (code_pos program) (code_of program)"
    "(flags AND AP4FLAGMASK_OPT_ARGS) \<noteq> 0 \<Longrightarrow> \<forall>i<4. load32 b (24 + 4 * i) = ap_data program i"
    "compute_checksum b iph 20 = 0" "ntohs (load16 b (iph + 2)) = 20" "load32 b (iph + 12) = pg_ipv4_src g" "load32 b (iph + 16) = pg_ipv4_dst g"
    using pktgen_frame_spec [OF assms(1) req assms(2,3) iph_def] unfolding assms(5) by auto
  have ih: "load32 b 14 = htonl ACTIVEP4SIG" "ntohs (load16 b 18) = flags"
    using arg_cong [OF b(4), of ih_SIG] arg_cong [OF b(4), of ih_flags] assms(5,6) by (simp_all add: get_raw_ih_def)
  have mac: "\<not> hwaddr_equals b (\<lambda>k. pg_eth_dst g' ! k)" using hwaddr_equals_list [OF assms(2,10) b(2)] assms(11) by auto
  have eof: "(flags AND AP4FLAGMASK_FLAG_EOE) = 0 \<Longrightarrow> eof b (code_pos program) = Some (2 * length (code_of program))"
    "(flags AND AP4FLAGMASK_FLAG_EOE) \<noteq> 0 \<Longrightarrow> code_of program = []"
    using assms(4,9) b(5) by (simp_all add: eof_finds_def)
  let ?h = "\<lparr>ph_iph = iph, ph_ap4ih = 14, ph_ap4data = (if (flags AND AP4FLAGMASK_OPT_ARGS) \<noteq> 0 then Some 24 else None), ph_ap4alloc = None\<rparr>"
  have parse: "pktgen_parse g' eof b = Inr (Some ?h)"
  proof (cases "(flags AND AP4FLAGMASK_OPT_ARGS) = 0")
    case True
    then have "code_pos program = 24" using assms(5) by (simp add: code_pos_def)
    with mac b(3) ih eof assms(8) True show ?thesis by (simp add: pktgen_parse_def is_activep4_def Let_def iph_def)
  next
    case False
    then have "code_pos program = 40" using assms(5) by (simp add: code_pos_def)
    with mac b(3) ih eof assms(8) False show ?thesis by (simp add: pktgen_parse_def is_activep4_def Let_def iph_def)
  qed
  then have "active_rx g' eof None b = Inr (0, zero_program\<lparr>ap_ih := ap_ih program\<rparr>)" using b(4) by (simp add: active_rx_def)
  with parse b show ?thesis by (intro exI [of _ b] exI [of _ "iph + 20"] exI [of _ ?h]) simp
qed

definition demo_active_program :: active_program_t where
  "demo_active_program = zero_program\<lparr>ap_ih := \<lparr>ih_SIG = htonl ACTIVEP4SIG, ih_flags = htons AP4FLAGMASK_OPT_ARGS, ih_fid = 7, ih_seq = 0\<rparr>,
     ap_data := (\<lambda>_. 5), ap_codelen := 1\<rparr>"

definition demo_pktgen :: pktgen where
  "demo_pktgen = \<lparr>pg_hwaddr = [1, 2, 3, 4, 5, 6], pg_eth_dst = [6, 5, 4, 3, 2, 1], pg_ipv4_src = 1, pg_ipv4_dst = 2, pg_ip_id = 0\<rparr>"

lemma demo_active_program_simps:
  "ap_codelen demo_active_program = 1" "complete_program (code_of demo_active_program)"
  "ih_flags (ap_ih demo_active_program) = htons AP4FLAGMASK_OPT_ARGS" "ih_SIG (ap_ih demo_active_program) = htonl ACTIVEP4SIG"
  by (simp_all add: demo_active_program_def zero_program_def code_of_def complete_program_def)

theorem pktgen_roundtrip_witness:
  "\<exists>b n. pktgen_frame demo_pktgen demo_active_program = Inr (b, n)
    \<and> active_rx (demo_pktgen\<lparr>pg_eth_dst := [1, 2, 3, 4, 5, 6]\<rparr>) (\<lambda>b p. get_active_eof b p 4) None b
        = Inr (0, zero_program\<lparr>ap_ih := ap_ih demo_active_program\<rparr>)"
proof -
  have "eof_finds (\<lambda>b p. get_active_eof b p 4)" by (rule eof_finds_netutils) simp_all
  then show ?thesis
    using pktgen_roundtrip [of demo_active_program demo_pktgen "\<lambda>b p. get_active_eof b p 4" AP4FLAGMASK_OPT_ARGS "demo_pktgen\<lparr>pg_eth_dst := [1, 2, 3, 4, 5, 6]\<rparr>"]
      demo_active_program_simps by (auto simp: demo_pktgen_def)
qed

subsection \<open>The loop\<close>

text \<open>The application submits programs while the loop runs; \<open>Round\<close> carries what the system calls return.\<close>

datatype pktgen_event = Submit active_program_t | Round int bool "buffer option"

fun pktgen_run ::
  "(buffer \<Rightarrow> nat \<Rightarrow> nat option) \<Rightarrow> pktgen_event list \<Rightarrow> pktgen \<times> active_program_t active_queue_t
    \<Rightarrow> (active_program_t list \<times> (buffer \<times> nat) list \<times> pktgen \<times> active_program_t active_queue_t) c_result" where
  "pktgen_run eof [] s = Inr ([], [], s)"
| "pktgen_run eof (Submit x # es) (g, queue) = (case enqueue_program queue x of (r, queue) \<Rightarrow>
     bind_result (pktgen_run eof es (g, queue)) (\<lambda>(acc, sent, s). Inr (if r < 0 then acc else x # acc, sent, s)))"
| "pktgen_run eof (Round ret eintr readable # es) s = bind_result (active_rx_tx_round eof ret eintr readable s) (\<lambda>((received, f), s).
     bind_result (pktgen_run eof es s) (\<lambda>(acc, sent, s). Inr (acc, (case f of None \<Rightarrow> sent | Some f \<Rightarrow> f # sent), s)))"

fun pktgen_event_ok :: "pktgen \<Rightarrow> (buffer \<Rightarrow> nat \<Rightarrow> nat option) \<Rightarrow> pktgen_event \<Rightarrow> bool" where
  "pktgen_event_ok g eof (Submit x) \<longleftrightarrow> ap_codelen x \<le> int MAXPROGLEN"
| "pktgen_event_ok g eof (Round ret eintr readable) \<longleftrightarrow> (0 \<le> ret \<or> eintr) \<and> (case readable of None \<Rightarrow> True | Some b \<Rightarrow> is_ok (pktgen_parse g eof b))"

lemma pktgen_parse_ident: "pktgen_parse (g\<lparr>pg_ip_id := x\<rparr>) eof b = pktgen_parse g eof b"
  by (simp add: pktgen_parse_def)

lemma pktgen_event_ok_ident: "pktgen_event_ok (g\<lparr>pg_ip_id := x\<rparr>) eof e = pktgen_event_ok g eof e"
  by (cases e) (simp_all add: pktgen_parse_ident split: option.splits)

lemma pktgen_frame_ok: "ap_codelen x \<le> int MAXPROGLEN \<Longrightarrow> \<exists>f. pktgen_frame g x = Inr f"
  by (auto simp: pktgen_frame_def Let_def split: prod.splits)

text \<open>A round sends the first program of the queue, if there is one.\<close>

lemma active_rx_tx_round_spec:
  assumes "aq_inv queue" "pktgen_event_ok g eof (Round ret eintr readable)" "\<forall>x\<in>set (aq_content queue). ap_codelen x \<le> int MAXPROGLEN"
  shows "\<exists>rcv f x queue'. active_rx_tx_round eof ret eintr readable (g, queue) = Inr ((rcv, f), g\<lparr>pg_ip_id := x\<rparr>, queue') \<and> aq_inv queue'
    \<and> (case f of None \<Rightarrow> aq_content queue' = aq_content queue
       | Some f \<Rightarrow> \<exists>y. aq_content queue = y # aq_content queue' \<and> pktgen_frame g y = Inr f)"
proof (cases "ret < 0")
  case True
  with assms show ?thesis by (intro exI [of _ None] exI [of _ "pg_ip_id g"] exI [of _ queue]) (simp add: active_rx_tx_round_def)
next
  case False
  obtain rcv where rcv: "(case readable of None \<Rightarrow> Inr None | Some b \<Rightarrow> pktgen_parse g eof b) = Inr rcv"
    using assms(2) by (cases readable; cases "pktgen_parse g eof (the readable)") auto
  show ?thesis
  proof (cases "aq_content queue")
    case Nil
    with False rcv assms(1) aq.empty_law [OF assms(1)] show ?thesis
      by (intro exI [of _ rcv] exI [of _ None] exI [of _ "pg_ip_id g"] exI [of _ queue]) (simp add: active_rx_tx_round_def)
  next
    case (Cons y ys)
    then obtain f where f: "pktgen_frame g y = Inr f" using pktgen_frame_ok [of y g] assms(3) by (metis list.set_intros(1))
    have "dequeue_program queue = (Some y, snd (dequeue_program queue))" "aq_content (snd (dequeue_program queue)) = ys"
      using aq.deq_next [OF assms(1) Cons] by (simp_all add: prod_eq_iff)
    with False rcv f Cons aq.empty_law [OF assms(1)] aq.deq_inv [OF assms(1)] show ?thesis
      by (intro exI [of _ rcv] exI [of _ "Some f"] exI [of _ "pg_ip_id g + 1"] exI [of _ "snd (dequeue_program queue)"])
        (auto simp: active_rx_tx_round_def split: prod.splits)
  qed
qed

lemma pktgen_run_spec:
  assumes "aq_inv queue" "\<forall>e\<in>set es. pktgen_event_ok g eof e" "\<forall>x\<in>set (aq_content queue). ap_codelen x \<le> int MAXPROGLEN"
  shows "\<exists>acc sent g' queue' xs. pktgen_run eof es (g, queue) = Inr (acc, sent, g', queue') \<and> aq_inv queue'
    \<and> aq_content queue @ acc = xs @ aq_content queue' \<and> map (pktgen_frame g) xs = map Inr sent"
  using assms
proof (induction es arbitrary: g queue)
  case (Cons e es)
  show ?case
  proof (cases e)
    case (Submit x)
    obtain r q where q: "enqueue_program queue x = (r, q)" by force
    have "aq_inv q" using aq.enq_inv [OF Cons.prems(1), of x] q by simp
    moreover have c: "aq_content q = (if r < 0 then aq_content queue else aq_content queue @ [x])"
      using aq.enq_room [OF Cons.prems(1), of x] aq.enq_full [OF Cons.prems(1), of x] q by (cases "aq_room queue") auto
    moreover have "\<forall>y\<in>set (aq_content q). ap_codelen y \<le> int MAXPROGLEN" using Cons.prems(2,3) c Submit by auto
    ultimately obtain acc sent g' queue' xs where "pktgen_run eof es (g, q) = Inr (acc, sent, g', queue')" "aq_inv queue'"
      "aq_content q @ acc = xs @ aq_content queue'" "map (pktgen_frame g) xs = map Inr sent"
      using Cons.IH [of q g] Cons.prems(2) by auto
    with q c Submit show ?thesis
      by (intro exI [of _ "if r < 0 then acc else x # acc"] exI [of _ sent] exI [of _ g'] exI [of _ queue'] exI [of _ xs]) auto
  next
    case (Round ret eintr readable)
    have ok: "pktgen_event_ok g eof (Round ret eintr readable)" using Cons.prems(2) Round by simp
    obtain rcv f x q where q: "active_rx_tx_round eof ret eintr readable (g, queue) = Inr ((rcv, f), g\<lparr>pg_ip_id := x\<rparr>, q)" "aq_inv q"
      "case f of None \<Rightarrow> aq_content q = aq_content queue | Some f \<Rightarrow> \<exists>y. aq_content queue = y # aq_content q \<and> pktgen_frame g y = Inr f"
      using active_rx_tx_round_spec [OF Cons.prems(1) ok Cons.prems(3)] by blast
    have "\<forall>y\<in>set (aq_content q). ap_codelen y \<le> int MAXPROGLEN" using q(3) Cons.prems(3) by (auto split: option.splits)
    then obtain acc sent g' queue' xs where r: "pktgen_run eof es (g\<lparr>pg_ip_id := x\<rparr>, q) = Inr (acc, sent, g', queue')" "aq_inv queue'"
      "aq_content q @ acc = xs @ aq_content queue'" "map (pktgen_frame g) xs = map Inr sent"
      using Cons.IH [OF q(2), of "g\<lparr>pg_ip_id := x\<rparr>"] Cons.prems(2) by (auto simp: pktgen_event_ok_ident pktgen_frame_ident [abs_def])
    have run: "pktgen_run eof (e # es) (g, queue) = Inr (acc, (case f of None \<Rightarrow> sent | Some f \<Rightarrow> f # sent), g', queue')"
      using Round q(1) r(1) by simp
    show ?thesis
    proof (cases f)
      case None
      with run r q(3) show ?thesis by auto
    next
      case (Some fr)
      then obtain y where "aq_content queue = y # aq_content q" "pktgen_frame g y = Inr fr" using q(3) by auto
      with run r Some show ?thesis by (intro exI [of _ acc] exI [of _ "fr # sent"] exI [of _ g'] exI [of _ queue'] exI [of _ "y # xs"]) simp
    qed
  qed
qed auto



end
