(* ===== verification/AP4_Iface.thy ===== *)
theory AP4_Iface
  imports AP4_Sockets AP4_Arp
begin

text \<open>
  Set-up of ports over sockets (\<open>common/activep4_netutils.h\<close>): interface data, resolution of the peer, and the
  layout of the memory that \<open>port_init_mmap\<close> maps for its two rings.  Results of system calls are
  arguments.
\<close>

abbreviation (input) IFNAMSIZ :: nat where "IFNAMSIZ \<equiv> 16"

subsection \<open>Model\<close>

record devinfo_t =
  dv_iface_index :: int
  dv_hwaddr :: "u8 list"
  dv_ipv4addr :: u32

text \<open>The answers of \<open>ioctl\<close> for an interface name.\<close>

record iface_ioctls =
  SIOCGIFINDEX :: "string \<Rightarrow> int option"
  SIOCGIFHWADDR :: "string \<Rightarrow> u8 list option"
  SIOCGIFADDR :: "string \<Rightarrow> u32 option"

definition get_iface :: "iface_ioctls \<Rightarrow> string \<Rightarrow> devinfo_t c_result" where
  "get_iface io dev =
     (if \<not> length dev < IFNAMSIZ then Inl ExitFailure
      else case SIOCGIFINDEX io dev of None \<Rightarrow> Inl ExitFailure
      | Some index \<Rightarrow> (case SIOCGIFHWADDR io dev of None \<Rightarrow> Inl ExitFailure
      | Some hwaddr \<Rightarrow> (case SIOCGIFADDR io dev of None \<Rightarrow> Inl ExitFailure
      | Some addr \<Rightarrow> Inr \<lparr>dv_iface_index = index, dv_hwaddr = take 6 hwaddr, dv_ipv4addr = addr\<rparr>)))"

text \<open>
  \<open>port_init\<close>: the return value and the configuration.  \<open>eth\<close> is what the field \<open>eth_dstaddr\<close> holds before.
\<close>

definition net_port_init :: "iface_ioctls \<Rightarrow> string option \<Rightarrow> int \<Rightarrow> string \<Rightarrow> u32 \<Rightarrow> u8 list \<Rightarrow> (int \<times> port_config) c_result" where
  "net_port_init io arp_file sockfd iface ipv4_dstaddr eth =
     (if sockfd < 0 then Inl ExitFailure
      else bind_result (get_iface io iface) (\<lambda>info.
           bind_result (arp_resolve arp_file ipv4_dstaddr iface eth) (\<lambda>(found, eth).
             let cfg = \<lparr>pc_hwaddr = dv_hwaddr info, pc_ipv4addr = dv_ipv4addr info, pc_eth_dstaddr = eth, pc_ipv4_dstaddr = ipv4_dstaddr\<rparr> in
             Inr (if found then 0 else -1, cfg))))"

text \<open>The two rings of \<open>port_init_mmap\<close>; positions are relative to the mapped memory.\<close>

record packet_mmap_t =
  rx_req :: tpacket_req3
  tx_req :: tpacket_req3
  rx_ring_size :: nat
  tx_ring_size :: nat
  rx_ring_pos :: nat
  tx_ring_pos :: nat
  rx_rd :: "(nat \<times> nat) list"
  tx_rd :: "(nat \<times> nat) list"

definition mmap_blocks :: "nat \<Rightarrow> nat \<Rightarrow> nat \<Rightarrow> (nat \<times> nat) list" where
  "mmap_blocks base block_size block_nr = map (\<lambda>i. (base + i * block_size mod 2 ^ 32, block_size)) [0..<block_nr]"

definition mmap_block_nr :: "nat \<Rightarrow> nat \<Rightarrow> nat \<Rightarrow> nat" where
  "mmap_block_nr block_size pagesize phys_pages = (phys_pages * pagesize div ((512 * block_size) mod 2 ^ 32)) mod 2 ^ 32"

definition port_init_mmap :: "nat \<Rightarrow> nat \<Rightarrow> nat \<Rightarrow> packet_mmap_t c_result" where
  "port_init_mmap frame_size pagesize phys_pages =
     bind_result (grow_block_size frame_size pagesize) (\<lambda>block_size.
       let block_nr = mmap_block_nr block_size pagesize phys_pages;
           rx = \<lparr>tp_block_size = block_size, tp_block_nr = block_nr, tp_frame_size = frame_size,
                 tp_frame_nr = (block_size div frame_size * block_nr) mod 2 ^ 32\<rparr>;
           tx = \<lparr>tp_block_size = block_size, tp_block_nr = block_nr, tp_frame_size = frame_size,
                 tp_frame_nr = (block_size * block_nr) mod 2 ^ 32 div frame_size\<rparr>;
           size = (block_size * block_nr) mod 2 ^ 32 in
       Inr \<lparr>rx_req = rx, tx_req = tx, rx_ring_size = size, tx_ring_size = size, rx_ring_pos = 0, tx_ring_pos = 0 + size,
            rx_rd = mmap_blocks 0 block_size block_nr, tx_rd = mmap_blocks 0 block_size block_nr\<rparr>)"

subsection \<open>Properties\<close>

text \<open>
  A port for a peer.  If the interface answers and the ARP table of the kernel has an entry for the
  peer, all of them on the interface, \<open>port_init\<close> succeeds and every frame prepared from the
  configuration goes to the hardware address of the first entry, from the address of the interface,
  with an IPv4 header that verifies; without an entry it returns \<open>-1\<close>.
\<close>

theorem net_port_init_resolves:
  assumes "0 \<le> sockfd" "length iface < IFNAMSIZ" "SIOCGIFINDEX io iface = Some index" "SIOCGIFHWADDR io iface = Some hwaddr" "6 \<le> length hwaddr"
    and "SIOCGIFADDR io iface = Some addr" "\<forall>e\<in>set es. arp_line_ok e" "arp_device iface" "dst \<noteq> 0" "\<forall>e\<in>set es. al_addr e = dst \<longrightarrow> al_dev e = iface"
  shows "\<exists>r cfg. net_port_init io (Some (arp_table es)) sockfd iface dst eth = Inr (r, cfg)
    \<and> (case find (\<lambda>e. al_addr e = dst) es of
         None \<Rightarrow> r = -1 \<and> pc_eth_dstaddr cfg = eth
       | Some e \<Rightarrow> r = 0 \<and> udp_frame \<lparr>pc_hwaddr = take 6 hwaddr, pc_ipv4addr = addr, pc_eth_dstaddr = al_mac e, pc_ipv4_dstaddr = dst\<rparr> (tx_setup_frame cfg buf b) buf)"
proof -
  have info: "get_iface io iface = Inr \<lparr>dv_iface_index = index, dv_hwaddr = take 6 hwaddr, dv_ipv4addr = addr\<rparr>"
    using assms(2-6) by (simp add: get_iface_def)
  show ?thesis
  proof (cases "find (\<lambda>e. al_addr e = dst) es")
    case None
    then show ?thesis using assms(1) info arp_resolve_correct [OF assms(7-10), of eth] by (simp add: net_port_init_def)
  next
    case (Some e)
    then have "e \<in> set es" by (metis find_Some_iff nth_mem)
    then have "length (al_mac e) = 6" using assms(7) by (simp add: arp_line_ok_def)
    then have "udp_frame cfg (tx_setup_frame cfg buf b) buf" if "cfg = \<lparr>pc_hwaddr = take 6 hwaddr, pc_ipv4addr = addr, pc_eth_dstaddr = al_mac e, pc_ipv4_dstaddr = dst\<rparr>" for cfg
      using assms(5) that by (intro tx_setup_frame_ok) simp_all
    then show ?thesis using assms(1) info arp_resolve_correct [OF assms(7-10), of eth] Some by (simp add: net_port_init_def)
  qed
qed

theorem net_port_init_resolves_witness:
  "\<exists>cfg. net_port_init \<lparr>SIOCGIFINDEX = (\<lambda>_. Some 2), SIOCGIFHWADDR = (\<lambda>_. Some [1, 2, 3, 4, 5, 6]), SIOCGIFADDR = (\<lambda>_. Some 7)\<rparr>
      (Some (arp_table [demo_arp 1 ''eth0''])) 3 ''eth0'' (al_addr (demo_arp 1 ''eth0'')) [] = Inr (0, cfg)"
proof -
  let ?io = "\<lparr>SIOCGIFINDEX = (\<lambda>_. Some 2), SIOCGIFHWADDR = (\<lambda>_. Some [1, 2, 3, 4, 5, 6]), SIOCGIFADDR = (\<lambda>_. Some 7)\<rparr>"
  have ok: "arp_line_ok (demo_arp 1 ''eth0'')" by (rule demo_arp_ok) simp_all
  then have "al_addr (demo_arp 1 ''eth0'') \<noteq> 0" by (simp add: arp_line_ok_def)
  moreover have "al_dev (demo_arp 1 ''eth0'') = ''eth0''" by (simp add: demo_arp_def)
  ultimately have "\<exists>r cfg. net_port_init ?io (Some (arp_table [demo_arp 1 ''eth0''])) 3 ''eth0'' (al_addr (demo_arp 1 ''eth0'')) [] = Inr (r, cfg)
    \<and> (case find (\<lambda>e. al_addr e = al_addr (demo_arp 1 ''eth0'')) [demo_arp 1 ''eth0''] of
         None \<Rightarrow> r = -1 \<and> pc_eth_dstaddr cfg = []
       | Some e \<Rightarrow> r = 0 \<and> udp_frame \<lparr>pc_hwaddr = take 6 [1, 2, 3, 4, 5, 6], pc_ipv4addr = 7, pc_eth_dstaddr = al_mac e,
           pc_ipv4_dstaddr = al_addr (demo_arp 1 ''eth0'')\<rparr> (tx_setup_frame cfg 0 (\<lambda>_. 0)) 0)"
    using ok demo_arp_device by (intro net_port_init_resolves [where index = 2]) simp_all
  then show ?thesis by (simp del: take_Suc_Cons take_Suc) blast
qed

text \<open>
  The blocks that \<open>port_init_mmap\<close> records for transmission are those of the receive ring: the loop
  that fills \<open>tx_rd\<close> starts from the receive ring, so no block of the table lies in the transmit ring.
\<close>

lemma mmap_tx_blocks_alias:
  assumes "port_init_mmap frame_size pagesize phys_pages = Inr m"
  shows "tx_rd m = rx_rd m" "tx_ring_pos m = rx_ring_pos m + rx_ring_size m"
  using assms by (cases "grow_block_size frame_size pagesize"; clarsimp simp: port_init_mmap_def Let_def)+

text \<open>
  The number of frames requested for transmission differs from that of whole frames in the blocks,
  which the kernel demands, as soon as the blocks do not consist of whole frames and there are enough
  of them.
\<close>

lemma mmap_tx_frames_inconsistent:
  assumes "port_init_mmap frame_size pagesize phys_pages = Inr m" "0 < frame_size" "frame_size \<le> tp_block_nr (tx_req m)"
    and "tp_block_size (tx_req m) mod frame_size \<noteq> 0" "tp_block_size (tx_req m) * tp_block_nr (tx_req m) < 2 ^ 32"
  shows "tp_block_size (tx_req m) div frame_size * tp_block_nr (tx_req m) < tp_frame_nr (tx_req m)"
proof -
  define B n where "B = tp_block_size (tx_req m)" and "n = tp_block_nr (tx_req m)"
  have nr: "tp_frame_nr (tx_req m) = B * n div frame_size"
    using assms(1,5) unfolding B_def n_def by (cases "grow_block_size frame_size pagesize"; clarsimp simp: port_init_mmap_def Let_def)
  have "1 \<le> B mod frame_size" using assms(4) by (simp add: B_def)
  then have "frame_size \<le> B mod frame_size * n" using assms(3) by (metis mult_le_mono mult_1 n_def)
  moreover have "B * n = frame_size * (B div frame_size * n) + B mod frame_size * n"
    by (metis add_mult_distrib mult.assoc mult_div_mod_eq)
  ultimately have "(B div frame_size * n + 1) * frame_size \<le> B * n" by (simp add: algebra_simps)
  then have "B div frame_size * n + 1 \<le> B * n div frame_size" using assms(2) by (simp add: less_eq_div_iff_mult_less_eq)
  then show ?thesis by (simp add: nr B_def n_def)
qed

end
