(* ===== verification/AP4_Port.thy ===== *)
theory AP4_Port
  imports AP4_Prelude
begin

text \<open>
  Set-up of the DPDK processes: the ports (\<open>port_init\<close> in \<open>dpdk/common.h\<close> and in the examples) and the
  assignment of threads to cores.  Calls into DPDK are recorded in the order in which they are made;
  their results, the properties of the devices and the numbering of cores are parameters.
\<close>

abbreviation (input) NUM_RX_QUEUES :: nat where "NUM_RX_QUEUES \<equiv> 1"
abbreviation (input) NUM_TX_QUEUES :: nat where "NUM_TX_QUEUES \<equiv> 2"
abbreviation (input) RTE_MAX_LCORE :: nat where "RTE_MAX_LCORE \<equiv> 128"

subsection \<open>Ports\<close>

datatype packet_filter = ActiveEncapFilter | ActiveDecapFilter

text \<open>Queue numbers, and whether the fast release of buffers is switched on.\<close>

datatype dpdk_call =
    DevInfoGet
  | DevConfigure nat nat bool
  | AdjustDescriptors
  | RxQueueSetup nat
  | TxQueueSetup nat bool
  | DevStart
  | MacaddrGet
  | PromiscuousEnable
  | AddTxCallback nat packet_filter
  | AddRxCallback nat packet_filter

record dev_info =
  di_max_tx_queues :: nat
  di_fast_free :: bool
  di_driver_name :: string

text \<open>
  A sequence of calls, each with the test that makes the function return the result of the call;
  the function returns 0 behind the last one.
\<close>

fun run_calls :: "(dpdk_call \<Rightarrow> int) \<Rightarrow> (dpdk_call \<times> (int \<Rightarrow> bool)) list \<Rightarrow> int \<times> dpdk_call list" where
  "run_calls res [] = (0, [])"
| "run_calls res ((c, fails) # cs) = (if fails (res c) then (res c, [c]) else (case run_calls res cs of (r, t) \<Rightarrow> (r, c # t)))"

definition nonzero :: "int \<Rightarrow> bool" where "nonzero r \<longleftrightarrow> r \<noteq> 0"
definition negative :: "int \<Rightarrow> bool" where "negative r \<longleftrightarrow> r < 0"
definition ignored :: "int \<Rightarrow> bool" where "ignored r \<longleftrightarrow> False"

text \<open>The calls up to the start of the device.\<close>

definition queue_calls :: "nat \<Rightarrow> nat \<Rightarrow> bool \<Rightarrow> (dpdk_call \<times> (int \<Rightarrow> bool)) list" where
  "queue_calls rx_rings tx_rings fast_free =
     [(DevInfoGet, nonzero), (DevConfigure rx_rings tx_rings fast_free, nonzero), (AdjustDescriptors, nonzero)]
     @ map (\<lambda>q. (RxQueueSetup q, negative)) [0..<rx_rings] @ map (\<lambda>q. (TxQueueSetup q fast_free, negative)) [0..<tx_rings]
     @ [(DevStart, negative)]"

definition tx_rings :: "dev_info \<Rightarrow> nat" where
  "tx_rings info = (if NUM_TX_QUEUES < di_max_tx_queues info then NUM_TX_QUEUES else di_max_tx_queues info)"

definition is_virtual_dev :: "dev_info \<Rightarrow> bool" where
  "is_virtual_dev info \<longleftrightarrow> di_driver_name info = ''net_virtio_user''"

definition port_init :: "dev_info \<Rightarrow> bool \<Rightarrow> (dpdk_call \<Rightarrow> int) \<Rightarrow> bool \<Rightarrow> (int \<times> dpdk_call list) c_result" where
  "port_init info valid res mbuf_pool =
     (if \<not> mbuf_pool then Inl AssertFail
      else if \<not> valid then Inr (-1, [])
      else Inr (run_calls res (queue_calls NUM_RX_QUEUES (tx_rings info) (di_fast_free info) @ [(MacaddrGet, negative)]
        @ (if is_virtual_dev info then [(AddTxCallback 0 ActiveDecapFilter, ignored), (AddRxCallback 0 ActiveEncapFilter, ignored)]
           else [(PromiscuousEnable, nonzero)]))))"

text \<open>The key-value client and ping have the same function, without filters.\<close>

definition kv_port_init :: "dev_info \<Rightarrow> bool \<Rightarrow> (dpdk_call \<Rightarrow> int) \<Rightarrow> bool \<Rightarrow> (int \<times> dpdk_call list) c_result" where
  "kv_port_init info valid res mbuf_pool =
     (if \<not> mbuf_pool then Inl AssertFail
      else if \<not> valid then Inr (-1, [])
      else Inr (run_calls res (queue_calls NUM_RX_QUEUES (tx_rings info) (di_fast_free info) @ [(MacaddrGet, negative), (PromiscuousEnable, nonzero)])))"

definition ping_port_init :: "dev_info \<Rightarrow> bool \<Rightarrow> (dpdk_call \<Rightarrow> int) \<Rightarrow> bool \<Rightarrow> (int \<times> dpdk_call list) c_result" where
  "ping_port_init info valid res mbuf_pool =
     (if \<not> mbuf_pool then Inl AssertFail
      else if \<not> valid then Inr (-1, [])
      else Inr (run_calls res (queue_calls NUM_RX_QUEUES (tx_rings info) (di_fast_free info) @ [(MacaddrGet, negative), (PromiscuousEnable, nonzero)])))"

definition server_port_init :: "dev_info \<Rightarrow> bool \<Rightarrow> (dpdk_call \<Rightarrow> int) \<Rightarrow> int \<times> dpdk_call list" where
  "server_port_init info valid res =
     (if \<not> valid then (-1, [])
      else run_calls res (queue_calls 1 1 (di_fast_free info) @ [(MacaddrGet, nonzero), (PromiscuousEnable, nonzero)]))"

subsection \<open>Threads\<close>

datatype thread = StatsThread nat | ControlThread nat | RxThread nat | TxThread nat

text \<open>
  What the set-up sees of DPDK: properties of a port, validity, results of its calls, the port that
  hotplugging creates for a port, the next core, the socket of a core, the main core.
\<close>

record dpdk_env =
  de_info :: "nat \<Rightarrow> dev_info"
  de_valid :: "nat \<Rightarrow> bool"
  de_result :: "nat \<Rightarrow> dpdk_call \<Rightarrow> int"
  de_hotplug :: "nat \<Rightarrow> nat option"
  de_next_lcore :: "nat \<Rightarrow> nat"
  de_lcore_socket :: "nat \<Rightarrow> nat"
  de_main_lcore :: nat

text \<open>
  \<open>rte_eal_remote_launch\<close> starts a thread on a core that waits for work and otherwise returns an error.
\<close>

type_synonym running = "(nat \<times> thread) list"

definition remote_launch :: "dpdk_env \<Rightarrow> thread \<Rightarrow> nat \<Rightarrow> running \<Rightarrow> int \<times> running" where
  "remote_launch env t lcore threads =
     (if lcore = de_main_lcore env \<or> RTE_MAX_LCORE \<le> lcore \<or> lcore \<in> fst ` set threads then (-16, threads)
      else (0, threads @ [(lcore, t)]))"

text \<open>The calls of all ports, port by port.\<close>

type_synonym port_traces = "(nat \<times> dpdk_call list) list"

text \<open>
  The ports of the shim: each physical port is paired with a virtual one.  The thread of statistics
  is launched for every port on the same core; the result is not looked at.
\<close>

fun hotplug_ports :: "dpdk_env \<Rightarrow> nat list \<Rightarrow> nat list c_result" where
  "hotplug_ports env [] = Inr []"
| "hotplug_ports env (p # ps) = (case de_hotplug env p of
       None \<Rightarrow> Inl ExitFailure
     | Some v \<Rightarrow> bind_result (hotplug_ports env ps) (\<lambda>vs. Inr (v # vs)))"

fun init_ports :: "dpdk_env \<Rightarrow> nat \<Rightarrow> nat list \<Rightarrow> running \<Rightarrow> (port_traces \<times> running) c_result" where
  "init_ports env lcore [] threads = Inr ([], threads)"
| "init_ports env lcore (p # ps) threads =
     bind_result (port_init (de_info env p) (de_valid env p) (de_result env p) True) (\<lambda>(r, t).
       if r \<noteq> 0 then Inl ExitFailure
       else bind_result (init_ports env lcore ps (snd (remote_launch env (StatsThread p) lcore threads))) (\<lambda>(ts, threads). Inr ((p, t) # ts, threads)))"

definition shim_init_ports :: "dpdk_env \<Rightarrow> nat list \<Rightarrow> (port_traces \<times> running) c_result" where
  "shim_init_ports env ports =
     (if 1 < length ports then Inl ExitFailure
      else bind_result (hotplug_ports env ports) (\<lambda>virtual.
           let lcore_id = de_next_lcore env (de_main_lcore env) in
           bind_result (init_ports env lcore_id (ports @ virtual) []) (\<lambda>(traces, threads).
             case remote_launch env (ControlThread (if ports = [] then 0 else last ports)) (de_next_lcore env lcore_id) threads of
               (r, threads) \<Rightarrow> if r \<noteq> 0 then Inl ExitFailure else Inr (traces, threads))))"

text \<open>
  The threads of one port in the examples: the next core must be on the socket of the main core.  The
  results of the launches are not looked at.
\<close>

definition checked_lcore :: "dpdk_env \<Rightarrow> nat \<Rightarrow> nat c_result" where
  "checked_lcore env lcore =
     (let next = de_next_lcore env lcore in
      if RTE_MAX_LCORE \<le> next then Inl OutOfBounds
      else if de_lcore_socket env next \<noteq> de_lcore_socket env (de_main_lcore env) then Inl AssertFail else Inr next)"

fun launch_threads :: "dpdk_env \<Rightarrow> thread list \<Rightarrow> nat \<times> running \<Rightarrow> (nat \<times> running) c_result" where
  "launch_threads env [] s = Inr s"
| "launch_threads env (t # ts) (lcore, threads) =
     bind_result (checked_lcore env lcore) (\<lambda>lcore. launch_threads env ts (lcore, snd (remote_launch env t lcore threads)))"

fun kv_start_ports :: "dpdk_env \<Rightarrow> nat list \<Rightarrow> nat \<times> running \<Rightarrow> (port_traces \<times> running) c_result" where
  "kv_start_ports env [] s = Inr ([], snd s)"
| "kv_start_ports env (p # ps) (lcore, threads) =
     bind_result (kv_port_init (de_info env p) (de_valid env p) (de_result env p) True) (\<lambda>(r, t).
       if r \<noteq> 0 then Inl ExitFailure
       else bind_result (launch_threads env [ControlThread p, RxThread p, TxThread p] (lcore, snd (remote_launch env (StatsThread p) lcore threads)))
         (\<lambda>s. bind_result (kv_start_ports env ps s) (\<lambda>(ts, threads). Inr ((p, t) # ts, threads))))"

definition kv_start :: "dpdk_env \<Rightarrow> nat list \<Rightarrow> (port_traces \<times> running) c_result" where
  "kv_start env ports =
     (if 1 < length ports then Inl ExitFailure
      else bind_result (checked_lcore env (de_main_lcore env)) (\<lambda>lcore. kv_start_ports env ports (lcore, [])))"

fun ping_start_ports :: "dpdk_env \<Rightarrow> nat list \<Rightarrow> nat \<times> running \<Rightarrow> (port_traces \<times> running) c_result" where
  "ping_start_ports env [] s = Inr ([], snd s)"
| "ping_start_ports env (p # ps) (lcore, threads) =
     bind_result (ping_port_init (de_info env p) (de_valid env p) (de_result env p) True) (\<lambda>(r, t).
       if r \<noteq> 0 then Inl ExitFailure
       else bind_result (launch_threads env [RxThread p, TxThread p] (lcore, snd (remote_launch env (StatsThread p) lcore threads)))
         (\<lambda>s. bind_result (ping_start_ports env ps s) (\<lambda>(ts, threads). Inr ((p, t) # ts, threads))))"

definition ping_start :: "dpdk_env \<Rightarrow> nat list \<Rightarrow> (port_traces \<times> running) c_result" where
  "ping_start env ports =
     (if 1 < length ports then Inl ExitFailure
      else bind_result (checked_lcore env (de_main_lcore env)) (\<lambda>lcore. ping_start_ports env ports (lcore, [])))"

subsection \<open>What a port has been through\<close>

lemma run_calls_cases:
  assumes "run_calls res cs = (r, t)" "\<forall>p\<in>set cs. \<not> snd p 0"
  shows "r = 0 \<and> t = map fst cs \<and> (\<forall>(c, f)\<in>set cs. \<not> f (res c))
    \<or> r \<noteq> 0 \<and> (\<exists>pre c f post. cs = pre @ (c, f) # post \<and> f (res c) \<and> r = res c \<and> t = map fst pre @ [c] \<and> (\<forall>(c, f)\<in>set pre. \<not> f (res c)))"
  using assms
proof (induction cs arbitrary: r t)
  case (Cons cf cs)
  obtain c f where cf: "cf = (c, f)" by force
  show ?case
  proof (cases "f (res c)")
    case True
    then have "r = res c" "t = [c]" using Cons.prems(1) cf by auto
    moreover have "res c \<noteq> 0" using True Cons.prems(2) cf by (metis list.set_intros(1) snd_conv)
    ultimately show ?thesis using True cf by (intro disjI2 conjI exI [of _ "[]"]) auto
  next
    case False
    then obtain t' where t': "run_calls res cs = (r, t')" "t = c # t'" using Cons.prems(1) cf by (auto split: prod.splits)
    have "\<forall>p\<in>set cs. \<not> snd p 0" using Cons.prems(2) by simp
    from Cons.IH [OF t'(1) this]
    show ?thesis
    proof
      assume "r \<noteq> 0 \<and> (\<exists>pre c f post. cs = pre @ (c, f) # post \<and> f (res c) \<and> r = res c \<and> t' = map fst pre @ [c] \<and> (\<forall>(c, f)\<in>set pre. \<not> f (res c)))"
      then obtain pre c' f' post where "r \<noteq> 0" "cs = pre @ (c', f') # post" "f' (res c')" "r = res c'" "t' = map fst pre @ [c']" "\<forall>(c, f)\<in>set pre. \<not> f (res c)"
        by blast
      then show ?thesis using False cf t'(2) by (intro disjI2 conjI exI [of _ "cf # pre"] exI [of _ c'] exI [of _ f'] exI [of _ post]) auto
    qed (use False cf t'(2) in auto)
  qed
qed simp

lemma port_tests_zero: "\<not> nonzero 0" "\<not> negative 0" "\<not> ignored r"
  by (simp_all add: nonzero_def negative_def ignored_def)

lemma queue_calls_tests: "\<forall>p\<in>set (queue_calls m n b). \<not> snd p 0"
  by (auto simp: queue_calls_def port_tests_zero)

lemma queue_calls_no_callback: "AddTxCallback q f \<notin> fst ` set (queue_calls m n b)" "AddRxCallback q f \<notin> fst ` set (queue_calls m n b)"
  by (auto simp: queue_calls_def)

lemma append_prefix_part: "q @ e = pre @ x # post \<Longrightarrow> x \<notin> set e \<Longrightarrow> set (pre @ [x]) \<subseteq> set q"
  by (auto simp: append_eq_append_conv2 append_eq_Cons_conv)

text \<open>
  The ports of the shim.  When \<open>port_init\<close> succeeds, the device was configured and started after all
  its queues were set up; a virtual device has both filters, the encapsulating one on what it receives
  and the decapsulating one on what is sent to it, and any other device is promiscuous and has none.
  When it fails, its result is that of the last call, and no filter has been installed.
\<close>

theorem port_init_filters:
  assumes "port_init info valid res True = Inr (r, t)"
  shows "(r = 0 \<longrightarrow> valid \<and> t = map fst (queue_calls NUM_RX_QUEUES (tx_rings info) (di_fast_free info)) @ MacaddrGet #
        (if is_virtual_dev info then [AddTxCallback 0 ActiveDecapFilter, AddRxCallback 0 ActiveEncapFilter] else [PromiscuousEnable]))
    \<and> (r \<noteq> 0 \<longrightarrow> (\<forall>q f. AddTxCallback q f \<notin> set t \<and> AddRxCallback q f \<notin> set t) \<and> (if t = [] then \<not> valid else r = res (last t)))"
proof (cases valid)
  case False
  then show ?thesis using assms by (auto simp: port_init_def)
next
  case True
  let ?q = "queue_calls NUM_RX_QUEUES (tx_rings info) (di_fast_free info) @ [(MacaddrGet, negative)]"
  let ?e = "if is_virtual_dev info then [(AddTxCallback 0 ActiveDecapFilter, ignored), (AddRxCallback 0 ActiveEncapFilter, ignored)] else [(PromiscuousEnable, nonzero)]"
  have run: "run_calls res (?q @ ?e) = (r, t)" using assms True by (simp add: port_init_def split: if_splits)
  have tests: "\<forall>p\<in>set (?q @ ?e). \<not> snd p 0"
    using queue_calls_tests by (simp add: port_tests_zero)
  from run_calls_cases [OF run tests] show ?thesis
  proof
    assume "r = 0 \<and> t = map fst (?q @ ?e) \<and> (\<forall>(c, f)\<in>set (?q @ ?e). \<not> f (res c))"
    then show ?thesis using True by simp
  next
    assume "r \<noteq> 0 \<and> (\<exists>pre c f post. ?q @ ?e = pre @ (c, f) # post \<and> f (res c) \<and> r = res c \<and> t = map fst pre @ [c] \<and> (\<forall>(c, f)\<in>set pre. \<not> f (res c)))"
    then obtain pre c f post where p: "r \<noteq> 0" "?q @ ?e = pre @ (c, f) # post" "f (res c)" "r = res c" "t = map fst pre @ [c]" by blast
    have t: "set t = fst ` set (pre @ [(c, f)])" by (simp add: p(5))
    have "set t \<inter> {x. \<exists>q g. x = AddTxCallback q g \<or> x = AddRxCallback q g} = {}"
    proof (cases "is_virtual_dev info")
      case True
      have "(c, f) \<notin> set ?e" using p(3) True by (auto simp: ignored_def)
      then have "set (pre @ [(c, f)]) \<subseteq> set ?q" by (rule append_prefix_part [OF p(2)])
      then have "set t \<subseteq> fst ` set ?q" unfolding t by (rule image_mono)
      then show ?thesis using queue_calls_no_callback by fastforce
    next
      case False
      have "set t \<subseteq> fst ` set (?q @ ?e)" unfolding p(2) t by (rule image_mono) auto
      then show ?thesis using False queue_calls_no_callback by fastforce
    qed
    then have "AddTxCallback q g \<notin> set t" "AddRxCallback q g \<notin> set t" for q g by blast+
    moreover have "t \<noteq> []" "last t = c" by (simp_all add: p(5))
    ultimately show ?thesis using p(1,4) by simp
  qed
qed

theorem port_init_filters_witness:
  "\<exists>t. port_init \<lparr>di_max_tx_queues = 1, di_fast_free = False, di_driver_name = ''net_virtio_user''\<rparr> True (\<lambda>_. 0) True = Inr (0, t)
    \<and> t = [DevInfoGet, DevConfigure 1 1 False, AdjustDescriptors, RxQueueSetup 0, TxQueueSetup 0 False, DevStart, MacaddrGet,
        AddTxCallback 0 ActiveDecapFilter, AddRxCallback 0 ActiveEncapFilter]"
proof -
  let ?i = "\<lparr>di_max_tx_queues = 1, di_fast_free = False, di_driver_name = ''net_virtio_user''\<rparr>"
  have "fst (run_calls (\<lambda>_. 0) cs) = 0" if "\<forall>(c, f)\<in>set cs. \<not> f 0" for cs
    using that by (induction cs) (auto split: prod.splits)
  then obtain t where t: "port_init ?i True (\<lambda>_. 0) True = Inr (0, t)"
    by (auto simp: port_init_def queue_calls_def port_tests_zero is_virtual_dev_def tx_rings_def)
  from port_init_filters [OF t] show ?thesis
    using t by (simp add: queue_calls_def is_virtual_dev_def tx_rings_def)
qed

text \<open>A port of the server that was set up successfully has one queue in each direction and is promiscuous.\<close>

lemma server_port_init_calls:
  assumes "server_port_init info valid res = (0, t)"
  shows "valid \<and> t = [DevInfoGet, DevConfigure 1 1 (di_fast_free info), AdjustDescriptors, RxQueueSetup 0, TxQueueSetup 0 (di_fast_free info),
    DevStart, MacaddrGet, PromiscuousEnable]"
proof -
  let ?cs = "queue_calls 1 1 (di_fast_free info) @ [(MacaddrGet, nonzero), (PromiscuousEnable, nonzero)]"
  have "valid" "run_calls res ?cs = (0, t)" using assms by (simp_all add: server_port_init_def split: if_splits)
  moreover have "\<forall>p\<in>set ?cs. \<not> snd p 0" using queue_calls_tests by (simp add: port_tests_zero)
  ultimately show ?thesis using run_calls_cases [of res ?cs 0 t] by (simp add: queue_calls_def)
qed

subsection \<open>Which threads run\<close>

text \<open>What \<open>rte_get_next_lcore\<close> promises: the next core has a higher number, or there is none.\<close>

definition next_lcore_ok :: "dpdk_env \<Rightarrow> bool" where
  "next_lcore_ok env \<longleftrightarrow> (\<forall>i. de_next_lcore env i < RTE_MAX_LCORE \<longrightarrow> i < de_next_lcore env i)"

lemma checked_lcore_Inr:
  "checked_lcore env lcore = Inr l \<longleftrightarrow>
     l = de_next_lcore env lcore \<and> l < RTE_MAX_LCORE \<and> de_lcore_socket env l = de_lcore_socket env (de_main_lcore env)"
  by (auto simp: checked_lcore_def Let_def)

lemma remote_launch_free:
  assumes "de_main_lcore env < lcore" "lcore < RTE_MAX_LCORE" "\<forall>(l, t)\<in>set threads. l < lcore"
  shows "remote_launch env t lcore threads = (0, threads @ [(lcore, t)])"
  using assms by (auto simp: remote_launch_def)

text \<open>
  The threads of the key-value client.  When the start succeeds with one port, its threads for
  statistics, control, reception and transmission all run, each on a core of its own that is not the
  main core and is on the same socket.
\<close>

theorem kv_threads_run:
  assumes "kv_start env [p] = Inr (traces, threads)" "next_lcore_ok env"
  shows "map snd threads = [StatsThread p, ControlThread p, RxThread p, TxThread p] \<and> distinct (map fst threads)
    \<and> (\<forall>l\<in>fst ` set threads. l \<noteq> de_main_lcore env \<and> de_lcore_socket env l = de_lcore_socket env (de_main_lcore env))
    \<and> (\<exists>t. traces = [(p, t)] \<and> kv_port_init (de_info env p) (de_valid env p) (de_result env p) True = Inr (0, t))"
proof -
  obtain l1 l2 l3 l4 r t where l: "checked_lcore env (de_main_lcore env) = Inr l1" "checked_lcore env l1 = Inr l2" "checked_lcore env l2 = Inr l3" "checked_lcore env l3 = Inr l4"
    and t: "kv_port_init (de_info env p) (de_valid env p) (de_result env p) True = Inr (r, t)" "r = 0" "traces = [(p, t)]"
    and th: "threads = snd (remote_launch env (TxThread p) l4 (snd (remote_launch env (RxThread p) l3
      (snd (remote_launch env (ControlThread p) l2 (snd (remote_launch env (StatsThread p) l1 [])))))))"
    using assms(1) by (auto simp: kv_start_def bind_result_Inr_iff split: if_splits)
  have next': "lcore < l" if "checked_lcore env lcore = Inr l" for lcore l
    using that assms(2) by (auto simp: checked_lcore_Inr next_lcore_ok_def)
  have "de_main_lcore env < l1" "l1 < l2" "l2 < l3" "l3 < l4" "l4 < RTE_MAX_LCORE"
    using l next' by (auto simp: checked_lcore_Inr)
  then have "threads = [(l1, StatsThread p), (l2, ControlThread p), (l3, RxThread p), (l4, TxThread p)]"
    unfolding th by (simp add: remote_launch_free)
  with \<open>de_main_lcore env < l1\<close> \<open>l1 < l2\<close> \<open>l2 < l3\<close> \<open>l3 < l4\<close> l t show ?thesis by (auto simp: checked_lcore_Inr)
qed

definition demo_dpdk :: dpdk_env where
  "demo_dpdk = \<lparr>de_info = (\<lambda>p. \<lparr>di_max_tx_queues = 0, di_fast_free = False, di_driver_name = if p = 0 then ''net_ixgbe'' else ''net_virtio_user''\<rparr>),
     de_valid = (\<lambda>_. True), de_result = (\<lambda>_ _. 0), de_hotplug = (\<lambda>p. Some (p + 1)), de_next_lcore = Suc, de_lcore_socket = (\<lambda>_. 0), de_main_lcore = 0\<rparr>"

lemma demo_dpdk_ok: "next_lcore_ok demo_dpdk"
  by (simp add: next_lcore_ok_def demo_dpdk_def)

lemma run_calls_zero: "\<forall>p\<in>set cs. \<not> snd p 0 \<Longrightarrow> run_calls (\<lambda>_. 0) cs = (0, map fst cs)"
  by (induction cs) auto

lemma port_init_zero: "\<exists>t. port_init info True (\<lambda>_. 0) True = Inr (0, t)" "\<exists>t. kv_port_init info True (\<lambda>_. 0) True = Inr (0, t)"
  using queue_calls_tests by (simp_all add: port_init_def kv_port_init_def run_calls_zero port_tests_zero)

lemma demo_dpdk_simps:
  "de_valid demo_dpdk p = True" "de_result demo_dpdk p = (\<lambda>_. 0)" "de_hotplug demo_dpdk p = Some (p + 1)" "de_next_lcore demo_dpdk i = Suc i"
  "de_lcore_socket demo_dpdk i = 0" "de_main_lcore demo_dpdk = 0"
  by (simp_all add: demo_dpdk_def)

theorem kv_threads_run_witness:
  "\<exists>traces threads. kv_start demo_dpdk [0] = Inr (traces, threads) \<and> map snd threads = [StatsThread 0, ControlThread 0, RxThread 0, TxThread 0]"
proof -
  obtain t where "kv_port_init (de_info demo_dpdk 0) True (\<lambda>_. 0) True = Inr (0, t)" using port_init_zero(2) by blast
  then have "\<exists>traces threads. kv_start demo_dpdk [0] = Inr (traces, threads)"
    by (simp add: kv_start_def demo_dpdk_simps checked_lcore_def)
  then show ?thesis using kv_threads_run [OF _ demo_dpdk_ok, of 0] by blast
qed

text \<open>
  The threads of the shim.  When its start succeeds with one physical port, this port and the virtual
  port made for it are both initialised and the control thread runs; but the thread of statistics of
  the virtual port does not, as it is launched on the core on which that of the physical port runs.
\<close>

theorem shim_threads_run:
  assumes "shim_init_ports env [p] = Inr (traces, threads)" "next_lcore_ok env"
  shows "\<exists>v. de_hotplug env p = Some v \<and> map fst traces = [p, v]
    \<and> (\<forall>(q, t)\<in>set traces. port_init (de_info env q) (de_valid env q) (de_result env q) True = Inr (0, t))
    \<and> map snd threads = [StatsThread p, ControlThread p] \<and> distinct (map fst threads) \<and> de_main_lcore env \<notin> fst ` set threads"
proof -
  define l1 l2 where "l1 = de_next_lcore env (de_main_lcore env)" and "l2 = de_next_lcore env l1"
  obtain v where v: "de_hotplug env p = Some v" using assms(1) by (cases "de_hotplug env p") (simp_all add: shim_init_ports_def)
  obtain th0 where th0: "init_ports env l1 [p, v] [] = Inr (traces, th0)" "remote_launch env (ControlThread p) l2 th0 = (0, threads)"
    using assms(1) v unfolding l1_def l2_def
    by (auto simp: shim_init_ports_def Let_def bind_result_Inr_iff split_beta prod_eq_iff simp del: init_ports.simps split: if_splits)
  obtain t t' where t: "port_init (de_info env p) (de_valid env p) (de_result env p) True = Inr (0, t)" "port_init (de_info env v) (de_valid env v) (de_result env v) True = Inr (0, t')"
    and tr: "traces = [(p, t), (v, t')]" "th0 = snd (remote_launch env (StatsThread v) l1 (snd (remote_launch env (StatsThread p) l1 [])))"
    using th0(1) by (auto simp: bind_result_Inr_iff split: if_splits)
  note th = th0(2) [unfolded tr(2)]
  have l2: "l2 < RTE_MAX_LCORE" using th by (simp add: remote_launch_def split: if_splits)
  then have l: "l1 < l2" using assms(2) by (simp add: next_lcore_ok_def l2_def)
  then have "l1 < RTE_MAX_LCORE" using l2 by simp
  then have "de_main_lcore env < l1" using assms(2) by (simp add: next_lcore_ok_def l1_def)
  then have "threads = [(l1, StatsThread p), (l2, ControlThread p)]"
    using th l l2 by (simp add: remote_launch_def split: if_splits)
  with v t tr(1) l \<open>de_main_lcore env < l1\<close> show ?thesis by auto
qed

theorem shim_threads_run_witness:
  "\<exists>traces threads. shim_init_ports demo_dpdk [0] = Inr (traces, threads) \<and> map snd threads = [StatsThread 0, ControlThread 0]"
proof -
  obtain t t' where "port_init (de_info demo_dpdk 0) True (\<lambda>_. 0) True = Inr (0, t)" "port_init (de_info demo_dpdk 1) True (\<lambda>_. 0) True = Inr (0, t')"
    using port_init_zero(1) by blast
  then have "\<exists>traces threads. shim_init_ports demo_dpdk [0] = Inr (traces, threads)"
    by (simp add: shim_init_ports_def demo_dpdk_simps remote_launch_def)
  then show ?thesis using shim_threads_run [OF _ demo_dpdk_ok, of 0] by blast
qed

text \<open>The threads of ping, likewise.\<close>

lemma ping_threads_run:
  assumes "ping_start env [p] = Inr (traces, threads)" "next_lcore_ok env"
  shows "map snd threads = [StatsThread p, RxThread p, TxThread p] \<and> distinct (map fst threads) \<and> de_main_lcore env \<notin> fst ` set threads"
proof -
  obtain l1 l2 l3 where l: "checked_lcore env (de_main_lcore env) = Inr l1" "checked_lcore env l1 = Inr l2" "checked_lcore env l2 = Inr l3"
    and th: "threads = snd (remote_launch env (TxThread p) l3 (snd (remote_launch env (RxThread p) l2 (snd (remote_launch env (StatsThread p) l1 [])))))"
    using assms(1) by (auto simp: ping_start_def bind_result_Inr_iff split: if_splits)
  have "lcore < l" if "checked_lcore env lcore = Inr l" for lcore l
    using that assms(2) by (auto simp: checked_lcore_Inr next_lcore_ok_def)
  then have "de_main_lcore env < l1" "l1 < l2" "l2 < l3" "l3 < RTE_MAX_LCORE" using l by (auto simp: checked_lcore_Inr)
  then show ?thesis unfolding th by (auto simp: remote_launch_free)
qed

end
