(* ===== verification/AP4_Faithful.thy ===== *)
theory AP4_Faithful
  imports AP4_Shim
begin

text \<open>
  The system together with the memory of the switch.  The runtime reads that memory word by word,
  through packets that are lost, repeated and reordered, while other applications run.  What it
  hands to the application in the end is the memory as it was all the time: provided that the
  replies received during a snapshot are true, and that the switch leaves the memory alone while
  it is read.

  The memory is a ghost: no definition of the runtime sees it.  Both provisos are guards of
  the step relation \<open>mem_step\<close>, and \<open>snapshot_roundtrip\<close> shows that the reply of a switch
  that executes the snapshot packet is of the required form.
\<close>

subsection \<open>The system with the memory of the switch\<close>

text \<open>Application, stage and address.\<close>

type_synonym switch_memory = "nat \<Rightarrow> nat \<Rightarrow> nat \<Rightarrow> u32"

text \<open>
  An application is being read from the moment its status says so until the control thread leaves
  the loop that reads; the loop that clears the memory afterwards runs under the same status.
\<close>

definition snap_phase :: "('a, 'h) ctrl_state \<Rightarrow> nat \<Rightarrow> bool" where
  "snap_phase s a \<longleftrightarrow> status (apps_ctxt (cs_apps s) a) = SNAPSHOTTING \<and> (\<forall>f i w. cs_pc s \<noteq> Scan Inval a f i w)"

definition reply_true :: "(nat \<Rightarrow> nat \<Rightarrow> u32) \<Rightarrow> buffer \<Rightarrow> bool" where
  "reply_true mem b \<longleftrightarrow>
     (let flags = ntohs (load16 b 18) in
      TEST_FLAG flags AP4FLAGMASK_OPT_ARGS \<and> TEST_FLAG flags AP4FLAGMASK_FLAG_INITIATED \<longrightarrow>
        ntohl (load32 b 36) = mem (unat (ntohl (load32 b 32))) (unat (ntohl (load32 b 24))))"

inductive mem_step ::
  "('h \<Rightarrow> ('a, 'h) app_ops) \<Rightarrow> cksum_fn \<Rightarrow> (u64 \<Rightarrow> u64) \<Rightarrow> (u64 \<Rightarrow> u64)
     \<Rightarrow> ('a, 'h) ctrl_state \<times> switch_memory \<Rightarrow> ('a, 'h) ctrl_state \<times> switch_memory \<Rightarrow> bool"
  for ops cksum to_us to_ms where
  control: "ctrl_step ops cksum to_us env s = Inr s' \<Longrightarrow> mem_step ops cksum to_us to_ms (s, mem) (s', mem)"
| receive: "decap_packet ops now (cs_apps s) m = Inr (apps', m') \<Longrightarrow>
    (\<And>a. find_ctxt (cs_apps s) (ntohs (load16 (mb_data m) 20)) = Some a \<Longrightarrow> snap_phase s a \<Longrightarrow> reply_true (mem a) (mb_data m)) \<Longrightarrow>
    mem_step ops cksum to_us to_ms (s, mem) (s\<lparr>cs_apps := apps'\<rparr>, mem)"
| transmit: "encap_packet ops to_ms now (cs_apps s) m = Inr (apps', m') \<Longrightarrow>
    mem_step ops cksum to_us to_ms (s, mem) (s\<lparr>cs_apps := apps'\<rparr>, mem)"
| switch: "(\<And>a. snap_phase s a \<Longrightarrow> mem' a = mem a) \<Longrightarrow> mem_step ops cksum to_us to_ms (s, mem) (s, mem')"

inductive mem_reach ::
  "('h \<Rightarrow> ('a, 'h) app_ops) \<Rightarrow> cksum_fn \<Rightarrow> (u64 \<Rightarrow> u64) \<Rightarrow> (u64 \<Rightarrow> u64) \<Rightarrow> ('a, 'h) active_apps_t
     \<Rightarrow> ('a, 'h) ctrl_state \<times> switch_memory \<Rightarrow> bool"
  for ops cksum to_us to_ms apps where
  start: "mem_reach ops cksum to_us to_ms apps (ctrl_init apps, mem)"
| step: "mem_reach ops cksum to_us to_ms apps x \<Longrightarrow> mem_step ops cksum to_us to_ms x y \<Longrightarrow> mem_reach ops cksum to_us to_ms apps y"

text \<open>Forgetting the memory gives a run of the system.\<close>

lemma mem_reach_sys:
  assumes "mem_reach ops cksum to_us to_ms apps x"
  shows "sys_reach ops cksum to_us to_ms apps (fst x)"
  using assms
proof (induction rule: mem_reach.induct)
  case (step x y)
  from step.hyps(2) show ?case
    by (cases rule: mem_step.cases) (use step.IH sys_reach.step sys_step.intros in \<open>fastforce+\<close>)
qed (simp add: sys_reach.start)

subsection \<open>What was received is what is stored\<close>

definition faithful :: "(nat \<Rightarrow> nat \<Rightarrow> u32) \<Rightarrow> memory_t \<Rightarrow> bool" where
  "faithful mem r \<longleftrightarrow> (\<forall>i<NUM_STAGES. \<forall>j<MAX_DATA. ms_valid (sync_data r i) j \<noteq> 0 \<longrightarrow> ms_data (sync_data r i) j = mem i j)"

definition nothing_received :: "memory_t \<Rightarrow> bool" where
  "nothing_received r \<longleftrightarrow> (\<forall>i<NUM_STAGES. \<forall>j<MAX_DATA. ms_valid (sync_data r i) j = 0)"

definition snap_inv :: "('a, 'h) ctrl_state \<times> switch_memory \<Rightarrow> bool" where
  "snap_inv x \<longleftrightarrow> (\<forall>a. snap_phase (fst x) a \<longrightarrow> faithful (snd x a) (allocation (apps_ctxt (cs_apps (fst x)) a)))"

lemma nothing_received_faithful: "nothing_received r \<Longrightarrow> faithful mem r"
  by (simp add: nothing_received_def faithful_def)

lemma faithful_cong: "sync_data r = sync_data r' \<Longrightarrow> faithful mem r = faithful mem r'"
  by (simp add: faithful_def)

lemma rx_remap_start_fresh:
  "status (rx_remap_start flags seq c) = SNAPSHOTTING \<Longrightarrow> status c \<noteq> SNAPSHOTTING \<Longrightarrow> nothing_received (allocation (rx_remap_start flags seq c))"
  by (auto simp: rx_remap_start_def Let_def clear_valid_def nothing_received_def split: if_splits)

lemma rx_deliver_control:
  "rx_deliver ops now flags offset c m = Inr (c', m') \<Longrightarrow> status c' = status c \<and> allocation c' = allocation c"
  by (auto simp: rx_deliver_def Let_def bind_result_Inr_iff split: if_splits)

lemma rx_snapshot_faithful:
  assumes "rx_snapshot b flags c = Inr c'" "faithful mem (allocation c)" "reply_true mem b" "flags = ntohs (load16 b 18)"
  shows "faithful mem (allocation c')"
  using assms
  by (auto simp: rx_snapshot_def Let_def reply_true_def faithful_def set_slot_def split: if_splits)

text \<open>A context enters a snapshot with nothing received, and true replies keep it faithful.\<close>

lemma rx_dispatch_faithful:
  assumes "rx_dispatch ops now flags seq offset c m = Inr (c', m')" "on_allocation_keeps_status ops"
    and "status c' = SNAPSHOTTING" "flags = ntohs (load16 (mb_data m) 18)"
    and "status c = SNAPSHOTTING \<Longrightarrow> faithful mem (allocation c) \<and> reply_true mem (mb_data m)"
  shows "faithful mem (allocation c')"
proof -
  have enter: "faithful mem (allocation c')"
    if "rx_deliver ops now flags offset (rx_remap_start flags seq d) m = Inr (c', m')" "status d \<noteq> SNAPSHOTTING" for d
    using rx_deliver_control [OF that(1)] rx_remap_start_fresh [of flags seq d] that(2) assms(3) nothing_received_faithful by metis
  show ?thesis
  proof (cases "status c")
    case SNAPSHOTTING
    then show ?thesis
      using assms rx_snapshot_faithful [of "mb_data m" flags c c' mem] by (auto simp: rx_dispatch_def bind_result_Inr_iff)
  next
    case TRANSMITTING
    then show ?thesis using assms(1) enter [of c] by (simp add: rx_dispatch_def)
  next
    case UPDATING
    then obtain d where "rx_write_ack (mb_data m) flags c = Inr d"
      "rx_deliver ops now flags offset (rx_remap_start flags seq d) m = Inr (c', m')"
      using assms(1) by (auto simp: rx_dispatch_def bind_result_Inr_iff)
    then show ?thesis using enter [of d] rx_write_ack_status UPDATING by fastforce
  qed (use assms(1-3) rx_allocated_status [of ops now "mb_data m" flags seq c] rx_write_ack_status [of "mb_data m" flags c]
      in \<open>auto simp: rx_dispatch_def bind_result_Inr_iff split: if_splits\<close>)
qed


lemma decap_faithful:
  assumes "decap_packet ops now apps m = Inr (apps', m')" "on_allocation_keeps_status ops"
    and "status (apps_ctxt apps' a) = SNAPSHOTTING"
    and "status (apps_ctxt apps a) = SNAPSHOTTING \<Longrightarrow> faithful mem (allocation (apps_ctxt apps a))"
    and "find_ctxt apps (ntohs (load16 (mb_data m) 20)) = Some a \<Longrightarrow> status (apps_ctxt apps a) = SNAPSHOTTING \<Longrightarrow> reply_true mem (mb_data m)"
  shows "faithful mem (allocation (apps_ctxt apps' a))"
proof (cases "apps_ctxt apps' a = apps_ctxt apps a")
  case False
  let ?m = "m\<lparr>mb_data := put_ether_type RTE_ETHER_TYPE_IPV4 (mb_data m)\<rparr>"
  obtain offset c' m2 where *: "find_ctxt apps (ntohs (load16 (mb_data m) 20)) = Some a"
    "rx_dispatch ops now (ntohs (load16 (mb_data m) 18)) (ntohs (load16 (mb_data m) 22)) offset (apps_ctxt apps a) ?m = Inr (c', m2)"
    "apps_ctxt apps' a = c'"
    using assms(1) False
    by (auto simp: decap_packet_def Let_def bind_result_Inr_iff put_ether_type_loads split: if_splits option.splits)
  have true: "reply_true mem (mb_data ?m)" if "status (apps_ctxt apps a) = SNAPSHOTTING"
    using assms(5) [OF *(1) that] by (simp add: reply_true_def put_ether_type_loads)
  show ?thesis
    using rx_dispatch_faithful [OF *(2) assms(2), of mem] assms(3,4) true *(3) by (simp add: put_ether_type_loads)
qed (use assms in simp)

subsection \<open>The control thread does not touch what is being read\<close>

text \<open>
  An application that starts a snapshot by itself - from its timer - promises to forget what an
  earlier snapshot received.
\<close>

locale snapshot_application = active_application +
  assumes timer_fresh: "op_timer (ops h) = Some f \<Longrightarrow> f now c = Inr c' \<Longrightarrow> status c \<noteq> SNAPSHOTTING \<Longrightarrow> status c' = SNAPSHOTTING \<Longrightarrow>
      nothing_received (allocation c')"
begin

lemma poll_transmitting_fresh:
  assumes "poll_transmitting ops cksum to_us env now c = Inr (c', ms)" "status c = TRANSMITTING" "status c' = SNAPSHOTTING"
  shows "nothing_received (allocation c')"
  using assms timer_fresh
  by (fastforce simp: poll_transmitting_def poll_heartbeat_def poll_timer_def bind_result_Inr_iff split: if_splits option.splits)

lemma poll_app_snap:
  assumes "poll_app ops cksum to_us env a s = Inr s'" "status (apps_ctxt (cs_apps s') a) = SNAPSHOTTING"
  shows "status (apps_ctxt (cs_apps s) a) = SNAPSHOTTING
      \<and> sync_data (allocation (apps_ctxt (cs_apps s') a)) = sync_data (allocation (apps_ctxt (cs_apps s) a))
    \<or> nothing_received (allocation (apps_ctxt (cs_apps s') a))"
proof (cases "status (apps_ctxt (cs_apps s) a)")
  case TRANSMITTING
  then show ?thesis
    using assms poll_transmitting_fresh
    by (fastforce simp: poll_app_def Let_def finish_poll_def bind_result_Inr_iff split: if_splits)
qed (use assms in \<open>auto simp: poll_app_def Let_def finish_poll_def start_remap_def reset_memory_region_def case_prod_beta bind_result_Inr_iff
    poll_initializing_def poll_allocating_def poll_reallocating_def split: if_splits option.splits\<close>)

lemma scan_step_snap:
  assumes "scan_step ops cksum env k a f i w s = Inr s'" "cs_pc s = Scan k a f i w" "snap_phase s' a"
  shows "snap_phase s a \<and> apps_ctxt (cs_apps s') a = apps_ctxt (cs_apps s) a"
proof (cases w)
  case (Some j)
  then show ?thesis
    using assms scan_word_frame [of cksum env k a f i j s s'] by (auto simp: scan_step_def snap_phase_def)
next
  case None
  then show ?thesis
    using assms
    by (cases k) (auto simp: scan_step_def snap_phase_def leave_snapshot_def finish_snapshot_def Let_def case_prod_beta
        bind_result_Inr_iff split: if_splits)
qed

lemma ctrl_step_snap:
  assumes "ctrl_step ops cksum to_us env s = Inr s'" "snap_phase s' a"
  shows "snap_phase s a \<and> sync_data (allocation (apps_ctxt (cs_apps s') a)) = sync_data (allocation (apps_ctxt (cs_apps s) a))
    \<or> nothing_received (allocation (apps_ctxt (cs_apps s') a))"
proof (cases "pc_app (cs_pc s) = Some a")
  case True
  then consider "cs_pc s = Poll a" | k f i w where "cs_pc s = Scan k a f i w" by (cases "cs_pc s") auto
  then show ?thesis
  proof cases
    case 1
    then show ?thesis
      using assms poll_app_snap [of cksum to_us env a s s'] by (auto simp: ctrl_step_def snap_phase_def split: if_splits)
  next
    case 2
    then show ?thesis using assms scan_step_snap [of cksum env k a f i w s s'] by (auto simp: ctrl_step_def)
  qed
next
  case False
  then show ?thesis using ctrl_step_frame [OF assms(1)] assms(2) by (auto simp: snap_phase_def)
qed

lemma snap_inv_step:
  assumes "mem_step ops cksum to_us to_ms x y" "snap_inv x"
  shows "snap_inv y"
  using assms(1)
proof (cases rule: mem_step.cases)
  case (control env s s' mem)
  have "faithful (mem a) (allocation (apps_ctxt (cs_apps s') a))" if "snap_phase s' a" for a
    using ctrl_step_snap [OF control(3) that]
  proof
    assume *: "snap_phase s a \<and> sync_data (allocation (apps_ctxt (cs_apps s') a)) = sync_data (allocation (apps_ctxt (cs_apps s) a))"
    then have "faithful (mem a) (allocation (apps_ctxt (cs_apps s) a))" using assms(2) control(1) by (simp add: snap_inv_def)
    then show ?thesis using * faithful_cong by blast
  qed (rule nothing_received_faithful)
  then show ?thesis using control(2) by (simp add: snap_inv_def)
next
  case (receive now s m apps' m' mem)
  have "faithful (mem a) (allocation (apps_ctxt apps' a))" if "snap_phase (s\<lparr>cs_apps := apps'\<rparr>) a" for a
    using decap_faithful [OF receive(3) on_allocation_status, of a "mem a"] receive(4) [of a] assms(2) receive(1) that
    by (auto simp: snap_phase_def snap_inv_def)
  then show ?thesis using receive(2) by (simp add: snap_inv_def)
next
  case (transmit now s m apps' m' mem)
  then show ?thesis
    using encap_same_control [OF transmit(3)] assms(2) by (auto simp: snap_inv_def snap_phase_def same_control_def)
next
  case (switch s mem' mem)
  then show ?thesis using assms(2) by (auto simp: snap_inv_def)
qed

lemma snap_inv_reach:
  assumes "mem_reach ops cksum to_us to_ms apps x" "\<forall>a. status (apps_ctxt apps a) \<noteq> SNAPSHOTTING"
  shows "snap_inv x"
  using assms(1)
proof (induction rule: mem_reach.induct)
  case start
  then show ?case using assms(2) by (simp add: snap_inv_def snap_phase_def ctrl_init_def)
qed (rule snap_inv_step)

text \<open>When the thread leaves the loop, every word of the regions to be read is the word of the switch.\<close>

lemma snapshot_is_memory:
  assumes "mem_reach ops cksum to_us to_ms apps (s, mem)" "\<forall>a. status (apps_ctxt apps a) \<noteq> SNAPSHOTTING"
    and "cs_pc s = Scan Snap a False i None" "NUM_STAGES \<le> i"
    and "st < NUM_STAGES" "scan_stage Snap (apps_ctxt (cs_apps s) a) st"
    and "unat (mem_start (sync_data (allocation (apps_ctxt (cs_apps s) a)) st)) \<le> j"
    and "j \<le> unat (mem_end (sync_data (allocation (apps_ctxt (cs_apps s) a)) st))" "j < MAX_DATA"
  shows "ms_valid (sync_data (allocation (apps_ctxt (cs_apps s) a)) st) j \<noteq> 0
    \<and> ms_data (sync_data (allocation (apps_ctxt (cs_apps s) a)) st) j = mem a st j"
proof -
  let ?c = "apps_ctxt (cs_apps s) a"
  have "scan_inv Snap ?c False i None"
    using sys_inv_reach [OF mem_reach_sys [OF assms(1)]] assms(3) unfolding sys_inv_def fst_conv by blast
  then have v: "status ?c = SNAPSHOTTING" "ms_valid (sync_data (allocation ?c) st) j \<noteq> 0"
    using assms(4-8) by (auto simp: stages_synced_def words_synced_def)
  then have "faithful (mem a) (allocation ?c)"
    using snap_inv_reach [OF assms(1,2)] assms(3) by (simp add: snap_inv_def snap_phase_def)
  then show ?thesis using v(2) assms(5,9) by (simp add: faithful_def)
qed

end

subsection \<open>The applications of the shim\<close>

lemma timer_hh_fresh:
  assumes "timer_hh timed_out now hh c = Inr (hh', c')" "status c \<noteq> SNAPSHOTTING" "status c' = SNAPSHOTTING"
  shows "nothing_received (allocation c')"
proof -
  have "\<exists>mem. allocation c' = clear_memory_regions mem"
    using assms by (cases "sync_enabled hh") (auto simp: timer_hh_def Let_def simp del: if_split)
  then show ?thesis by (auto simp: nothing_received_def clear_memory_regions_def clear_stage_def)
qed

interpretation shim_snap: snapshot_application "shim_ops env" for env :: "'ht shim_env"
proof
  fix h f now and c c' :: "'ht shim_ctxt"
  assume "op_timer (shim_ops env h) = Some f" "f now c = Inr c'" "status c \<noteq> SNAPSHOTTING" "status c' = SNAPSHOTTING"
  then show "nothing_received (allocation c')"
    by (cases h) (auto simp: shim_ops_defs timer_lb_def bind_result_Inr_iff dest!: timer_cache_frame, metis timer_hh_fresh)
qed


text \<open>
  C3: whatever the interleaving of the control thread with the filters, with other applications and
  with the switch, when the control thread leaves the snapshot loop of an application of the shim, its copy of
  every region that was to be read is word by word the memory of the switch, provided that the
  replies received during the snapshot are true and that the switch does not change the memory
  while it is read.
\<close>

theorem shim_snapshot_faithful:
  assumes "mem_reach (shim_ops env) cksum to_us to_ms apps (s, mem)" "\<forall>b. status (apps_ctxt apps b) \<noteq> SNAPSHOTTING"
    and "ctrl_step (shim_ops env) cksum to_us cenv s = Inr s'"
    and "cs_pc s = Scan Snap a f i w" "\<forall>f' i' w'. cs_pc s' \<noteq> Scan Snap a f' i' w'"
    and "st < NUM_STAGES" "scan_stage Snap (apps_ctxt (cs_apps s) a) st" "j < MAX_DATA"
    and "unat (mem_start (sync_data (allocation (apps_ctxt (cs_apps s) a)) st)) \<le> j"
    and "j \<le> unat (mem_end (sync_data (allocation (apps_ctxt (cs_apps s) a)) st))"
  shows "ms_data (sync_data (allocation (apps_ctxt (cs_apps s) a)) st) j = mem a st j"
  using shim_snap.snapshot_is_memory [OF assms(1,2) _ _ assms(6,7,9,10,8), of i] snapshot_exit [OF assms(3-5)] assms(4) by simp

subsection \<open>The heavy hitters are those of the switch\<close>

definition switch_region :: "(nat \<Rightarrow> nat \<Rightarrow> u32) \<Rightarrow> memory_t \<Rightarrow> nat \<Rightarrow> u32 list" where
  "switch_region mem r st = map (mem st) [unat (mem_start (sync_data r st))..<Suc (unat (mem_end (sync_data r st)))]"

lemma region_words_switch:
  assumes "unat (mem_start (sync_data r st)) < MAX_DATA" "unat (mem_end (sync_data r st)) < MAX_DATA"
    and "\<And>j. unat (mem_start (sync_data r st)) \<le> j \<Longrightarrow> j \<le> unat (mem_end (sync_data r st)) \<Longrightarrow> ms_data (sync_data r st) j = mem st j"
  shows "region_words r st = Inr (switch_region mem r st)"
proof -
  have "sint (mem_start (sync_data r st)) = int (unat (mem_start (sync_data r st)))"
    "sint (mem_end (sync_data r st)) = int (unat (mem_end (sync_data r st)))"
    using assms(1,2) by (intro sint_small; simp)+
  then show ?thesis
    using assms by (auto simp: region_words_def switch_region_def Let_def simp del: of_nat_unat)
qed

lemma finish_snapshot_hh:
  assumes "finish_snapshot (shim_ops env) cenv a s = Inr s'" "handlers (apps_ctxt (cs_apps s) a) = HhApp"
    and "app_context (apps_ctxt (cs_apps s) a) = HhData hh"
    and "memory_consume_hh (env_now cenv) ((allocation (apps_ctxt (cs_apps s) a))\<lparr>sync_end_time := env_now cenv\<rparr>) hh = Inr hh'"
  shows "app_context (apps_ctxt (cs_apps s') a) = HhData hh'"
  using assms
  by (auto simp: finish_snapshot_def consume_memory_objects_def hh_ops_def leave_snapshot_def Let_def case_prod_beta bind_result_Inr_iff
      split: if_splits)

text \<open>
  C7: in every interleaving, when the snapshot of the heavy-hitter application ends and its
  threshold is determined, the items it reports are the non-zero words of its two key stages in
  the memory of the switch, in order of stage and address, up to the capacity of its table.
\<close>

theorem hh_reports_switch_items:
  assumes "mem_reach (shim_ops env) cksum to_us to_ms apps (s, mem)" "\<forall>b. status (apps_ctxt apps b) \<noteq> SNAPSHOTTING"
    and "ctrl_step (shim_ops env) cksum to_us cenv s = Inr s'"
    and "cs_pc s = Scan Snap a f i w" "\<forall>f' i' w'. cs_pc s' \<noteq> Scan Snap a f' i' w'"
    and "handlers (apps_ctxt (cs_apps s) a) = HhApp" "app_context (apps_ctxt (cs_apps s) a) = HhData hh" "threshold_determined hh"
    and "\<forall>k<CMS_HH_SIZE. stage_id_cms_hh hh k < NUM_STAGES \<and> scan_stage Snap (apps_ctxt (cs_apps s) a) (stage_id_cms_hh hh k)
      \<and> unat (mem_start (sync_data (allocation (apps_ctxt (cs_apps s) a)) (stage_id_cms_hh hh k))) < MAX_DATA
      \<and> unat (mem_end (sync_data (allocation (apps_ctxt (cs_apps s) a)) (stage_id_cms_hh hh k))) < MAX_DATA"
  shows "\<exists>hh'. app_context (apps_ctxt (cs_apps s') a) = HhData hh'
    \<and> map (hh_items hh') [0..<num_hh hh'] = take KEYSPACE (filter (\<lambda>v. v \<noteq> 0)
        (switch_region (mem a) (allocation (apps_ctxt (cs_apps s) a)) (stage_id_cms_hh hh 0)
         @ switch_region (mem a) (allocation (apps_ctxt (cs_apps s) a)) (stage_id_cms_hh hh 1)))"
proof -
  let ?r = "allocation (apps_ctxt (cs_apps s) a)"
  let ?r' = "?r\<lparr>sync_end_time := env_now cenv\<rparr>"
  have x: "\<not> f" "NUM_STAGES \<le> i" "w = None" using snapshot_exit [OF assms(3-5)] by auto
  have fin: "finish_snapshot (shim_ops env) cenv a s = Inr s'"
    using assms(3,4) x by (simp add: ctrl_step_def scan_step_def)
  have words: "region_words ?r' (stage_id_cms_hh hh k) = Inr (switch_region (mem a) ?r (stage_id_cms_hh hh k))" if "k < CMS_HH_SIZE" for k
  proof -
    have "region_words ?r' (stage_id_cms_hh hh k) = Inr (switch_region (mem a) ?r' (stage_id_cms_hh hh k))"
      using assms(9) that x assms(4) shim_snap.snapshot_is_memory [OF assms(1,2), of a i "stage_id_cms_hh hh k"]
      by (intro region_words_switch) auto
    then show ?thesis by (simp add: switch_region_def)
  qed
  then obtain hh' where "memory_consume_hh (env_now cenv) ?r' hh = Inr hh'"
    "map (hh_items hh') [0..<num_hh hh'] = take KEYSPACE (filter (\<lambda>v. v \<noteq> 0) (switch_region (mem a) ?r (stage_id_cms_hh hh 0)
         @ switch_region (mem a) ?r (stage_id_cms_hh hh 1)))"
    using hh_items_recorded [OF assms(8) words [of 0] words [of 1], of "env_now cenv"] by auto
  then show ?thesis using finish_snapshot_hh [OF fin assms(6,7)] by blast
qed


subsection \<open>Examples\<close>

lemma mem_reach_run:
  "mem_reach ops cksum to_us to_ms apps (s, mem) \<Longrightarrow> ctrl_run ops cksum to_us es s = Inr t \<Longrightarrow> mem_reach ops cksum to_us to_ms apps (t, mem)"
proof (induction es arbitrary: s)
  case (Cons e es)
  then show ?case using mem_reach.step [OF Cons.prems(1) mem_step.control] by (auto simp: bind_result_Inr_iff)
qed simp

text \<open>A heavy-hitter application with one word in stage 4, which the switch takes away and which then reads 77.\<close>

definition demo_read_ctxt :: "unit shim_ctxt" where
  "demo_read_ctxt = zero_ctxt\<lparr>ctx_fid := 7, is_active := True, allocation := demo_memory, handlers := HhApp,
     app_context := HhData (zero_hh\<lparr>threshold_determined := True, stage_id_cms_hh := (\<lambda>_. 4)\<rparr>)\<rparr>"

definition demo_read_apps :: "(unit app_data, app_tag) active_apps_t" where
  "demo_read_apps = \<lparr>num_apps = 1, apps_ctxt = (\<lambda>_. demo_read_ctxt), apps_stats = apps_stats demo_apps, apps_app_id = (\<lambda>_. 1)\<rparr>"

definition frame_of :: "u8 list \<Rightarrow> mbuf" where
  "frame_of bs = \<lparr>mb_data = (\<lambda>i. if i < length bs then bs ! i else 0), mb_pkt_len = length bs, mb_data_len = length bs\<rparr>"

definition demo_notice :: mbuf where
  "demo_notice = frame_of (replicate 12 0 @ [0x83, 0xB2, 0x12, 0x34, 0x56, 0x78, 0x01, 0x40, 0, 7, 0, 0, 0x45])"

definition demo_reply :: mbuf where
  "demo_reply = frame_of (replicate 12 0 @ [0x83, 0xB2, 0x12, 0x34, 0x56, 0x78, 0x85, 0x00, 0, 7, 0, 0,
     0, 0, 0, 0, 0, 0, 0, 0, 0, 0, 0, 4, 0, 0, 0, 77, 0x45])"

definition demo_asked_ctxt :: "unit shim_ctxt" where
  "demo_asked_ctxt = rx_remap_start 0x0140 0 demo_read_ctxt"

definition demo_answered_ctxt :: "unit shim_ctxt" where
  "demo_answered_ctxt = demo_asked_ctxt\<lparr>allocation := set_slot 4
     (\<lambda>st. st\<lparr>ms_data := (ms_data st)(0 := 77), ms_valid := (ms_valid st)(0 := 1)\<rparr>) (allocation demo_asked_ctxt)\<rparr>"

lemma demo_asked_simps:
  "status demo_asked_ctxt = SNAPSHOTTING" "ctx_fid demo_asked_ctxt = 7" "handlers demo_asked_ctxt = HhApp" "is_active demo_asked_ctxt"
  "valid_stages (allocation demo_asked_ctxt) = (\<lambda>i. if i = 4 then 1 else 0)" "syncmap (allocation demo_asked_ctxt) 4 = 1"
  "mem_start (sync_data (allocation demo_asked_ctxt) i) = 0" "mem_end (sync_data (allocation demo_asked_ctxt) i) = 0"
  "app_context demo_asked_ctxt = HhData (zero_hh\<lparr>threshold_determined := True, stage_id_cms_hh := (\<lambda>_. 4)\<rparr>)"
  by (simp_all add: demo_asked_ctxt_def rx_remap_start_def TEST_FLAG_def demo_read_ctxt_def Let_def clear_valid_def
      demo_memory_def zero_memory_def zero_stage_def zero_ctxt_def)

lemma demo_notice_loads:
  "ntohs (load16 (mb_data demo_notice) 12) = 0x83B2" "htonl (load32 (mb_data demo_notice) 14) = 0x12345678"
  "ntohs (load16 (mb_data demo_notice) 18) = 0x0140" "ntohs (load16 (mb_data demo_notice) 20) = 7" "ntohs (load16 (mb_data demo_notice) 22) = 0"
  "load8 (mb_data demo_notice) 24 = 0x45"
  by (simp_all add: demo_notice_def frame_of_def load16_def load32_def load8_def htons_def htonl_def nth_append)

lemma demo_reply_loads:
  "ntohs (load16 (mb_data demo_reply) 12) = 0x83B2" "htonl (load32 (mb_data demo_reply) 14) = 0x12345678"
  "ntohs (load16 (mb_data demo_reply) 18) = 0x8500" "ntohs (load16 (mb_data demo_reply) 20) = 7"
  "load8 (mb_data demo_reply) 40 = 0x45" "htonl (load32 (mb_data demo_reply) 24) = 0" "htonl (load32 (mb_data demo_reply) 32) = 4"
  "htonl (load32 (mb_data demo_reply) 36) = 77"
  by (simp_all add: demo_reply_def frame_of_def load16_def load32_def load8_def htons_def htonl_def nth_append)

lemma demo_read_find: "find_ctxt demo_read_apps 7 = Some 0" "find_ctxt (set_ctxt 0 demo_asked_ctxt demo_read_apps) 7 = Some 0"
  by (simp_all add: find_ctxt_def demo_read_apps_def demo_read_ctxt_def demo_asked_simps)


lemma demo_read_simps: "apps_ctxt demo_read_apps i = demo_read_ctxt" "status demo_read_ctxt = TRANSMITTING" "num_apps demo_read_apps = 1"
  by (simp_all add: demo_read_apps_def demo_read_ctxt_def zero_ctxt_def)

lemma demo_notice_received:
  "\<exists>m. decap_packet (shim_ops demo_shim_env) 0 demo_read_apps demo_notice = Inr (set_ctxt 0 demo_asked_ctxt demo_read_apps, m)"
  by (simp add: decap_packet_def Let_def put_ether_type_loads demo_notice_loads active_header_offset_def TEST_FLAG_def demo_read_find
      rx_dispatch_def demo_read_simps demo_asked_ctxt_def [symmetric] rx_deliver_def set_ctxt_def)

lemma demo_reply_received:
  "\<exists>m. decap_packet (shim_ops demo_shim_env) 0 (set_ctxt 0 demo_asked_ctxt demo_read_apps) demo_reply
     = Inr (set_ctxt 0 demo_answered_ctxt demo_read_apps, m)"
proof -
  have upd: "(set_ctxt 0 demo_asked_ctxt demo_read_apps)\<lparr>apps_ctxt := (apps_ctxt (set_ctxt 0 demo_asked_ctxt demo_read_apps))(0 := c)\<rparr>
      = set_ctxt 0 c demo_read_apps" for c
    by (simp add: set_ctxt_def)
  show ?thesis
    by (simp add: decap_packet_def Let_def put_ether_type_loads demo_reply_loads active_header_offset_def TEST_FLAG_def demo_read_find
        rx_dispatch_def demo_asked_simps rx_snapshot_def mem_slot_ok_def demo_answered_ctxt_def upd)
qed

definition demo_reading :: "(unit app_data, app_tag) ctrl_state" where
  "demo_reading = (ctrl_init demo_read_apps)\<lparr>cs_now := 1000, cs_pc := Scan Snap 0 False 0 None,
     cs_apps := set_ctxt 0 (demo_answered_ctxt\<lparr>allocation := (allocation demo_answered_ctxt)\<lparr>sync_start_time := 1000\<rparr>\<rparr>) demo_read_apps\<rparr>"

lemma demo_reading_reach: "mem_reach (shim_ops demo_shim_env) (\<lambda>_ _. 0) id id demo_read_apps (demo_reading, \<lambda>_ _ _. 77)"
proof -
  let ?mem = "(\<lambda>_ _ _. 77) :: switch_memory" and ?ops = "shim_ops demo_shim_env"
  let ?s0 = "ctrl_init demo_read_apps"
  let ?s1 = "?s0\<lparr>cs_apps := set_ctxt 0 demo_asked_ctxt demo_read_apps\<rparr>"
  let ?s2 = "?s1\<lparr>cs_apps := set_ctxt 0 demo_answered_ctxt demo_read_apps\<rparr>"
  obtain m1 m2 where d: "decap_packet ?ops 0 (cs_apps ?s0) demo_notice = Inr (set_ctxt 0 demo_asked_ctxt demo_read_apps, m1)"
    "decap_packet ?ops 0 (cs_apps ?s1) demo_reply = Inr (set_ctxt 0 demo_answered_ctxt demo_read_apps, m2)"
    using demo_notice_received demo_reply_received by (auto simp: ctrl_init_def)
  have "mem_step ?ops (\<lambda>_ _. 0) id id (?s0, ?mem) (?s1, ?mem)"
    by (rule mem_step.receive [OF d(1)]) (simp add: snap_phase_def ctrl_init_def demo_read_simps)
  moreover have "mem_step ?ops (\<lambda>_ _. 0) id id (?s1, ?mem) (?s2, ?mem)"
    by (rule mem_step.receive [OF d(2)]) (simp add: reply_true_def Let_def demo_reply_loads)
  ultimately have "mem_reach ?ops (\<lambda>_ _. 0) id id demo_read_apps (?s2, ?mem)"
    using mem_reach.start mem_reach.step by meson
  moreover have "ctrl_run ?ops (\<lambda>_ _. 0) id [demo_env, demo_env] ?s2 = Inr demo_reading"
    by (simp add: ctrl_step_def ctrl_init_def demo_env_def poll_app_def Let_def demo_answered_ctxt_def demo_asked_simps demo_read_simps
        demo_reading_def set_ctxt_def)
  ultimately show ?thesis by (rule mem_reach_run)
qed

lemma demo_reading_ctxt:
  "apps_ctxt (cs_apps demo_reading) 0 = demo_answered_ctxt\<lparr>allocation := (allocation demo_answered_ctxt)\<lparr>sync_start_time := 1000\<rparr>\<rparr>"
  "cs_pc demo_reading = Scan Snap 0 False 0 None"
  by (simp_all add: demo_reading_def)

lemma demo_read_exit:
  obtains s' where "mem_reach (shim_ops demo_shim_env) (\<lambda>_ _. 0) id id demo_read_apps (demo_reading\<lparr>cs_pc := Scan Snap 0 False 20 None\<rparr>, \<lambda>_ _ _. 77)"
    "ctrl_step (shim_ops demo_shim_env) (\<lambda>_ _. 0) id demo_env (demo_reading\<lparr>cs_pc := Scan Snap 0 False 20 None\<rparr>) = Inr s'"
    "\<forall>f i w. cs_pc s' \<noteq> Scan Snap 0 f i w"
proof -
  let ?s = "demo_reading\<lparr>cs_pc := Scan Snap 0 False 20 None\<rparr>" and ?c = "apps_ctxt (cs_apps demo_reading) 0"
  have a: "regions_fit ?c" "snapshot_arrived ?c"
    by (auto simp: demo_reading_ctxt regions_fit_def snapshot_arrived_def words_synced_def demo_answered_ctxt_def set_slot_def demo_asked_simps)
  obtain n where "sched (shim_ops demo_shim_env) (\<lambda>_ _. 0) id n demo_reading (quiet_at 0 False demo_reading 20)"
    using quiet_pass [OF demo_reading_ctxt(2) _ a, of "shim_ops demo_shim_env" "\<lambda>_ _. 0" id] by auto
  then have "ctrl_run (shim_ops demo_shim_env) (\<lambda>_ _. 0) id (replicate n demo_env) demo_reading = Inr ?s"
    by (auto simp: sched_def quiet_at_def dest: spec [of _ "replicate n demo_env"])
  then have r: "mem_reach (shim_ops demo_shim_env) (\<lambda>_ _. 0) id id demo_read_apps (?s, \<lambda>_ _ _. 77)"
    using mem_reach_run [OF demo_reading_reach] by blast
  obtain s' where "finish_snapshot (shim_ops demo_shim_env) demo_env 0 ?s = Inr s'" "\<forall>f i w. cs_pc s' \<noteq> Scan Snap 0 f i w"
    by (auto simp: finish_snapshot_def consume_memory_objects_def hh_ops_def Let_def demo_reading_ctxt demo_answered_ctxt_def demo_asked_simps
        memory_consume_hh_def memory_invalidate_hh_def region_words_def set_slot_def zero_hh_def case_prod_beta)
  then show ?thesis using r that by (simp add: ctrl_step_def scan_step_def)
qed

theorem shim_snapshot_faithful_witness:
  "ms_data (sync_data (allocation (apps_ctxt (cs_apps demo_reading) 0)) 4) 0 = 77"
proof (rule demo_read_exit)
  fix s'
  assume *: "mem_reach (shim_ops demo_shim_env) (\<lambda>_ _. 0) id id demo_read_apps (demo_reading\<lparr>cs_pc := Scan Snap 0 False 20 None\<rparr>, \<lambda>_ _ _. 77)"
    "ctrl_step (shim_ops demo_shim_env) (\<lambda>_ _. 0) id demo_env (demo_reading\<lparr>cs_pc := Scan Snap 0 False 20 None\<rparr>) = Inr s'"
    "\<forall>f i w. cs_pc s' \<noteq> Scan Snap 0 f i w"
  show ?thesis
    using shim_snapshot_faithful [OF *(1) _ *(2) _ *(3), of False 20 None 4 0]
    by (simp add: demo_read_simps demo_reading_ctxt demo_answered_ctxt_def set_slot_def demo_asked_simps)
qed

theorem hh_reports_switch_items_witness:
  "\<exists>s' hh'. ctrl_step (shim_ops demo_shim_env) (\<lambda>_ _. 0) id demo_env (demo_reading\<lparr>cs_pc := Scan Snap 0 False 20 None\<rparr>) = Inr s'
     \<and> app_context (apps_ctxt (cs_apps s') 0) = HhData hh' \<and> map (hh_items hh') [0..<num_hh hh'] = [77, 77]"
proof (rule demo_read_exit)
  fix s'
  let ?s = "demo_reading\<lparr>cs_pc := Scan Snap 0 False 20 None\<rparr>"
  assume *: "mem_reach (shim_ops demo_shim_env) (\<lambda>_ _. 0) id id demo_read_apps (?s, \<lambda>_ _ _. 77)"
    "ctrl_step (shim_ops demo_shim_env) (\<lambda>_ _. 0) id demo_env ?s = Inr s'" "\<forall>f i w. cs_pc s' \<noteq> Scan Snap 0 f i w"
  have "switch_region (\<lambda>_ _. 77) (allocation (apps_ctxt (cs_apps ?s) 0)) 4 = [77]"
    by (simp add: switch_region_def demo_reading_ctxt demo_answered_ctxt_def set_slot_def demo_asked_simps)
  then have "\<exists>hh'. app_context (apps_ctxt (cs_apps s') 0) = HhData hh' \<and> map (hh_items hh') [0..<num_hh hh'] = take KEYSPACE (filter (\<lambda>v. v \<noteq> 0) ([77] @ [77]))"
    using hh_reports_switch_items [OF *(1) _ *(2) _ *(3), of False 20 None "zero_hh\<lparr>threshold_determined := True, stage_id_cms_hh := (\<lambda>_. 4)\<rparr>"]
    by (simp add: demo_read_simps demo_reading_ctxt demo_answered_ctxt_def set_slot_def demo_asked_simps)
  then show ?thesis using *(2) by (auto simp: take_Cons')
qed

end
