(* ===== verification/AP4_Parallel.thy ===== *)
theory AP4_Parallel
  imports AP4_System
begin

text \<open>
  The control thread as \<open>dpdk/control.h\<close> has it under \<open>CTRL_PARALLEL\<close>: instead of staying with one
  application until its snapshot is complete, the thread makes one pass over the missing words
  each time it comes to the application, and remembers in \<open>active_control_state_t\<close> how far it is.
  The declaration of \<open>ctrlstat\<close> as the entry of the application in \<open>ctrl_status\<close> is commented out in the
  source (the option is off); it is taken as it stands there.

  Everything but the case of \<open>ACTIVE_STATE_SNAPSHOTTING\<close> is the code of \<open>AP4_Control\<close>.  The pass itself
  does what a pass of the sequential thread does (\<open>par_pass_refines\<close>).  The two differ in how they decide that
  they are done: the parallel thread counts packets sent, not words missing.
\<close>

subsection \<open>Model\<close>

text \<open>
  \<open>ps_scan\<close> is the position in a pass: application, the packets sent, stage and word.  During a pass
  the program counter of \<open>ps_base\<close> stays at the application.  \<open>ps_failed\<close> records, for the
  statements only, that a buffer could not be allocated during the pass; nothing reads it.
\<close>

record ('a, 'h) par_state =
  ps_base :: "('a, 'h) ctrl_state"
  ps_stat :: "active_control_state_t arr"
  ps_scan :: "(nat \<times> nat \<times> nat \<times> nat option) option"
  ps_failed :: bool

definition zero_stat :: active_control_state_t where
  "zero_stat = \<lparr>snapshotting_in_progress = 0, remapping_in_progress = 0, invalidating_in_progress = 0, current_stage = 0,
     current_index = 0, counter = 0\<rparr>"

definition par_init :: "('a, 'h) active_apps_t \<Rightarrow> ('a, 'h) par_state" where
  "par_init apps = \<lparr>ps_base = ctrl_init apps, ps_stat = (\<lambda>_. zero_stat), ps_scan = None, ps_failed = False\<rparr>"

text \<open>The next word not yet received; the word bounds the loop, the array does not.\<close>

fun next_index_from :: "memory_stage_t \<Rightarrow> nat list \<Rightarrow> nat option c_result" where
  "next_index_from st [] = Inr None"
| "next_index_from st (j # js) =
     (if MAX_DATA \<le> j then Inl OutOfBounds else if ms_valid st j = 0 then Inr (Some j) else next_index_from st js)"

definition get_next_valid_index ::
  "('a, 'h) activep4_context_t \<Rightarrow> active_control_state_t \<Rightarrow> (int \<times> active_control_state_t) c_result" where
  "get_next_valid_index ctxt ctrlstat =
     (if current_stage ctrlstat < 0 then Inr (- 1, ctrlstat)
      else let st = sync_data (allocation ctxt) (nat (current_stage ctrlstat));
               ctrlstat = (if word_of_int (current_index ctrlstat) < mem_start st
                 then ctrlstat\<lparr>current_index := sint (mem_start st)\<rparr> else ctrlstat)
           in bind_result (next_index_from st [unat (word_of_int (current_index ctrlstat) :: u32)..<Suc (unat (mem_end st))])
             (\<lambda>r. Inr (case r of None \<Rightarrow> (- 1, ctrlstat) | Some j \<Rightarrow> (int j, ctrlstat\<lparr>current_index := int j\<rparr>))))"

definition set_stat :: "nat \<Rightarrow> active_control_state_t \<Rightarrow> ('a, 'h) par_state \<Rightarrow> ('a, 'h) par_state" where
  "set_stat a st p = p\<lparr>ps_stat := (ps_stat p)(a := st)\<rparr>"

text \<open>One word of a pass.\<close>

definition par_word ::
  "cksum_fn \<Rightarrow> ctrl_env \<Rightarrow> nat \<Rightarrow> nat \<Rightarrow> nat \<Rightarrow> nat \<Rightarrow> ('a, 'h) par_state \<Rightarrow> ('a, 'h) par_state c_result" where
  "par_word cksum env a sent i j p =
     (let ctxt = apps_ctxt (cs_apps (ps_base p)) a in
      if unat (mem_end (sync_data (allocation ctxt) i)) < j then Inr (p\<lparr>ps_scan := Some (a, sent, Suc i, None)\<rparr>)
      else if MAX_DATA \<le> j then Inl OutOfBounds
      else if ms_valid (sync_data (allocation ctxt) i) j \<noteq> 0 then Inr (p\<lparr>ps_scan := Some (a, sent, i, Some (Suc j))\<rparr>)
      else case env_mbuf env of
          None \<Rightarrow> Inr (p\<lparr>ps_scan := Some (a, sent, i, Some (Suc j)), ps_failed := True\<rparr>)
        | Some m \<Rightarrow> bind_result (scan_send cksum (env_mac env) m Snap a i j (ps_base p))
            (\<lambda>s. Inr (set_stat a ((ps_stat p a)\<lparr>counter := counter (ps_stat p a) + 1\<rparr>)
               (p\<lparr>ps_base := s, ps_scan := Some (a, Suc sent, i, Some (Suc j))\<rparr>))))"

text \<open>Nothing sent means that the snapshot is complete.\<close>

definition par_finish ::
  "('h \<Rightarrow> ('a, 'h) app_ops) \<Rightarrow> ctrl_env \<Rightarrow> nat \<Rightarrow> ('a, 'h) par_state \<Rightarrow> ('a, 'h) par_state c_result" where
  "par_finish ops env a p =
     (let s = ps_base p; ctxt = apps_ctxt (cs_apps s) a;
          ctxt = ctxt\<lparr>allocation := (allocation ctxt)\<lparr>sync_end_time := env_now env\<rparr>\<rparr> in
      bind_result (consume_memory_objects ops (env_now env) (allocation ctxt) ctxt)
        (\<lambda>ctxt. let ctrlstat = (ps_stat p a)\<lparr>snapshotting_in_progress := 0, counter := 0\<rparr>;
                   (mem, invalidate) = op_memory_invalidate (ops (handlers ctxt)) (allocation ctxt);
                   ctxt = ctxt\<lparr>allocation := mem\<rparr>
          in if invalidate
             then Inr (set_stat a (ctrlstat\<lparr>invalidating_in_progress := 1\<rparr>)
                    (p\<lparr>ps_base := s\<lparr>cs_apps := set_ctxt a ctxt (cs_apps s), cs_pc := Poll (Suc a)\<rparr>, ps_scan := None\<rparr>))
             else Inr (set_stat a ctrlstat (p\<lparr>ps_base := leave_snapshot a ctxt s, ps_scan := None\<rparr>))))"

definition par_scan_step ::
  "('h \<Rightarrow> ('a, 'h) app_ops) \<Rightarrow> cksum_fn \<Rightarrow> ctrl_env \<Rightarrow> nat \<Rightarrow> nat \<Rightarrow> nat \<Rightarrow> nat option \<Rightarrow> ('a, 'h) par_state \<Rightarrow> ('a, 'h) par_state c_result" where
  "par_scan_step ops cksum env a sent i w p =
     (let ctxt = apps_ctxt (cs_apps (ps_base p)) a in
      case w of
        Some j \<Rightarrow> par_word cksum env a sent i j p
      | None \<Rightarrow>
          if NUM_STAGES \<le> i then
            (if sent = 0 then par_finish ops env a p
             else Inr (p\<lparr>ps_base := (ps_base p)\<lparr>cs_pc := Poll (Suc a)\<rparr>, ps_scan := None\<rparr>))
          else if valid_stages (allocation ctxt) i \<noteq> 0 \<and> syncmap (allocation ctxt) i \<noteq> 0
            then Inr (p\<lparr>ps_scan := Some (a, sent, i, Some (unat (mem_start (sync_data (allocation ctxt) i))))\<rparr>)
            else Inr (p\<lparr>ps_scan := Some (a, sent, Suc i, None)\<rparr>))"

text \<open>One write of the invalidation, at the stage and word the two helpers find.\<close>

definition par_invalidate ::
  "cksum_fn \<Rightarrow> ctrl_env \<Rightarrow> nat \<Rightarrow> ('a, 'h) par_state \<Rightarrow> ('a, 'h) par_state c_result" where
  "par_invalidate cksum env a p =
     (let s = ps_base p; ctxt = apps_ctxt (cs_apps s) a;
          (stage, ctrlstat) = get_next_valid_stage ctxt (ps_stat p a) in
      bind_result (get_next_valid_index ctxt ctrlstat)
        (\<lambda>(index, ctrlstat).
          if stage < 0 \<or> index < 0
          then Inr (set_stat a (ctrlstat\<lparr>invalidating_in_progress := 0\<rparr>) (p\<lparr>ps_base := leave_snapshot a ctxt s\<rparr>))
          else bind_result
              (case env_mbuf env of None \<Rightarrow> Inr s
                | Some m \<Rightarrow> scan_send cksum (env_mac env) m Inval a (nat (current_stage ctrlstat)) (nat (current_index ctrlstat)) s)
              (\<lambda>s. Inr (set_stat a ctrlstat (p\<lparr>ps_base := s\<lparr>cs_pc := Poll (Suc a)\<rparr>\<rparr>)))))"

definition par_snapshotting ::
  "cksum_fn \<Rightarrow> ctrl_env \<Rightarrow> nat \<Rightarrow> ('a, 'h) par_state \<Rightarrow> ('a, 'h) par_state c_result" where
  "par_snapshotting cksum env a p =
     (let s = ps_base p; ctxt = apps_ctxt (cs_apps s) a; ctrlstat = ps_stat p a in
      if snapshotting_in_progress ctrlstat \<noteq> 0 then Inr (p\<lparr>ps_scan := Some (a, 0, 0, None), ps_failed := False\<rparr>)
      else if invalidating_in_progress ctrlstat \<noteq> 0 then par_invalidate cksum env a p
      else Inr (set_stat a (zero_stat\<lparr>snapshotting_in_progress := 1\<rparr>)
        (p\<lparr>ps_base := s\<lparr>cs_apps := set_ctxt a (ctxt\<lparr>allocation := (allocation ctxt)\<lparr>sync_start_time := env_now env\<rparr>\<rparr>) (cs_apps s),
             cs_pc := Poll (Suc a)\<rparr>\<rparr>)))"

definition par_step ::
  "('h \<Rightarrow> ('a, 'h) app_ops) \<Rightarrow> cksum_fn \<Rightarrow> (u64 \<Rightarrow> u64) \<Rightarrow> ctrl_env \<Rightarrow> ('a, 'h) par_state \<Rightarrow> ('a, 'h) par_state c_result" where
  "par_step ops cksum to_us env p =
     (let sequential = bind_result (ctrl_step ops cksum to_us env (ps_base p)) (\<lambda>s. Inr (p\<lparr>ps_base := s\<rparr>)) in
      case ps_scan p of
        Some (a, sent, i, w) \<Rightarrow> par_scan_step ops cksum env a sent i w p
      | None \<Rightarrow> (case cs_pc (ps_base p) of
            Poll a \<Rightarrow> if a < num_apps (cs_apps (ps_base p)) \<and> is_active (apps_ctxt (cs_apps (ps_base p)) a)
                \<and> status (apps_ctxt (cs_apps (ps_base p)) a) = SNAPSHOTTING
              then par_snapshotting cksum env a p else sequential
          | _ \<Rightarrow> sequential))"

subsection \<open>A pass is a pass of the sequential thread\<close>

fun seq_view :: "('a, 'h) par_state \<Rightarrow> ('a, 'h) ctrl_state" where
  "seq_view p = (case ps_scan p of None \<Rightarrow> ps_base p
     | Some (a, sent, i, w) \<Rightarrow> (ps_base p)\<lparr>cs_pc := Scan Snap a (0 < sent \<or> ps_failed p) i w\<rparr>)"

lemma set_stat_simps [simp]:
  "ps_base (set_stat a st p) = ps_base p" "ps_scan (set_stat a st p) = ps_scan p" "ps_failed (set_stat a st p) = ps_failed p"
  "ps_stat (set_stat a st p) b = (if a = b then st else ps_stat p b)"
  by (simp_all add: set_stat_def)

lemma scan_send_pc:
  "scan_send cksum mac m k a i j (s\<lparr>cs_pc := x\<rparr>) = bind_result (scan_send cksum mac m k a i j s) (\<lambda>s. Inr (s\<lparr>cs_pc := x\<rparr>))"
  by (cases k) (auto simp: bind_result_assoc intro!: bind_result_cong_Inr)

lemma par_word_refines:
  assumes "par_word cksum env a sent i j p = Inr p'"
  shows "scan_word cksum env Snap a (0 < sent \<or> ps_failed p) i j ((ps_base p)\<lparr>cs_pc := x\<rparr>) = Inr (seq_view p')
    \<and> (\<exists>sent' i' w'. ps_scan p' = Some (a, sent', i', w'))"
  using assms
  by (auto simp: par_word_def scan_word_def Let_def scan_send_pc bind_result_Inr_iff simp del: scan_send.simps split: if_splits option.splits)


text \<open>
  C15: every step inside a pass of the parallel thread is the step of the sequential thread on the same
  contexts: the same words are skipped, the same packets are sent, the same accesses leave the
  array; the flag of the sequential loop is that a packet was sent or could not be.
\<close>

theorem par_pass_refines:
  assumes "par_step ops cksum to_us env p = Inr p'" "ps_scan p = Some (a, sent, i, w)" "i < NUM_STAGES \<or> w \<noteq> None"
  shows "ctrl_step ops cksum to_us env (seq_view p) = Inr (seq_view p')"
proof (cases w)
  case (Some j)
  then have "par_word cksum env a sent i j p = Inr p'" using assms by (simp add: par_step_def par_scan_step_def Let_def)
  from par_word_refines [OF this, of "Scan Snap a (0 < sent \<or> ps_failed p) i w"] show ?thesis
    using Some assms(2) by (simp add: ctrl_step_def scan_step_def)
next
  case None
  then show ?thesis
    using assms by (auto simp: par_step_def par_scan_step_def Let_def ctrl_step_def scan_step_def split: if_splits)
qed

subsection \<open>The interleaving with the filters\<close>

inductive par_sys_step ::
  "('h \<Rightarrow> ('a, 'h) app_ops) \<Rightarrow> cksum_fn \<Rightarrow> (u64 \<Rightarrow> u64) \<Rightarrow> (u64 \<Rightarrow> u64) \<Rightarrow> ('a, 'h) par_state \<Rightarrow> ('a, 'h) par_state \<Rightarrow> bool"
  for ops cksum to_us to_ms where
  control: "par_step ops cksum to_us env p = Inr p' \<Longrightarrow> par_sys_step ops cksum to_us to_ms p p'"
| receive: "decap_packet ops now (cs_apps (ps_base p)) m = Inr (apps', m') \<Longrightarrow>
    par_sys_step ops cksum to_us to_ms p (p\<lparr>ps_base := (ps_base p)\<lparr>cs_apps := apps'\<rparr>\<rparr>)"
| transmit: "encap_packet ops to_ms now (cs_apps (ps_base p)) m = Inr (apps', m') \<Longrightarrow>
    par_sys_step ops cksum to_us to_ms p (p\<lparr>ps_base := (ps_base p)\<lparr>cs_apps := apps'\<rparr>\<rparr>)"

inductive par_reach ::
  "('h \<Rightarrow> ('a, 'h) app_ops) \<Rightarrow> cksum_fn \<Rightarrow> (u64 \<Rightarrow> u64) \<Rightarrow> (u64 \<Rightarrow> u64) \<Rightarrow> ('a, 'h) active_apps_t \<Rightarrow> ('a, 'h) par_state \<Rightarrow> bool"
  for ops cksum to_us to_ms apps where
  start: "par_reach ops cksum to_us to_ms apps (par_init apps)"
| step: "par_reach ops cksum to_us to_ms apps p \<Longrightarrow> par_sys_step ops cksum to_us to_ms p p' \<Longrightarrow> par_reach ops cksum to_us to_ms apps p'"

text \<open>The invariant of the sequential thread, seen through \<open>seq_view\<close>, and where the program counter rests during a pass.\<close>

definition par_inv :: "('a, 'h) par_state \<Rightarrow> bool" where
  "par_inv p \<longleftrightarrow> sys_inv (seq_view p) \<and> (\<forall>a sent i w. ps_scan p = Some (a, sent, i, w) \<longrightarrow> cs_pc (ps_base p) = Poll a)"

lemma par_word_pc: "par_word cksum env a sent i j p = Inr p' \<Longrightarrow> cs_pc (ps_base p') = cs_pc (ps_base p)"
  by (auto simp: par_word_def Let_def bind_result_Inr_iff split: if_splits option.splits dest!: scan_send_frame simp del: scan_send.simps)

lemma sys_inv_rest: "(\<And>k a f i w. cs_pc s \<noteq> Scan k a f i w) \<Longrightarrow> sys_inv s"
  by (simp add: sys_inv_def)

lemma par_finish_rest: "par_finish ops env a p = Inr p' \<Longrightarrow> ps_scan p' = None \<and> cs_pc (ps_base p') = Poll (Suc a)"
  by (auto simp: par_finish_def Let_def bind_result_Inr_iff leave_snapshot_def case_prod_beta split: if_splits)

lemma par_invalidate_rest: "par_invalidate cksum env a p = Inr p' \<Longrightarrow> ps_scan p' = ps_scan p \<and> cs_pc (ps_base p') = Poll (Suc a)"
  by (auto simp: par_invalidate_def Let_def bind_result_Inr_iff leave_snapshot_def case_prod_beta split: if_splits)

lemma par_pass_step_inv:
  assumes "par_step ops cksum to_us env p = Inr p'" "ps_scan p = Some (a, sent, i, w)" "par_inv p"
  shows "par_inv p'"
proof (cases "i < NUM_STAGES \<or> w \<noteq> None")
  case True
  have "sys_inv (seq_view p')" using ctrl_step_inv [OF par_pass_refines [OF assms(1,2) True]] assms(3) by (simp add: par_inv_def)
  moreover have "(\<exists>sent' i' w'. ps_scan p' = Some (a, sent', i', w')) \<and> cs_pc (ps_base p') = cs_pc (ps_base p)"
    using assms(1,2) True par_word_refines [of cksum env a sent i _ p p'] par_word_pc [of cksum env a sent i _ p p']
    by (cases w) (auto simp: par_step_def par_scan_step_def Let_def split: if_splits)
  ultimately show ?thesis using assms(2,3) by (auto simp: par_inv_def)
next
  case False
  then have "ps_scan p' = None \<and> cs_pc (ps_base p') = Poll (Suc a)"
    using assms(1,2) by (auto simp: par_step_def par_scan_step_def Let_def split: if_splits dest: par_finish_rest)
  then show ?thesis by (simp add: par_inv_def sys_inv_rest)
qed

lemma par_snapshotting_inv:
  assumes "par_snapshotting cksum env a p = Inr p'" "ps_scan p = None" "cs_pc (ps_base p) = Poll a"
    and "status (apps_ctxt (cs_apps (ps_base p)) a) = SNAPSHOTTING"
  shows "par_inv p'"
  using assms
  by (auto simp: par_snapshotting_def Let_def par_inv_def sys_inv_def stages_synced_def split: if_splits dest!: par_invalidate_rest)

lemma par_step_inv:
  assumes "par_step ops cksum to_us env p = Inr p'" "par_inv p"
  shows "par_inv p'"
proof (cases "ps_scan p")
  case (Some x)
  then show ?thesis using par_pass_step_inv [OF assms(1) _ assms(2)] by (cases x) auto
next
  case None
  then consider a where "par_snapshotting cksum env a p = Inr p'" "cs_pc (ps_base p) = Poll a" "status (apps_ctxt (cs_apps (ps_base p)) a) = SNAPSHOTTING"
    | s' where "ctrl_step ops cksum to_us env (ps_base p) = Inr s'" "p' = p\<lparr>ps_base := s'\<rparr>"
    using assms(1) by (auto simp: par_step_def Let_def bind_result_Inr_iff split: ctrl_pc.splits if_splits)
  then show ?thesis
  proof cases
    case 1
    then show ?thesis using par_snapshotting_inv None by blast
  next
    case 2
    then show ?thesis using ctrl_step_inv [OF 2(1)] assms(2) None by (simp add: par_inv_def)
  qed
qed

lemma par_view_apps:
  assumes "par_inv p" "\<And>k a f i w. scan_inv k (apps_ctxt (cs_apps (ps_base p)) a) f i w \<Longrightarrow> scan_inv k (apps_ctxt apps' a) f i w"
  shows "par_inv (p\<lparr>ps_base := (ps_base p)\<lparr>cs_apps := apps'\<rparr>\<rparr>)"
  using assms by (cases "ps_scan p") (auto simp: par_inv_def sys_inv_def simp del: scan_inv.simps)

lemma par_inv_reach: "par_reach ops cksum to_us to_ms apps p \<Longrightarrow> par_inv p"
proof (induction rule: par_reach.induct)
  case start
  then show ?case by (simp add: par_init_def par_inv_def ctrl_init_def sys_inv_def)
next
  case (step p p')
  from step.hyps(2) show ?case
  proof (cases rule: par_sys_step.cases)
    case (control env)
    then show ?thesis using par_step_inv step.IH by blast
  next
    case (receive now m apps' m')
    then show ?thesis using par_view_apps [OF step.IH decap_scan_inv [OF receive(2)]] by simp
  next
    case (transmit now m apps' m')
    then show ?thesis using par_view_apps [OF step.IH encap_scan_inv [OF transmit(2)]] by simp
  qed
qed

text \<open>
  C14: in every interleaving, when the parallel thread declares a snapshot complete at the end of
  a pass in which every buffer was allocated, every word of every region that is to be synchronised has
  been received.
\<close>

theorem par_snapshot_complete:
  assumes "par_reach ops cksum to_us to_ms apps p" "par_step ops cksum to_us env p = Inr p'"
    and "ps_scan p = Some (a, sent, i, w)" "snapshotting_in_progress (ps_stat p a) \<noteq> 0" "snapshotting_in_progress (ps_stat p' a) = 0"
    and "\<not> ps_failed p"
    and "st < NUM_STAGES" "scan_stage Snap (apps_ctxt (cs_apps (ps_base p)) a) st"
    and "unat (mem_start (sync_data (allocation (apps_ctxt (cs_apps (ps_base p)) a)) st)) \<le> j"
    and "j \<le> unat (mem_end (sync_data (allocation (apps_ctxt (cs_apps (ps_base p)) a)) st))"
  shows "ms_valid (sync_data (allocation (apps_ctxt (cs_apps (ps_base p)) a)) st) j \<noteq> 0"
proof -
  have "w = None \<and> NUM_STAGES \<le> i \<and> sent = 0"
    using assms(2-5)
    by (auto simp: par_step_def par_scan_step_def par_word_def Let_def bind_result_Inr_iff split: if_splits option.splits)
  then have "scan_inv Snap (apps_ctxt (cs_apps (ps_base p)) a) False i None"
    using par_inv_reach [OF assms(1)] assms(3,6) by (auto simp: par_inv_def sys_inv_def)
  then show ?thesis
    using assms(7-10) \<open>w = None \<and> NUM_STAGES \<le> i \<and> sent = 0\<close> by (auto simp: stages_synced_def words_synced_def)
qed


subsection \<open>A pass without buffers\<close>

fun par_run ::
  "('h \<Rightarrow> ('a, 'h) app_ops) \<Rightarrow> cksum_fn \<Rightarrow> (u64 \<Rightarrow> u64) \<Rightarrow> ctrl_env list \<Rightarrow> ('a, 'h) par_state \<Rightarrow> ('a, 'h) par_state c_result" where
  "par_run ops cksum to_us [] p = Inr p"
| "par_run ops cksum to_us (e # es) p = bind_result (par_step ops cksum to_us e p) (par_run ops cksum to_us es)"

lemma par_run_append:
  "par_run ops cksum to_us (es @ fs) p = bind_result (par_run ops cksum to_us es p) (par_run ops cksum to_us fs)"
  by (induction es arbitrary: p) (auto simp: bind_result_assoc intro!: bind_result_cong_Inr)

lemma par_run_trans:
  "par_run ops cksum to_us (replicate m e) p = Inr q \<Longrightarrow> par_run ops cksum to_us (replicate n e) q = Inr r \<Longrightarrow>
     par_run ops cksum to_us (replicate (m + n) e) p = Inr r"
  by (simp add: replicate_add par_run_append)

definition pass_from :: "nat \<Rightarrow> ('a, 'h) par_state \<Rightarrow> nat \<Rightarrow> nat option \<Rightarrow> bool \<Rightarrow> ('a, 'h) par_state" where
  "pass_from a p i w failed = p\<lparr>ps_scan := Some (a, 0, i, w), ps_failed := failed\<rparr>"

lemma pass_from_simps [simp]:
  "ps_base (pass_from a p i w fl) = ps_base p" "ps_scan (pass_from a p i w fl) = Some (a, 0, i, w)" "ps_failed (pass_from a p i w fl) = fl"
  "ps_stat (pass_from a p i w fl) = ps_stat p" "(pass_from a p i w fl)\<lparr>ps_scan := Some (a, 0, i', w')\<rparr> = pass_from a p i' w' fl"
  "(pass_from a p i w fl)\<lparr>ps_failed := fl'\<rparr> = pass_from a p i w fl'"
  by (simp_all add: pass_from_def)

lemma no_buffer_words:
  assumes "env_mbuf e = None" "unat (mem_end (sync_data (allocation (apps_ctxt (cs_apps (ps_base p)) a)) i)) < MAX_DATA"
  shows "\<exists>fl'. par_run ops cksum to_us (replicate (Suc (Suc (unat (mem_end (sync_data (allocation (apps_ctxt (cs_apps (ps_base p)) a)) i))) - j)) e)
    (pass_from a p i (Some j) fl) = Inr (pass_from a p (Suc i) None fl')"
  using assms
proof (induction "Suc (unat (mem_end (sync_data (allocation (apps_ctxt (cs_apps (ps_base p)) a)) i))) - j" arbitrary: j fl)
  case 0
  then have "unat (mem_end (sync_data (allocation (apps_ctxt (cs_apps (ps_base p)) a)) i)) < j" by simp
  then show ?case unfolding 0(1) [symmetric] by (auto simp: par_step_def par_scan_step_def par_word_def Let_def)
next
  case (Suc n)
  let ?e = "unat (mem_end (sync_data (allocation (apps_ctxt (cs_apps (ps_base p)) a)) i))"
  have j: "\<not> ?e < j" "\<not> MAX_DATA \<le> j" "Suc ?e - j = Suc n" "n = Suc ?e - Suc j" using Suc.hyps(2) Suc.prems(2) by auto
  have "\<exists>fl'. par_step ops cksum to_us e (pass_from a p i (Some j) fl) = Inr (pass_from a p i (Some (Suc j)) fl')"
    using Suc.prems(1) j by (simp add: par_step_def par_scan_step_def par_word_def Let_def) blast
  then obtain fl' where s: "par_step ops cksum to_us e (pass_from a p i (Some j) fl) = Inr (pass_from a p i (Some (Suc j)) fl')" by blast
  obtain fl'' where "par_run ops cksum to_us (replicate (Suc n) e) (pass_from a p i (Some (Suc j)) fl') = Inr (pass_from a p (Suc i) None fl'')"
    using Suc.hyps(1) [of "Suc j" fl'] Suc.prems j(4) by auto
  then show ?case unfolding j(3) replicate_Suc [of "Suc n"] par_run.simps s by auto
qed

lemma no_buffer_stages:
  assumes "env_mbuf e = None" "i \<le> NUM_STAGES" "regions_fit (apps_ctxt (cs_apps (ps_base p)) a)"
  shows "\<exists>n fl'. par_run ops cksum to_us (replicate n e) (pass_from a p i None fl) = Inr (pass_from a p NUM_STAGES None fl')"
  using assms(2)
proof (induction i arbitrary: fl rule: inc_induct)
  case base
  show ?case by (intro exI [of _ 0]) auto
next
  case (step i)
  let ?c = "apps_ctxt (cs_apps (ps_base p)) a"
  have "\<exists>n fl'. par_run ops cksum to_us (replicate n e) (pass_from a p i None fl) = Inr (pass_from a p (Suc i) None fl')"
  proof (cases "scan_stage Snap ?c i")
    case True
    then have "par_run ops cksum to_us (replicate (Suc 0) e) (pass_from a p i None fl)
        = Inr (pass_from a p i (Some (unat (mem_start (sync_data (allocation ?c) i)))) fl)"
      using step.hyps by (simp add: par_step_def par_scan_step_def Let_def)
    then show ?thesis
      using no_buffer_words [OF assms(1) scan_stage_fits [OF assms(3) True]] step.hyps par_run_trans by blast
  next
    case False
    then have "par_run ops cksum to_us (replicate (Suc 0) e) (pass_from a p i None fl) = Inr (pass_from a p (Suc i) None fl)"
      using step.hyps by (auto simp: par_step_def par_scan_step_def Let_def)
    then show ?thesis by blast
  qed
  then show ?case using step.IH par_run_trans by blast
qed

text \<open>
  C30: the parallel thread takes a pass in which it could not send anything for a pass in which
  nothing was missing.  When the buffer pool is empty during a pass, the application is handed its
  region as it is, whatever is still missing, and the snapshot is over.
\<close>

theorem par_empty_pool_ends_snapshot:
  assumes "ps_scan p = None" "cs_pc (ps_base p) = Poll a" "a < num_apps (cs_apps (ps_base p))"
    and "is_active (apps_ctxt (cs_apps (ps_base p)) a)" "status (apps_ctxt (cs_apps (ps_base p)) a) = SNAPSHOTTING"
    and "snapshotting_in_progress (ps_stat p a) \<noteq> 0" "regions_fit (apps_ctxt (cs_apps (ps_base p)) a)" "env_mbuf e = None"
    and "consume_memory_objects ops (env_now e) ((allocation (apps_ctxt (cs_apps (ps_base p)) a))\<lparr>sync_end_time := env_now e\<rparr>)
      ((apps_ctxt (cs_apps (ps_base p)) a)\<lparr>allocation := (allocation (apps_ctxt (cs_apps (ps_base p)) a))\<lparr>sync_end_time := env_now e\<rparr>\<rparr>) = Inr c"
  shows "\<exists>n q. par_run ops cksum to_us (replicate n e) p = Inr q \<and> cs_sent (ps_base q) = cs_sent (ps_base p)
    \<and> snapshotting_in_progress (ps_stat q a) = 0 \<and> app_context (apps_ctxt (cs_apps (ps_base q)) a) = app_context c
    \<and> (invalidating_in_progress (ps_stat q a) \<noteq> 0 \<or> status (apps_ctxt (cs_apps (ps_base q)) a) \<in> {REALLOCATING, REMAPPING})"
proof -
  have "par_run ops cksum to_us (replicate (Suc 0) e) p = Inr (pass_from a p 0 None False)"
    using assms(1-6) by (simp add: par_step_def par_snapshotting_def Let_def pass_from_def)
  moreover obtain n fl where "par_run ops cksum to_us (replicate n e) (pass_from a p 0 None False) = Inr (pass_from a p NUM_STAGES None fl)"
    using no_buffer_stages [OF assms(8) _ assms(7)] by blast
  moreover have "\<exists>q. par_finish ops e a (pass_from a p NUM_STAGES None fl) = Inr q"
    using assms(9) by (simp add: par_finish_def Let_def case_prod_beta split: if_split)
  then obtain q where q: "par_step ops cksum to_us e (pass_from a p NUM_STAGES None fl) = Inr q"
    "par_finish ops e a (pass_from a p NUM_STAGES None fl) = Inr q"
    by (auto simp: par_step_def par_scan_step_def Let_def)
  moreover have "par_run ops cksum to_us (replicate (Suc 0) e) (pass_from a p NUM_STAGES None fl) = Inr q" using q(1) by simp
  moreover have "cs_sent (ps_base q) = cs_sent (ps_base p) \<and> snapshotting_in_progress (ps_stat q a) = 0
    \<and> app_context (apps_ctxt (cs_apps (ps_base q)) a) = app_context c
    \<and> (invalidating_in_progress (ps_stat q a) \<noteq> 0 \<or> status (apps_ctxt (cs_apps (ps_base q)) a) \<in> {REALLOCATING, REMAPPING})"
    using q(2) assms(9) by (auto simp: par_finish_def Let_def case_prod_beta leave_snapshot_def split: if_splits)
  ultimately show ?thesis using par_run_trans by meson
qed

subsection \<open>Invalidation ends with the first stage\<close>

lemma next_index_none:
  "(\<And>j. j \<in> set js \<Longrightarrow> j < MAX_DATA \<and> ms_valid st j \<noteq> 0) \<Longrightarrow> next_index_from st js = Inr None"
  by (induction js) (auto simp: not_le)

lemma next_stage_first:
  "scan_stage Snap c t \<Longrightarrow> t < NUM_STAGES \<Longrightarrow> (\<forall>i < t. \<not> scan_stage Snap c i) \<Longrightarrow> l \<le> t \<Longrightarrow> next_stage_from (allocation c) [l..<NUM_STAGES] = Some t"
proof (induction "t - l" arbitrary: l)
  case (Suc x)
  then have "l < t" "next_stage_from (allocation c) [Suc l..<NUM_STAGES] = Some t" by auto
  then show ?case using Suc.prems by (auto simp: upt_conv_Cons)
qed (auto simp: upt_conv_Cons)

text \<open>
  The stage at which the invalidation of the parallel thread is never moves on: once every
  word of the first stage is acknowledged, the invalidation is declared complete and the application
  goes on, without a write to any later stage.
\<close>

theorem par_invalidation_stops:
  assumes "ps_scan p = None" "cs_pc (ps_base p) = Poll a" "a < num_apps (cs_apps (ps_base p))"
    and "is_active (apps_ctxt (cs_apps (ps_base p)) a)" "status (apps_ctxt (cs_apps (ps_base p)) a) = SNAPSHOTTING"
    and "snapshotting_in_progress (ps_stat p a) = 0" "invalidating_in_progress (ps_stat p a) \<noteq> 0"
    and "0 \<le> current_stage (ps_stat p a)" "nat (current_stage (ps_stat p a)) \<le> st" "st < NUM_STAGES"
    and "scan_stage Snap (apps_ctxt (cs_apps (ps_base p)) a) st" "\<forall>i < st. \<not> scan_stage Snap (apps_ctxt (cs_apps (ps_base p)) a) i"
    and "\<forall>j\<le>unat (mem_end (sync_data (allocation (apps_ctxt (cs_apps (ps_base p)) a)) st)).
      j < MAX_DATA \<and> ms_valid (sync_data (allocation (apps_ctxt (cs_apps (ps_base p)) a)) st) j \<noteq> 0"
  shows "\<exists>q. par_step ops cksum to_us env p = Inr q \<and> cs_sent (ps_base q) = cs_sent (ps_base p)
    \<and> invalidating_in_progress (ps_stat q a) = 0 \<and> status (apps_ctxt (cs_apps (ps_base q)) a) \<in> {REALLOCATING, REMAPPING}
    \<and> allocation (apps_ctxt (cs_apps (ps_base q)) a) = allocation (apps_ctxt (cs_apps (ps_base p)) a)"
proof -
  let ?c = "apps_ctxt (cs_apps (ps_base p)) a"
  have stage: "get_next_valid_stage ?c (ps_stat p a) = (int st, (ps_stat p a)\<lparr>current_stage := int st\<rparr>)"
    using next_stage_first [OF assms(11,10,12,9)] by (simp add: get_next_valid_stage_def)
  have none: "next_index_from (sync_data (allocation ?c) st) [k..<Suc (unat (mem_end (sync_data (allocation ?c) st)))] = Inr None" for k
    using assms(13) by (intro next_index_none) auto
  have "\<exists>ctrlstat. get_next_valid_index ?c ((ps_stat p a)\<lparr>current_stage := int st\<rparr>) = Inr (- 1, ctrlstat)"
    unfolding get_next_valid_index_def Let_def by (simp add: none del: upt_Suc)
  then show ?thesis
    using assms(1-7) stage
    by (auto simp: par_step_def par_snapshotting_def par_invalidate_def Let_def leave_snapshot_def)
qed


subsection \<open>Examples\<close>

text \<open>One application whose word in stage 4 is missing, or has arrived.\<close>

definition demo_missing_ctxt :: "(unit, unit) activep4_context_t" where
  "demo_missing_ctxt = demo_sync_ctxt\<lparr>allocation := (allocation demo_sync_ctxt)\<lparr>sync_data := (\<lambda>_. zero_stage)\<rparr>\<rparr>"

definition demo_par :: "(unit, unit) activep4_context_t \<Rightarrow> (unit, unit) par_state" where
  "demo_par c = (par_init (set_ctxt 0 c demo_sync_apps))\<lparr>ps_base := (ctrl_init (set_ctxt 0 c demo_sync_apps))\<lparr>cs_pc := Poll 0\<rparr>,
     ps_stat := (\<lambda>_. zero_stat\<lparr>snapshotting_in_progress := 1\<rparr>)\<rparr>"

lemma demo_par_simps [simp]:
  "ps_scan (demo_par c) = None" "cs_pc (ps_base (demo_par c)) = Poll 0" "cs_apps (ps_base (demo_par c)) = set_ctxt 0 c demo_sync_apps"
  "ps_stat (demo_par c) = (\<lambda>_. zero_stat\<lparr>snapshotting_in_progress := 1\<rparr>)"
  by (simp_all add: demo_par_def par_init_def ctrl_init_def)

lemma demo_missing_simps:
  "status demo_missing_ctxt = SNAPSHOTTING" "is_active demo_missing_ctxt" "regions_fit demo_missing_ctxt"
  "ms_valid (sync_data (allocation demo_missing_ctxt) 4) 0 = 0" "scan_stage Snap demo_missing_ctxt 4"
  by (simp_all add: demo_missing_ctxt_def demo_sync_simps regions_fit_def zero_stage_def demo_sync_ctxt_def demo_memory_def demo_ctxt_def)

theorem par_empty_pool_ends_snapshot_witness:
  "ms_valid (sync_data (allocation (apps_ctxt (cs_apps (ps_base (demo_par demo_missing_ctxt))) 0)) 4) 0 = 0
   \<and> (\<exists>n q. par_run demo_ops (\<lambda>_ _. 0) id (replicate n (demo_env\<lparr>env_mbuf := None\<rparr>)) (demo_par demo_missing_ctxt) = Inr q
     \<and> snapshotting_in_progress (ps_stat q 0) = 0)"
  using par_empty_pool_ends_snapshot [of "demo_par demo_missing_ctxt" 0 "demo_env\<lparr>env_mbuf := None\<rparr>" demo_ops _ "\<lambda>_ _. 0" id]
  by (auto simp: demo_missing_simps demo_sync_simps zero_stat_def consume_memory_objects_def demo_ops_def)

theorem par_pass_refines_witness:
  "\<exists>p p'. ps_scan p = Some (0, 0, 4, Some 0) \<and> par_step demo_ops (\<lambda>_ _. 0) id demo_env p = Inr p'
     \<and> ctrl_step demo_ops (\<lambda>_ _. 0) id demo_env (seq_view p) = Inr (seq_view p')"
proof -
  let ?p = "pass_from 0 (demo_par demo_sync_ctxt) 4 (Some 0) False"
  obtain p' where p': "par_step demo_ops (\<lambda>_ _. 0) id demo_env ?p = Inr p'"
    by (simp add: par_step_def par_scan_step_def par_word_def Let_def demo_sync_ctxt_def zero_stage_def)
  from par_pass_refines [OF p', of 0 0 4 "Some 0"] show ?thesis using p' by (intro exI [of _ ?p] exI [of _ p']) simp
qed

theorem par_invalidation_stops_witness:
  "\<exists>q. par_step demo_ops (\<lambda>_ _. 0) id demo_env ((demo_par demo_sync_ctxt)\<lparr>ps_stat := (\<lambda>_. zero_stat\<lparr>invalidating_in_progress := 1\<rparr>)\<rparr>) = Inr q
     \<and> status (apps_ctxt (cs_apps (ps_base q)) 0) \<in> {REALLOCATING, REMAPPING}"
  using par_invalidation_stops [of "(demo_par demo_sync_ctxt)\<lparr>ps_stat := (\<lambda>_. zero_stat\<lparr>invalidating_in_progress := 1\<rparr>)\<rparr>" 0 4 demo_ops "\<lambda>_ _. 0" id demo_env]
  by (auto simp: demo_sync_simps zero_stat_def) (auto simp: demo_sync_ctxt_def demo_memory_def zero_stage_def demo_ctxt_def)


lemma par_reach_run:
  "par_reach ops cksum to_us to_ms apps p \<Longrightarrow> par_run ops cksum to_us es p = Inr q \<Longrightarrow> par_reach ops cksum to_us to_ms apps q"
proof (induction es arbitrary: p)
  case (Cons e es)
  then show ?case using par_reach.step [OF Cons.prems(1) par_sys_step.control] by (auto simp: bind_result_Inr_iff)
qed simp

lemma par_run_skip:
  assumes "l \<le> h" "h \<le> NUM_STAGES" "\<forall>i. l \<le> i \<and> i < h \<longrightarrow> \<not> scan_stage Snap (apps_ctxt (cs_apps (ps_base p)) a) i"
  shows "par_run ops cksum to_us (replicate (h - l) e) (pass_from a p l None fl) = Inr (pass_from a p h None fl)"
  using assms(1,3)
proof (induction l rule: inc_induct)
  case (step l)
  then have "par_run ops cksum to_us (replicate (Suc 0) e) (pass_from a p l None fl) = Inr (pass_from a p (Suc l) None fl)"
    using assms(2) by (auto simp: par_step_def par_scan_step_def Let_def)
  then have "par_run ops cksum to_us (replicate (Suc 0 + (h - Suc l)) e) (pass_from a p l None fl) = Inr (pass_from a p h None fl)"
    using step.IH step.prems by (intro par_run_trans) auto
  then show ?case using step.hyps by (simp add: Suc_diff_Suc)
qed simp

definition demo_asking :: "(unit, unit) par_state" where
  "demo_asking = (par_init demo_sync_apps)\<lparr>ps_stat := (\<lambda>_. zero_stat)(0 := zero_stat\<lparr>snapshotting_in_progress := 1\<rparr>),
     ps_base := (ctrl_init demo_sync_apps)\<lparr>cs_now := 1000, cs_pc := Poll 0,
       cs_apps := set_ctxt 0 (demo_sync_ctxt\<lparr>allocation := (allocation demo_sync_ctxt)\<lparr>sync_start_time := 1000\<rparr>\<rparr>) demo_sync_apps\<rparr>\<rparr>"

lemma zero_stat_simps: "snapshotting_in_progress zero_stat = 0" "invalidating_in_progress zero_stat = 0"
  by (simp_all add: zero_stat_def)

lemma demo_asking_reach: "par_reach demo_ops (\<lambda>_ _. 0) id id demo_sync_apps (pass_from 0 demo_asking 0 None False)"
proof -
  have "par_run demo_ops (\<lambda>_ _. 0) id (replicate (Suc (Suc (Suc (Suc (Suc 0))))) demo_env) (par_init demo_sync_apps) = Inr (pass_from 0 demo_asking 0 None False)"
    by (simp add: par_step_def par_init_def ctrl_init_def ctrl_step_def demo_env_def demo_sync_simps par_snapshotting_def Let_def
        zero_stat_simps set_stat_def demo_asking_def pass_from_def)
  then show ?thesis using par_reach_run [OF par_reach.start] by blast
qed

lemma demo_asking_pass: "par_reach demo_ops (\<lambda>_ _. 0) id id demo_sync_apps (pass_from 0 demo_asking NUM_STAGES None False)"
proof -
  have stages: "scan_stage Snap (apps_ctxt (cs_apps (ps_base demo_asking)) 0) i \<longleftrightarrow> i = 4" for i
    by (simp add: demo_asking_def demo_sync_ctxt_def demo_memory_def)
  have "par_run demo_ops (\<lambda>_ _. 0) id (replicate (4 - 0) demo_env) (pass_from 0 demo_asking 0 None False) = Inr (pass_from 0 demo_asking 4 None False)"
    by (rule par_run_skip) (simp_all only: stages, auto)
  moreover have "par_run demo_ops (\<lambda>_ _. 0) id (replicate (Suc (Suc (Suc 0))) demo_env) (pass_from 0 demo_asking 4 None False) = Inr (pass_from 0 demo_asking 5 None False)"
    by (simp add: par_step_def par_scan_step_def par_word_def Let_def demo_asking_def demo_sync_ctxt_def demo_memory_def zero_stage_def)
  moreover have "par_run demo_ops (\<lambda>_ _. 0) id (replicate (20 - 5) demo_env) (pass_from 0 demo_asking 5 None False) = Inr (pass_from 0 demo_asking 20 None False)"
    by (rule par_run_skip) (simp_all only: stages, auto)
  ultimately have "par_run demo_ops (\<lambda>_ _. 0) id (replicate (4 - 0 + Suc (Suc (Suc 0)) + (20 - 5)) demo_env) (pass_from 0 demo_asking 0 None False) = Inr (pass_from 0 demo_asking 20 None False)"
    using par_run_trans by blast
  then show ?thesis using par_reach_run [OF demo_asking_reach] by blast
qed

theorem par_snapshot_complete_witness:
  "\<exists>p p'. par_reach demo_ops (\<lambda>_ _. 0) id id demo_sync_apps p \<and> par_step demo_ops (\<lambda>_ _. 0) id demo_env p = Inr p'
     \<and> snapshotting_in_progress (ps_stat p' 0) = 0 \<and> ms_valid (sync_data (allocation (apps_ctxt (cs_apps (ps_base p)) 0)) 4) 0 \<noteq> 0"
proof -
  let ?p = "pass_from 0 demo_asking NUM_STAGES None False"
  have s: "snapshotting_in_progress (ps_stat ?p 0) = 1" by (simp add: demo_asking_def)
  obtain p' where p': "par_step demo_ops (\<lambda>_ _. 0) id demo_env ?p = Inr p'" "snapshotting_in_progress (ps_stat p' 0) = 0"
    by (simp add: par_step_def par_scan_step_def Let_def par_finish_def consume_memory_objects_def demo_ops_def)
  have "ms_valid (sync_data (allocation (apps_ctxt (cs_apps (ps_base ?p)) 0)) 4) 0 \<noteq> 0"
    using s p'(2) by (intro par_snapshot_complete [OF demo_asking_pass p'(1), where a = 0 and sent = 0 and i = 20 and w = None])
      (simp_all add: demo_asking_def demo_sync_ctxt_def demo_memory_def zero_stage_def)
  then show ?thesis using demo_asking_pass p' by blast
qed

end
