(* ===== verification/AP4_Report.thy ===== *)
theory AP4_Report
  imports AP4_KV AP4_Ping AP4_Posix
begin

text \<open>
  What the processes leave behind: the statistics files written at shutdown (\<open>dpdk/utils.h\<close>,
  \<open>common/stats.h\<close>, the \<open>shutdown\<close> handlers of the applications, \<open>kvapp.c\<close>), the port statistics of
  \<open>lcore_stats\<close>, and the list of stages in the log of the control thread.

  Files are a map from names to contents; \<open>can\<close> says which names \<open>fopen\<close> can open for
  writing.  Most writers do not test the result of \<open>fopen\<close>, and then write through a null pointer.
\<close>

subsection \<open>Formatted output\<close>

type_synonym files = "string \<rightharpoonup> string"

function dec :: "nat \<Rightarrow> string" where
  "dec n = (if n < 10 then [char_of (48 + n)] else dec (n div 10) @ [char_of (48 + n mod 10)])"
  by pat_completeness auto
termination by (relation "measure id") auto

declare dec.simps [simp del]

definition dec_int :: "int \<Rightarrow> string" where
  "dec_int z = (if z < 0 then CHR ''-'' # dec (nat (- z)) else dec (nat z))"

text \<open>A file of rows of unsigned numbers.\<close>

definition rows_text :: "nat list list \<Rightarrow> string" where
  "rows_text rows = concat (map (\<lambda>r. csv_line (map dec r)) rows)"

definition write_rows :: "(string \<Rightarrow> bool) \<Rightarrow> string \<Rightarrow> nat list list \<Rightarrow> files \<Rightarrow> files c_result" where
  "write_rows can f rows fs = (if can f then Inr (fs(f \<mapsto> rows_text rows)) else Inl NullDeref)"

text \<open>\<open>sprintf\<close> into \<open>char filename[50]\<close>.\<close>

definition stats_filename :: "string \<Rightarrow> int \<Rightarrow> string c_result" where
  "stats_filename prefix ident = (let f = prefix @ dec_int ident @ ''.csv'' in if length f < 50 then Inr f else Inl OutOfBounds)"

fun fold_result :: "('x \<Rightarrow> 's \<Rightarrow> 's c_result) \<Rightarrow> 'x list \<Rightarrow> 's \<Rightarrow> 's c_result" where
  "fold_result f [] s = Inr s"
| "fold_result f (x # xs) s = bind_result (f x s) (fold_result f xs)"

subsection \<open>The shim\<close>

definition cache_rows :: "cache_context_t \<Rightarrow> nat list list" where
  "cache_rows c = map (\<lambda>i. [unat (cst_ts (cc_rx_stats c i)), unat (rx_hits (cc_rx_stats c i)), unat (rx_total (cc_rx_stats c i))]) [0..<cc_num_samples c]"

definition shutdown_cache :: "(string \<Rightarrow> bool) \<Rightarrow> int \<Rightarrow> cache_context_t \<Rightarrow> files \<Rightarrow> files c_result" where
  "shutdown_cache can ident c fs =
     (if cc_num_samples c = 0 then Inr fs
      else bind_result (stats_filename ''cache_rx_stats_'' ident)
        (\<lambda>f. if MAX_SAMPLES_CACHE < cc_num_samples c then Inl OutOfBounds else write_rows can f (cache_rows c) fs))"

text \<open>The handlers of the other two applications do nothing.\<close>

fun shutdown_handler :: "(string \<Rightarrow> bool) \<Rightarrow> app_tag \<Rightarrow> int \<Rightarrow> 'ht app_data \<Rightarrow> files \<Rightarrow> files c_result" where
  "shutdown_handler can NoApp ident a fs = Inl NullDeref"
| "shutdown_handler can CacheApp ident a fs = bind_result (as_cache a) (\<lambda>c. shutdown_cache can ident c fs)"
| "shutdown_handler can HhApp ident a fs = Inr fs"
| "shutdown_handler can LbApp ident a fs = Inr fs"

definition tx_rows :: "active_app_stats_t \<Rightarrow> nat list list" where
  "tx_rows st = map (\<lambda>j. [unat (st_ts st j), unat (tx_active st j), unat (tx_total st j)]) [0..<st_num_samples st]"

definition write_tx_stats :: "(string \<Rightarrow> bool) \<Rightarrow> ('a, 'h) active_apps_t \<Rightarrow> nat \<Rightarrow> files \<Rightarrow> files c_result" where
  "write_tx_stats can apps i fs =
     (if st_num_samples (apps_stats apps i) = 0 then Inr fs
      else bind_result (stats_filename ''active_tx_stats_'' (ctx_fid (apps_ctxt apps i)))
        (\<lambda>f. if MAX_TXSTAT_SAMPLES < st_num_samples (apps_stats apps i) then Inl OutOfBounds
             else write_rows can f (tx_rows (apps_stats apps i)) fs))"

definition write_active_tx_stats :: "(string \<Rightarrow> bool) \<Rightarrow> ('a, 'h) active_apps_t \<Rightarrow> files \<Rightarrow> files c_result" where
  "write_active_tx_stats can apps fs = fold_result (write_tx_stats can apps) [0..<num_apps apps] fs"

definition active_client_shutdown ::
  "(string \<Rightarrow> bool) \<Rightarrow> ('ht app_data, app_tag) active_apps_t \<Rightarrow> files \<Rightarrow> files c_result" where
  "active_client_shutdown can apps fs =
     bind_result (fold_result (\<lambda>i. shutdown_handler can (handlers (apps_ctxt apps i)) (int i) (app_context (apps_ctxt apps i))) [0..<num_apps apps] fs)
       (write_active_tx_stats can apps)"

subsection \<open>The other processes\<close>

definition shutdown_ping :: "(string \<Rightarrow> bool) \<Rightarrow> ping_context_t \<Rightarrow> files \<Rightarrow> files c_result" where
  "shutdown_ping can ping_ctxt fs =
     (if num_samples ping_ctxt = 0 then Inr fs
      else if MAX_SAMPLES < num_samples ping_ctxt then Inl OutOfBounds
      else write_rows can ''ping_stats.csv'' (map (\<lambda>i. [unat (ping_times_ns ping_ctxt i)]) [0..<num_samples ping_ctxt]) fs)"

text \<open>The key-value client adds the invalid objects it saw.\<close>

definition kv_shutdown_cache :: "(string \<Rightarrow> bool) \<Rightarrow> int \<Rightarrow> kv_context_t \<Rightarrow> files \<Rightarrow> files c_result" where
  "kv_shutdown_cache can ident c fs =
     (if cc_num_samples (kc_cache c) = 0 then Inr fs
      else bind_result (shutdown_cache can ident (kc_cache c) fs)
        (\<lambda>fs. bind_result (stats_filename ''debug_invalid_objects_'' ident)
          (\<lambda>f. write_rows can f (map (\<lambda>d. [unat (cd_key d), unat (cd_value d), unat (cd_key_0 d), unat (cd_key_1 d), unat (cd_addr d)]) (kc_debug c)) fs)))"

definition write_stats :: "(string \<Rightarrow> bool) \<Rightarrow> stats_t \<Rightarrow> string \<Rightarrow> files \<Rightarrow> files" where
  "write_stats can st f fs =
     (if can f then fs(f \<mapsto> rows_text (map (\<lambda>i. [unat (ts_sec st i), unat (ts_nsec st i), unat (reqRate st i), unat (reqRateAlt st i)]) [0..<numSamples st]))
      else fs)"

text \<open>The POSIX client tests \<open>fopen\<close>, and leaves the remaining instances out when it fails.\<close>

definition posix_rows :: "posix_rx \<Rightarrow> nat list list" where
  "posix_rows r = map (\<lambda>j. [unat (px_ts r j), unat (px_rx_hits r j), unat (px_rx_total r j)]) [0..<px_num_samples r]"

fun posix_write :: "(string \<Rightarrow> bool) \<Rightarrow> (u16 \<times> posix_rx) list \<Rightarrow> files \<Rightarrow> files c_result" where
  "posix_write can [] fs = Inr fs"
| "posix_write can ((fid, r) # cs) fs =
     bind_result (stats_filename ''kv_hits_misses_'' (int (unat fid)))
       (\<lambda>f. if can f then posix_write can cs (fs(f \<mapsto> rows_text (posix_rows r))) else Inr fs)"

definition on_shutdown :: "(string \<Rightarrow> bool) \<Rightarrow> stats_t \<Rightarrow> (u16 \<times> posix_rx) list \<Rightarrow> files \<Rightarrow> files c_result" where
  "on_shutdown can st ctxts fs = posix_write can ctxts (write_stats can st ''kvapp_stats.csv'' fs)"

subsection \<open>Reading the files back\<close>

definition read_rows :: "string \<Rightarrow> nat list list" where
  "read_rows content = map (\<lambda>l. map (\<lambda>t. nat (digits_val 0 t)) (strtok_all [CHR '','', CHR 0x0A] l)) (fgets_all 1023 content)"

lemma dec_chars: "c \<in> set (dec n) \<Longrightarrow> is_digit c"
proof (induction n rule: dec.induct)
  case (1 n)
  have d: "is_digit (char_of (48 + m))" if "m < 10" for m :: nat
    using that by (simp add: is_digit_def of_char_of)
  show ?case
    using 1 d [of n] d [of "n mod 10"] by (subst (asm) (2) dec.simps) (auto split: if_splits)
qed

lemma dec_nonempty [simp]: "dec n \<noteq> []"
  by (subst dec.simps) simp

lemma dec_length: "n < 10 ^ k \<Longrightarrow> 0 < k \<Longrightarrow> length (dec n) \<le> k"
proof (induction n arbitrary: k rule: dec.induct)
  case (1 n)
  show ?case
  proof (cases "n < 10")
    case False
    then obtain k' where k: "k = Suc k'" "0 < k'" 
      using 1(2,3) by (cases k; cases "k - 1") auto
    then have "length (dec (n div 10)) \<le> k'" using 1(1) [OF False, of k'] 1(2) by (simp add: div_less_iff_less_mult mult.commute)
    then show ?thesis using False k by (subst dec.simps) simp
  qed (use 1(3) in \<open>subst dec.simps, simp\<close>)
qed

lemma digits_val_append: "\<forall>c\<in>set xs. is_digit c \<Longrightarrow> digits_val acc (xs @ ys) = digits_val (digits_val acc xs) ys"
  by (induction xs arbitrary: acc) auto

lemma digits_val_dec: "digits_val 0 (dec n) = int n"
proof (induction n rule: dec.induct)
  case (1 n)
  have d: "digits_val acc [char_of (48 + m)] = 10 * acc + int m" if "m < 10" for m :: nat and acc
  proof -
    have "(of_char (char_of (48 + m) :: char) :: int) = int (of_char (char_of (48 + m) :: char))" by (simp only: of_nat_of_char)
    also have "\<dots> = 48 + int m" using that by (simp add: of_char_of)
    finally show ?thesis using that by (simp add: is_digit_def of_char_of)
  qed
  show ?case
  proof (cases "n < 10")
    case True
    then show ?thesis using d [of n 0] by (subst dec.simps) simp
  next
    case False
    then have "digits_val 0 (dec n) = digits_val (digits_val 0 (dec (n div 10))) [char_of (48 + n mod 10)]"
      using dec_chars by (subst dec.simps) (simp add: digits_val_append)
    also have "\<dots> = 10 * int (n div 10) + int (n mod 10)" using 1 [OF False] d [of "n mod 10"] by simp
    also have "\<dots> = int (10 * (n div 10) + n mod 10)" by (simp only: of_nat_add of_nat_mult of_nat_numeral)
    also have "\<dots> = int n" by (simp only: mult_div_mod_eq)
    finally show ?thesis .
  qed
qed

lemma dec_inj: "dec m = dec n \<Longrightarrow> m = n"
  by (metis digits_val_dec of_nat_eq_iff)


lemma dec_field: "config_field (dec n)"
  using dec_chars [of "CHR '',''" n] dec_chars [of "CHR 0x0A" n] by (auto simp: config_field_def is_digit_def)

lemma csv_body_length: "\<forall>t\<in>set fs. length t \<le> k \<Longrightarrow> length (csv_body fs) \<le> length fs * Suc k"
  by (induction fs rule: csv_body.induct) auto

lemma csv_body_newline: "\<forall>t\<in>set fs. config_field t \<Longrightarrow> CHR 0x0A \<notin> set (csv_body fs)"
  by (induction fs rule: csv_body.induct) (auto simp: config_field_def)

text \<open>Rows of at most forty numbers of 64 bits are read back.\<close>

lemma read_rows_text:
  assumes "\<forall>r\<in>set rows. length r \<le> 40 \<and> (\<forall>n\<in>set r. n < 2 ^ 64)"
  shows "read_rows (rows_text rows) = rows"
proof -
  have short: "length (csv_body (map dec r)) < 1023" if "r \<in> set rows" for r
  proof -
    have "\<forall>t\<in>set (map dec r). length t \<le> 20" using assms that dec_length [of _ 20] by fastforce
    then have "length (csv_body (map dec r)) \<le> length r * 21" using csv_body_length [of "map dec r" 20] by simp
    also have "\<dots> \<le> 40 * 21" using assms that by (intro mult_right_mono) auto
    finally show ?thesis by simp
  qed
  have nl: "CHR 0x0A \<notin> set (csv_body (map dec r))" for r using csv_body_newline [of "map dec r"] dec_field by simp
  have "fgets_all 1023 (concat (map (\<lambda>b. b @ [CHR 0x0A]) (map (\<lambda>r. csv_body (map dec r)) rows)))
      = map (\<lambda>b. b @ [CHR 0x0A]) (map (\<lambda>r. csv_body (map dec r)) rows)"
    by (rule fgets_all_lines) (use nl short in auto)
  then have "fgets_all 1023 (rows_text rows) = map (\<lambda>r. csv_line (map dec r)) rows"
    by (simp add: rows_text_def csv_line_def comp_def)
  moreover have "map (\<lambda>t. nat (digits_val 0 t)) (strtok_all [CHR '','', CHR 0x0A] (csv_line (map dec r))) = r" for r
    using strtok_csv_line [of "map dec r"] dec_field by (simp add: digits_val_dec comp_def)
  ultimately show ?thesis by (simp add: read_rows_def comp_def)
qed

subsection \<open>The statistics of the shim are on disk\<close>

lemma filename_ok:
  assumes "length prefix \<le> 30" "- (2 ^ 31) \<le> z" "z < 2 ^ 31"
  shows "stats_filename prefix z = Inr (prefix @ dec_int z @ ''.csv'')"
proof -
  have len: "length (dec n) \<le> 10" if "n \<le> 2 ^ 31" for n using dec_length [of n 10] that by simp
  have "length (dec_int z) \<le> 11" 
    using len [of "nat z"] len [of "nat (- z)"] assms(2,3) by (cases "z < 0") (simp_all add: dec_int_def nat_le_iff)
  then show ?thesis using assms(1) by (simp add: stats_filename_def)
qed

lemma dec_int_inj: "dec_int y = dec_int z \<Longrightarrow> y = z"
  using dec_chars [of "CHR ''-''"]
  by (auto simp: dec_int_def is_digit_def split: if_splits dest!: dec_inj) (metis list.set_intros(1))+

lemma fold_result_frame:
  assumes "fold_result f xs s = Inr s'" "\<And>x s s'. x \<in> set xs \<Longrightarrow> f x s = Inr s' \<Longrightarrow> s' k = s k"
  shows "s' k = s k"
  using assms by (induction xs arbitrary: s) (fastforce simp: bind_result_Inr_iff)+

lemma fold_result_total:
  assumes "\<And>x s. x \<in> set xs \<Longrightarrow> \<exists>s'. f x s = Inr s'"
  shows "\<exists>s'. fold_result f xs s = Inr s'"
  using assms
proof (induction xs arbitrary: s)
  case (Cons x xs)
  obtain s1 where "f x s = Inr s1" using Cons.prems by fastforce
  then show ?case using Cons by fastforce
qed simp

text \<open>What one round writes stays until the end, when the other rounds write other files.\<close>

lemma fold_result_writes:
  assumes "fold_result f xs s = Inr s'" "x \<in> set xs" "distinct xs"
    and "\<And>s1 s2. f x s1 = Inr s2 \<Longrightarrow> s2 k = v" "\<And>y s1 s2. y \<in> set xs \<Longrightarrow> y \<noteq> x \<Longrightarrow> f y s1 = Inr s2 \<Longrightarrow> s2 k = s1 k"
  shows "s' k = v"
  using assms
proof (induction xs arbitrary: s)
  case (Cons y ys)
  then obtain s1 where s1: "f y s = Inr s1" "fold_result f ys s1 = Inr s'" by (auto simp: bind_result_Inr_iff)
  show ?case
  proof (cases "y = x")
    case True
    then have "s' k = s1 k" using Cons.prems(3,5) by (intro fold_result_frame [OF s1(2)]) (metis distinct.simps(2) list.set_intros(2))
    then show ?thesis using Cons.prems(4) s1(1) True by auto
  next
    case False
    have "s' k = v"
      by (rule Cons.IH [OF s1(2)]) (use Cons.prems False in \<open>simp_all, metis\<close>)
    then show ?thesis .
  qed
qed simp

definition stats_ready :: "('ht app_data, app_tag) active_apps_t \<Rightarrow> bool" where
  "stats_ready apps \<longleftrightarrow> num_apps apps \<le> 1024
     \<and> (\<forall>i<num_apps apps. handlers (apps_ctxt apps i) \<noteq> NoApp \<and> well_tagged (handlers (apps_ctxt apps i)) (app_context (apps_ctxt apps i))
          \<and> - (2 ^ 31) \<le> ctx_fid (apps_ctxt apps i) \<and> ctx_fid (apps_ctxt apps i) < 2 ^ 31
          \<and> st_num_samples (apps_stats apps i) \<le> MAX_TXSTAT_SAMPLES
          \<and> (\<forall>c. app_context (apps_ctxt apps i) = CacheData c \<longrightarrow> cc_num_samples c \<le> MAX_SAMPLES_CACHE))"

definition cache_file :: "nat \<Rightarrow> string" where
  "cache_file i = ''cache_rx_stats_'' @ dec i @ ''.csv''"

definition tx_file :: "int \<Rightarrow> string" where
  "tx_file fid = ''active_tx_stats_'' @ dec_int fid @ ''.csv''"

lemma file_names:
  "tx_file z \<noteq> cache_file i" "cache_file i \<noteq> tx_file z" "cache_file i = cache_file j \<longleftrightarrow> i = j" "tx_file y = tx_file z \<longleftrightarrow> y = z"
  by (auto simp: cache_file_def tx_file_def dest: dec_inj dec_int_inj)

lemma shutdown_handler_spec:
  assumes "stats_ready apps" "i < num_apps apps" "\<forall>f. can f"
  shows "\<exists>fs'. shutdown_handler can (handlers (apps_ctxt apps i)) (int i) (app_context (apps_ctxt apps i)) fs = Inr fs'
    \<and> (\<forall>c. handlers (apps_ctxt apps i) = CacheApp \<longrightarrow> app_context (apps_ctxt apps i) = CacheData c \<longrightarrow> 0 < cc_num_samples c \<longrightarrow>
         fs' (cache_file i) = Some (rows_text (cache_rows c)))
    \<and> (\<forall>k. k \<noteq> cache_file i \<longrightarrow> fs' k = fs k)"
proof -
  have r: "handlers (apps_ctxt apps i) \<noteq> NoApp" "well_tagged (handlers (apps_ctxt apps i)) (app_context (apps_ctxt apps i))" "i \<le> 1024"
    "\<forall>c. app_context (apps_ctxt apps i) = CacheData c \<longrightarrow> cc_num_samples c \<le> MAX_SAMPLES_CACHE"
    using assms(1,2) by (auto simp: stats_ready_def)
  have "stats_filename ''cache_rx_stats_'' (int i) = Inr (cache_file i)"
    using filename_ok [of "''cache_rx_stats_''" "int i"] r(3) by (simp add: dec_int_def cache_file_def)
  then show ?thesis
    using r assms(3) by (cases "handlers (apps_ctxt apps i)") (auto simp: shutdown_cache_def write_rows_def not_less [symmetric])
qed

lemma write_tx_stats_spec:
  assumes "stats_ready apps" "i < num_apps apps" "\<forall>f. can f"
  shows "\<exists>fs'. write_tx_stats can apps i fs = Inr fs'
    \<and> (0 < st_num_samples (apps_stats apps i) \<longrightarrow>
         fs' (tx_file (ctx_fid (apps_ctxt apps i))) = Some (rows_text (tx_rows (apps_stats apps i))))
    \<and> (\<forall>k. k \<noteq> tx_file (ctx_fid (apps_ctxt apps i)) \<longrightarrow> fs' k = fs k)"
proof -
  have r: "- (2 ^ 31) \<le> ctx_fid (apps_ctxt apps i)" "ctx_fid (apps_ctxt apps i) < 2 ^ 31" "st_num_samples (apps_stats apps i) \<le> MAX_TXSTAT_SAMPLES"
    using assms(1,2) by (auto simp: stats_ready_def)
  then have "stats_filename ''active_tx_stats_'' (ctx_fid (apps_ctxt apps i)) = Inr (tx_file (ctx_fid (apps_ctxt apps i)))"
    using filename_ok [of "''active_tx_stats_''" "ctx_fid (apps_ctxt apps i)"] by (simp add: tx_file_def)
  then show ?thesis using r(3) assms(3) by (simp add: write_tx_stats_def write_rows_def not_less [symmetric])
qed

lemma unat_64: "unat (x :: u64) < 18446744073709551616" "unat (y :: u32) < 18446744073709551616"
  using unsigned_less [of x, where ?'a = nat] unsigned_less [of y, where ?'a = nat] by simp_all

lemma rows_bounded:
  "read_rows (rows_text (cache_rows c)) = cache_rows c" "read_rows (rows_text (tx_rows st)) = tx_rows st"
  by (rule read_rows_text; auto simp: cache_rows_def tx_rows_def unat_64)+


lemma shutdown_contents:
  assumes "stats_ready apps" "inj_on (\<lambda>i. ctx_fid (apps_ctxt apps i)) {..<num_apps apps}" "\<forall>f. can f"
  shows "\<exists>fs'. active_client_shutdown can apps fs = Inr fs'
    \<and> (\<forall>i<num_apps apps. \<forall>c. handlers (apps_ctxt apps i) = CacheApp \<and> app_context (apps_ctxt apps i) = CacheData c \<and> 0 < cc_num_samples c \<longrightarrow>
         fs' (cache_file i) = Some (rows_text (cache_rows c)))
    \<and> (\<forall>i<num_apps apps. 0 < st_num_samples (apps_stats apps i) \<longrightarrow>
         fs' (tx_file (ctx_fid (apps_ctxt apps i))) = Some (rows_text (tx_rows (apps_stats apps i))))"
proof -
  let ?f = "\<lambda>i. shutdown_handler can (handlers (apps_ctxt apps i)) (int i) (app_context (apps_ctxt apps i))" and ?g = "write_tx_stats can apps"
  note f = shutdown_handler_spec [OF assms(1) _ assms(3)] and g = write_tx_stats_spec [OF assms(1) _ assms(3)]
  have ft: "\<exists>s'. ?f x s = Inr s'" if "x \<in> set [0..<num_apps apps]" for x s using f [of x s] that by auto
  have gt: "\<exists>s'. ?g x s = Inr s'" if "x \<in> set [0..<num_apps apps]" for x s using g [of x s] that by auto
  obtain fs1 where fs1: "fold_result ?f [0..<num_apps apps] fs = Inr fs1"
    using fold_result_total [of "[0..<num_apps apps]" ?f fs, OF ft] by blast
  obtain fs2 where fs2: "fold_result ?g [0..<num_apps apps] fs1 = Inr fs2"
    using fold_result_total [of "[0..<num_apps apps]" ?g fs1, OF gt] by blast
  have cache: "fs2 (cache_file i) = Some (rows_text (cache_rows c))"
    if i: "i < num_apps apps" "handlers (apps_ctxt apps i) = CacheApp" "app_context (apps_ctxt apps i) = CacheData c" "0 < cc_num_samples c" for i c
  proof -
    have "fs2 (cache_file i) = fs1 (cache_file i)"
    proof (rule fold_result_frame [OF fs2])
      fix x s s'
      assume "x \<in> set [0..<num_apps apps]" "?g x s = Inr s'"
      then show "s' (cache_file i) = s (cache_file i)" using g [of x s] by (auto simp: file_names)
    qed
    also have "\<dots> = Some (rows_text (cache_rows c))"
    proof (rule fold_result_writes [OF fs1])
      show "s2 (cache_file i) = Some (rows_text (cache_rows c))" if "?f i s1 = Inr s2" for s1 s2
        using f [OF i(1), of s1] i that by auto
      show "s2 (cache_file i) = s1 (cache_file i)"
        if "y \<in> set [0..<num_apps apps]" "y \<noteq> i" "?f y s1 = Inr s2" for y s1 s2
        using f [of y s1] that by (auto simp: file_names)
    qed (use i in auto)
    finally show ?thesis .
  qed
  have tx: "fs2 (tx_file (ctx_fid (apps_ctxt apps i))) = Some (rows_text (tx_rows (apps_stats apps i)))"
    if i: "i < num_apps apps" "0 < st_num_samples (apps_stats apps i)" for i
  proof (rule fold_result_writes [OF fs2])
    let ?k = "tx_file (ctx_fid (apps_ctxt apps i))"
    show "s2 ?k = Some (rows_text (tx_rows (apps_stats apps i)))" if "?g i s1 = Inr s2" for s1 s2
      using g [OF i(1), of s1] i that by auto
    show "s2 ?k = s1 ?k" if "y \<in> set [0..<num_apps apps]" "y \<noteq> i" "?g y s1 = Inr s2" for y s1 s2
    proof -
      have "ctx_fid (apps_ctxt apps i) \<noteq> ctx_fid (apps_ctxt apps y)" using inj_onD [OF assms(2), of i y] that i by auto
      then show ?thesis using g [of y s1] that by (auto simp: file_names)
    qed
  qed (use i in auto)
  show ?thesis
    using fs1 fs2 cache tx by (auto simp: active_client_shutdown_def write_active_tx_stats_def)
qed

text \<open>
  C28: at shutdown of the shim, whose applications have different identifiers, every file is written
  without an access out of bounds, and reading the files gives back the samples: those of every cache under the
  index of its application, and those of every application under its identifier.
\<close>

theorem shutdown_roundtrip:
  assumes "stats_ready apps" "inj_on (\<lambda>i. ctx_fid (apps_ctxt apps i)) {..<num_apps apps}" "\<forall>f. can f"
  shows "\<exists>fs'. active_client_shutdown can apps fs = Inr fs'
    \<and> (\<forall>i<num_apps apps. \<forall>c. handlers (apps_ctxt apps i) = CacheApp \<and> app_context (apps_ctxt apps i) = CacheData c \<and> 0 < cc_num_samples c \<longrightarrow>
         map_option read_rows (fs' (cache_file i)) = Some (map (\<lambda>k. [unat (cst_ts (cc_rx_stats c k)), unat (rx_hits (cc_rx_stats c k)), unat (rx_total (cc_rx_stats c k))]) [0..<cc_num_samples c]))
    \<and> (\<forall>i<num_apps apps. 0 < st_num_samples (apps_stats apps i) \<longrightarrow>
         map_option read_rows (fs' (tx_file (ctx_fid (apps_ctxt apps i)))) = Some (let st = apps_stats apps i in map (\<lambda>k. [unat (st_ts st k), unat (tx_active st k), unat (tx_total st k)]) [0..<st_num_samples st]))"
proof -
  obtain fs' where "active_client_shutdown can apps fs = Inr fs'"
    "\<forall>i<num_apps apps. \<forall>c. handlers (apps_ctxt apps i) = CacheApp \<and> app_context (apps_ctxt apps i) = CacheData c \<and> 0 < cc_num_samples c \<longrightarrow>
       fs' (cache_file i) = Some (rows_text (cache_rows c))"
    "\<forall>i<num_apps apps. 0 < st_num_samples (apps_stats apps i) \<longrightarrow>
       fs' (tx_file (ctx_fid (apps_ctxt apps i))) = Some (rows_text (tx_rows (apps_stats apps i)))"
    using shutdown_contents [OF assms] by blast
  then show ?thesis unfolding Let_def cache_rows_def [symmetric] tx_rows_def [symmetric] by (intro exI [of _ fs']) (auto simp: rows_bounded)
qed


subsection \<open>Port statistics\<close>

abbreviation (input) MAX_STATS_SAMPLES :: nat where "MAX_STATS_SAMPLES \<equiv> 1000"

record active_dpdk_stats_t =
  ds_rx_pkts :: "u64 arr"
  ds_tx_pkts :: "u64 arr"
  ds_ts :: "u64 arr"
  ds_num_samples :: nat

record port_monitor =
  pm_samples :: active_dpdk_stats_t
  pm_last_ipackets :: u64
  pm_last_opackets :: u64

definition port_monitor_init :: port_monitor where
  "port_monitor_init = \<lparr>pm_samples = \<lparr>ds_rx_pkts = (\<lambda>_. 0), ds_tx_pkts = (\<lambda>_. 0), ds_ts = (\<lambda>_. 0), ds_num_samples = 0\<rparr>,
     pm_last_ipackets = 0, pm_last_opackets = 0\<rparr>"

text \<open>One round of \<open>lcore_stats\<close>: the counters of the port, if they could be read, and the nanoseconds since its start.\<close>

definition lcore_stats_round :: "(u64 \<times> u64) option \<times> u64 \<Rightarrow> port_monitor \<Rightarrow> port_monitor" where
  "lcore_stats_round r pm =
     (case r of (None, ns) \<Rightarrow> pm
      | (Some (ipackets, opackets), ns) \<Rightarrow>
          (let samples = pm_samples pm; n = ds_num_samples samples;
               samples = (if n < MAX_STATS_SAMPLES
                 then samples\<lparr>ds_ts := (ds_ts samples)(n := ns),
                        ds_rx_pkts := (ds_rx_pkts samples)(n := ipackets - pm_last_ipackets pm),
                        ds_tx_pkts := (ds_tx_pkts samples)(n := opackets - pm_last_opackets pm), ds_num_samples := Suc n\<rparr>
                 else samples)
           in \<lparr>pm_samples = samples, pm_last_ipackets = ipackets, pm_last_opackets = opackets\<rparr>))"

text \<open>The thread, until the process stops; it returns \<open>-1\<close> when the file cannot be opened.\<close>

definition lcore_stats :: "(string \<Rightarrow> bool) \<Rightarrow> int \<Rightarrow> ((u64 \<times> u64) option \<times> u64) list \<Rightarrow> files \<Rightarrow> (int \<times> files) c_result" where
  "lcore_stats can port rounds fs =
     (let samples = pm_samples (fold lcore_stats_round rounds port_monitor_init) in
      bind_result (stats_filename ''dpdk_ap4_stats_'' port)
        (\<lambda>f. if can f then Inr (0, fs(f \<mapsto> rows_text (map (\<lambda>i. [unat (ds_ts samples i), unat (ds_rx_pkts samples i), unat (ds_tx_pkts samples i)])
               [0..<ds_num_samples samples])))
             else Inr (- 1, fs)))"

definition readings :: "((u64 \<times> u64) option \<times> u64) list \<Rightarrow> (u64 \<times> u64 \<times> u64) list" where
  "readings rs = List.map_filter (\<lambda>(r, ns). map_option (\<lambda>(i, o'). (ns, i, o')) r) rs"

lemma readings_snoc: "readings (rs @ [(None, ns)]) = readings rs" "readings (rs @ [(Some (i, j), ns)]) = readings rs @ [(ns, i, j)]"
  by (simp_all add: readings_def map_filter_def)

definition monitor_inv :: "(u64 \<times> u64 \<times> u64) list \<Rightarrow> port_monitor \<Rightarrow> bool" where
  "monitor_inv rds pm \<longleftrightarrow> ds_num_samples (pm_samples pm) = min MAX_STATS_SAMPLES (length rds)
     \<and> pm_last_ipackets pm = (if rds = [] then 0 else fst (snd (last rds))) \<and> pm_last_opackets pm = (if rds = [] then 0 else snd (snd (last rds)))
     \<and> (\<forall>k<ds_num_samples (pm_samples pm). ds_ts (pm_samples pm) k = fst (rds ! k)
          \<and> (\<Sum>i\<le>k. ds_rx_pkts (pm_samples pm) i) = fst (snd (rds ! k)) \<and> (\<Sum>i\<le>k. ds_tx_pkts (pm_samples pm) i) = snd (snd (rds ! k)))"

lemma sum_upd_above: "k < (n :: nat) \<Longrightarrow> (\<Sum>i\<le>k. (f(n := x)) i) = (\<Sum>i\<le>k. f i :: u64)"
  by (intro sum.cong) auto

lemma sum_upd_here: "(\<Sum>i\<le>(n :: nat). (f(n := x)) i) = (\<Sum>i<n. f i) + (x :: u64)"
proof -
  have "(\<Sum>i<n. (f(n := x)) i) = (\<Sum>i<n. f i)" by (intro sum.cong) auto
  then show ?thesis by (simp add: lessThan_Suc_atMost [symmetric])
qed

lemma monitor_inv_round:
  assumes "monitor_inv rds pm"
  shows "monitor_inv (rds @ [(ns, i, j)]) (lcore_stats_round (Some (i, j), ns) pm)"
proof -
  let ?s = "pm_samples pm" and ?n = "ds_num_samples (pm_samples pm)"
  have inv: "?n = min 1000 (length rds)" "\<forall>k<?n. ds_ts ?s k = fst (rds ! k) \<and> (\<Sum>i\<le>k. ds_rx_pkts ?s i) = fst (snd (rds ! k)) \<and> (\<Sum>i\<le>k. ds_tx_pkts ?s i) = snd (snd (rds ! k))"
    "pm_last_ipackets pm = (if rds = [] then 0 else fst (snd (last rds)))" "pm_last_opackets pm = (if rds = [] then 0 else snd (snd (last rds)))"
    using assms by (auto simp: monitor_inv_def)
  have tot: "(\<Sum>i<?n. ds_rx_pkts ?s i) = pm_last_ipackets pm" "(\<Sum>i<?n. ds_tx_pkts ?s i) = pm_last_opackets pm" if "?n < 1000"
  proof -
    have "?n = length rds" using inv(1) that by simp
    then have "(\<Sum>i<?n. ds_rx_pkts ?s i) = pm_last_ipackets pm \<and> (\<Sum>i<?n. ds_tx_pkts ?s i) = pm_last_opackets pm"
      using inv(2-4) by (cases rds rule: rev_cases) (auto simp: lessThan_Suc_atMost)
    then show "(\<Sum>i<?n. ds_rx_pkts ?s i) = pm_last_ipackets pm" "(\<Sum>i<?n. ds_tx_pkts ?s i) = pm_last_opackets pm" by auto
  qed
  show ?thesis
  proof (cases "?n < 1000")
    case True
    then have "length rds = ?n" using inv(1) by simp
    then show ?thesis
      using True inv(2) tot [OF True]
      by (auto simp: monitor_inv_def lcore_stats_round_def Let_def nth_append less_Suc_eq sum_upd_above sum_upd_here fun_upd_same fun_upd_other simp del: fun_upd_apply)
  next
    case False
    then show ?thesis using inv by (auto simp: monitor_inv_def lcore_stats_round_def Let_def nth_append)
  qed
qed

lemma monitor_inv_fold: "monitor_inv (readings rounds) (fold lcore_stats_round rounds port_monitor_init)"
proof (induction rounds rule: rev_induct)
  case Nil
  then show ?case by (simp add: monitor_inv_def readings_def port_monitor_init_def map_filter_def)
next
  case (snoc r rs)
  obtain x ns where r: "r = (x, ns)" by force
  show ?case
  proof (cases x)
    case None
    then show ?thesis using snoc r by (simp add: readings_snoc lcore_stats_round_def)
  next
    case (Some ij)
    then show ?thesis using monitor_inv_round [OF snoc, of ns "fst ij" "snd ij"] r readings_snoc(2) [of rs "fst ij" "snd ij" ns] by simp
  qed
qed


text \<open>
  C35: the samples of \<open>lcore_stats\<close> are the increments of the port's counters: the first \<open>k\<close> samples add
  up, in 64 bits, to the \<open>k\<close>-th reading; every successful reading is a sample until the array is full, and the rows of
  the file are the samples.
\<close>

theorem lcore_stats_records:
  assumes "- (2 ^ 31) \<le> port" "port < 2 ^ 31" "can (''dpdk_ap4_stats_'' @ dec_int port @ ''.csv'')"
  shows "\<exists>fs' rows. lcore_stats can port rounds fs = Inr (0, fs')
    \<and> map_option read_rows (fs' (''dpdk_ap4_stats_'' @ dec_int port @ ''.csv'')) = Some rows
    \<and> length rows = min MAX_STATS_SAMPLES (length (readings rounds))
    \<and> (\<forall>k<length rows. rows ! k ! 0 = unat (fst (readings rounds ! k))
         \<and> of_nat (\<Sum>i\<le>k. rows ! i ! 1) = fst (snd (readings rounds ! k)) \<and> of_nat (\<Sum>i\<le>k. rows ! i ! 2) = snd (snd (readings rounds ! k)))"
proof -
  let ?s = "pm_samples (fold lcore_stats_round rounds port_monitor_init)"
  let ?rows = "map (\<lambda>i. [unat (ds_ts ?s i), unat (ds_rx_pkts ?s i), unat (ds_tx_pkts ?s i)]) [0..<ds_num_samples ?s]"
  have written: "lcore_stats can port rounds fs = Inr (0, fs(''dpdk_ap4_stats_'' @ dec_int port @ ''.csv'' \<mapsto> rows_text ?rows))"
    using filename_ok [of "''dpdk_ap4_stats_''" port] assms by (simp add: lcore_stats_def Let_def)
  have read: "read_rows (rows_text ?rows) = ?rows" by (rule read_rows_text) (auto simp: unat_64)
  have inv: "monitor_inv (readings rounds) (fold lcore_stats_round rounds port_monitor_init)" by (rule monitor_inv_fold)
  have sums: "of_nat (\<Sum>i\<le>k. ?rows ! i ! 1) = (\<Sum>i\<le>k. ds_rx_pkts ?s i)" "of_nat (\<Sum>i\<le>k. ?rows ! i ! 2) = (\<Sum>i\<le>k. ds_tx_pkts ?s i)"
    if "k < ds_num_samples ?s" for k
    using that by (auto simp: of_nat_sum intro!: sum.cong)
  show ?thesis
    using written read inv sums by (intro exI [of _ "fs(''dpdk_ap4_stats_'' @ dec_int port @ ''.csv'' \<mapsto> rows_text ?rows)"] exI [of _ ?rows])
      (auto simp: monitor_inv_def)
qed

subsection \<open>The list of stages in the log\<close>

text \<open>\<open>sprintf\<close> writes the characters and a terminating zero, and returns the number of characters.\<close>

fun put_string :: "nat \<Rightarrow> string \<Rightarrow> char arr \<Rightarrow> char arr" where
  "put_string pos [] b = b(pos := CHR 0x00)"
| "put_string pos (c # cs) b = put_string (Suc pos) cs (b(pos := c))"

fun rw_stages :: "memory_t \<Rightarrow> nat list \<Rightarrow> nat \<times> char arr \<Rightarrow> nat \<times> char arr" where
  "rw_stages mem [] st = st"
| "rw_stages mem (i # is) (pos, b) =
     (if valid_stages mem i = 0 \<or> syncmap mem i = 0 then rw_stages mem is (pos, b)
      else rw_stages mem is (pos + length (dec i @ '' ''), put_string pos (dec i @ '' '') b))"

definition get_rw_stages_str :: "('a, 'h) activep4_context_t \<Rightarrow> char arr \<Rightarrow> char arr" where
  "get_rw_stages_str ctxt stages_str = snd (rw_stages (allocation ctxt) [0..<NUM_STAGES] (0, stages_str))"

definition stages_text :: "memory_t \<Rightarrow> nat list \<Rightarrow> string" where
  "stages_text mem is = concat (map (\<lambda>i. dec i @ '' '') (filter (\<lambda>i. valid_stages mem i \<noteq> 0 \<and> syncmap mem i \<noteq> 0) is))"

lemma stages_text_simps [simp]:
  "stages_text mem [] = []"
  "stages_text mem (i # is) = (if valid_stages mem i \<noteq> 0 \<and> syncmap mem i \<noteq> 0 then dec i @ '' '' else []) @ stages_text mem is"
  by (simp_all add: stages_text_def)

lemma put_string_spec:
  "put_string pos cs b = (\<lambda>k. if pos \<le> k \<and> k < pos + length cs then cs ! (k - pos) else if k = pos + length cs then CHR 0x00 else b k)"
proof (induction cs arbitrary: pos b)
  case (Cons c cs)
  then show ?case by (auto simp: fun_eq_iff nth_Cons' le_Suc_eq Suc_le_eq)
qed (auto simp: fun_eq_iff)

lemma put_string_append: "put_string (pos + length xs) ys (put_string pos xs b) = put_string pos (xs @ ys) b"
  by (auto simp: put_string_spec fun_eq_iff nth_append)

lemma rw_stages_spec:
  "rw_stages mem is (pos + length xs, put_string pos xs b) = (pos + length (xs @ stages_text mem is), put_string pos (xs @ stages_text mem is) b)"
proof (induction "is" arbitrary: xs)
  case (Cons i "is")
  show ?case
    using Cons [of xs] Cons [of "xs @ dec i @ '' ''"] put_string_append [of pos xs "dec i @ '' ''" b] by (simp add: add.assoc)
qed simp

lemma rw_stages_start:
  "rw_stages mem is (pos, b) = (if stages_text mem is = [] then (pos, b) else (pos + length (stages_text mem is), put_string pos (stages_text mem is) b))"
proof (induction "is")
  case (Cons i "is")
  show ?case
    using Cons rw_stages_spec [of mem "is" pos "dec i @ '' ''" b] by simp
qed simp

lemma stages_text_length: "length (stages_text mem [0..<NUM_STAGES]) \<le> 50"
proof -
  have le: "length (stages_text mem is) \<le> (\<Sum>i\<leftarrow>is. Suc (length (dec i)))" for "is"
    by (induction "is") auto
  have "(\<Sum>i\<leftarrow>[0..<NUM_STAGES]. Suc (length (dec i))) = 50" by (simp add: upt_rec dec.simps)
  with le [of "[0..<NUM_STAGES]"] show ?thesis by simp
qed

text \<open>
  The list of stages fits the buffer of one hundred characters that the control thread gives it, whatever the
  allocation.  If any stage is to be read the buffer then holds the list as a string; if none
  is, the buffer is left as it was, and the log line prints what it held before.
\<close>

theorem rw_stages_str_bounds:
  "(\<forall>k\<ge>51. get_rw_stages_str ctxt b k = b k)
   \<and> (if \<exists>i<NUM_STAGES. scan_stage Snap ctxt i
      then takeWhile (\<lambda>c. c \<noteq> CHR 0x00) (map (get_rw_stages_str ctxt b) [0..<100]) = stages_text (allocation ctxt) [0..<NUM_STAGES]
      else get_rw_stages_str ctxt b = b)"
proof -
  let ?t = "stages_text (allocation ctxt) [0..<NUM_STAGES]"
  have len: "length ?t \<le> 50" by (rule stages_text_length)
  have str: "get_rw_stages_str ctxt b = (if ?t = [] then b else put_string 0 ?t b)"
    by (simp add: get_rw_stages_str_def rw_stages_start)
  have some: "(\<exists>i<NUM_STAGES. scan_stage Snap ctxt i) \<longleftrightarrow> ?t \<noteq> []"
    by (auto simp: stages_text_def filter_empty_conv)
  have nz: "c \<noteq> CHR 0x00" if "c \<in> set ?t" for c
  proof -
    have "set (stages_text mem is) \<subseteq> insert (CHR '' '') (\<Union>i. set (dec i))" for mem "is" by (induction "is") auto
    with that show ?thesis using dec_chars [of c] by (fastforce simp: is_digit_def)
  qed
  have "takeWhile (\<lambda>c. c \<noteq> CHR 0x00) (map (put_string 0 ?t b) [0..<100]) = ?t"
  proof -
    have "map (put_string 0 ?t b) [0..<100] = map ((!) ?t) [0..<length ?t] @ CHR 0x00 # map b [Suc (length ?t)..<100]"
      using len by (intro nth_equalityI) (auto simp: put_string_spec nth_append nth_Cons')
    then show ?thesis using nz by (simp add: map_nth takeWhile_append)
  qed
  then show ?thesis using len unfolding some str by (auto simp: put_string_spec)
qed


subsection \<open>Examples\<close>

definition demo_report_apps :: "(unit app_data, app_tag) active_apps_t" where
  "demo_report_apps = \<lparr>num_apps = 1,
     apps_ctxt = (\<lambda>_. zero_ctxt\<lparr>ctx_fid := 1, handlers := CacheApp,
       app_context := CacheData (zero_cache\<lparr>cc_rx_stats := (\<lambda>_. \<lparr>cst_ts = 12, rx_hits = 3, rx_total = 4\<rparr>), cc_num_samples := 1\<rparr>)\<rparr>),
     apps_stats = (\<lambda>_. \<lparr>tx_active = (\<lambda>_. 5), tx_total = (\<lambda>_. 60), st_ts = (\<lambda>_. 700), st_ts_ref = 0, st_ts_last = 0, st_num_samples = 1\<rparr>),
     apps_app_id = (\<lambda>_. 0)\<rparr>"

theorem shutdown_roundtrip_witness:
  "\<exists>fs. active_client_shutdown (\<lambda>_. True) demo_report_apps Map.empty = Inr fs
     \<and> map_option read_rows (fs (cache_file 0)) = Some [[12, 3, 4]] \<and> map_option read_rows (fs (tx_file 1)) = Some [[700, 5, 60]]"
proof -
  have "stats_ready demo_report_apps" by (simp add: stats_ready_def demo_report_apps_def)
  moreover have "inj_on (\<lambda>i. ctx_fid (apps_ctxt demo_report_apps i)) {..<num_apps demo_report_apps}"
    by (simp add: demo_report_apps_def inj_on_def)
  ultimately show ?thesis
    using shutdown_roundtrip [of demo_report_apps "\<lambda>_. True" Map.empty]
    by (auto simp: demo_report_apps_def Let_def)
qed

theorem lcore_stats_records_witness:
  "\<exists>fs rows. lcore_stats (\<lambda>_. True) 1 [(Some (10, 20), 5), (None, 6), (Some (25, 22), 7)] Map.empty = Inr (0, fs) \<and> length rows = 2
     \<and> map_option read_rows (fs (''dpdk_ap4_stats_'' @ dec_int 1 @ ''.csv'')) = Some rows"
  using lcore_stats_records [of 1 "\<lambda>_. True" "[(Some (10, 20), 5), (None, 6), (Some (25, 22), 7)]" Map.empty]
  by (auto simp: readings_def map_filter_def)

theorem rw_stages_str_bounds_witness:
  "takeWhile (\<lambda>c. c \<noteq> CHR 0x00) (map (get_rw_stages_str demo_sync_ctxt (\<lambda>_. CHR ''x'')) [0..<100]) = stages_text (allocation demo_sync_ctxt) [0..<NUM_STAGES]"
proof -
  have "\<exists>i<NUM_STAGES. scan_stage Snap demo_sync_ctxt i"
    by (rule exI [of _ 4]) (simp add: demo_sync_ctxt_def demo_memory_def)
  then show ?thesis using rw_stages_str_bounds [of demo_sync_ctxt "\<lambda>_. CHR ''x''"] by simp
qed

end
