(* ===== verification/AP4_Start.thy ===== *)
theory AP4_Start
  imports AP4_Iface AP4_Pktgen AP4_Posix
begin

text \<open>
  How the programs without DPDK start and stop: the rings of \<open>common/activep4_netutils.h\<close> with what is
  mapped, bound and released, the prologue of \<open>run_tunnel\<close> (\<open>common/activep4_tunnel.h\<close>), \<open>rx_tx_init\<close> of
  the packet generator, the address of an interface in \<open>dpdk/utils.h\<close>, and \<open>main\<close> of the POSIX client.
  Results of system calls are arguments, and the frame sizes that follow from constants of the
  kernel's headers are parameters.
\<close>

subsection \<open>Rings\<close>

record ring_sys =
  sy_socket :: int
  sy_version :: int
  sy_setring :: "tpacket_req3 \<Rightarrow> int"
  sy_bind :: "int \<Rightarrow> int"
  sy_mmap :: "nat \<Rightarrow> nat option"
  sy_malloc :: "nat \<Rightarrow> nat option"
  sy_pagesize :: nat
  sy_phys_pages :: nat

text \<open>\<open>rg_rd\<close> is the table of blocks, as positions and lengths, and \<open>rg_table\<close> where it was allocated.\<close>

record ring_t =
  rg_sockfd :: int
  rg_rd :: "(nat \<times> nat) list"
  rg_table :: nat
  rg_req :: tpacket_req3
  rg_ring_size :: nat
  rg_ring_buffer :: nat

definition map_ring :: "ring_sys \<Rightarrow> tpacket_req3 \<Rightarrow> nat \<Rightarrow> ring_t c_result" where
  "map_ring sys req len =
     (case sy_mmap sys len of None \<Rightarrow> Inl ExitFailure
      | Some buf \<Rightarrow> (case sy_malloc sys (tp_block_nr req * 16) of None \<Rightarrow> Inl ExitFailure
        | Some table \<Rightarrow> Inr \<lparr>rg_sockfd = sy_socket sys, rg_rd = mmap_blocks buf (tp_block_size req) (tp_block_nr req), rg_table = table,
            rg_req = req, rg_ring_size = len, rg_ring_buffer = buf\<rparr>))"

definition setup_rx_ring :: "nat \<Rightarrow> ring_sys \<Rightarrow> ring_t c_result" where
  "setup_rx_ring frame_size sys =
     (if sy_socket sys < 0 then Inl ExitFailure
      else if sy_version sys < 0 then Inl ExitFailure
      else bind_result (setup_ring frame_size (sy_pagesize sys) (sy_phys_pages sys)) (\<lambda>(req, len).
        if sy_setring sys req < 0 then Inl ExitFailure else map_ring sys req len))"

definition setup_tx_ring :: "nat \<Rightarrow> ring_sys \<Rightarrow> int \<Rightarrow> ring_t c_result" where
  "setup_tx_ring frame_size sys iface_index =
     (if sy_socket sys < 0 then Inl ExitFailure
      else if sy_version sys < 0 then Inl ExitFailure
      else bind_result (setup_ring frame_size (sy_pagesize sys) (sy_phys_pages sys)) (\<lambda>(req, len).
        if sy_setring sys req < 0 then Inl ExitFailure
        else if sy_bind sys iface_index < 0 then Inl ExitFailure
        else map_ring sys req len))"

datatype resource = Fd int | Mapping nat nat | Heap nat

text \<open>What a ring holds, and what the teardown of a port releases.\<close>

definition ring_resources :: "ring_t \<Rightarrow> resource list" where
  "ring_resources r = [Fd (rg_sockfd r), Mapping (rg_ring_buffer r) (rg_ring_size r), Heap (rg_table r)]"

definition port_teardown_mmap :: "ring_t \<Rightarrow> ring_t \<Rightarrow> resource list" where
  "port_teardown_mmap rx tx =
     [Mapping (rg_ring_buffer rx) (rg_ring_size rx), Mapping (rg_ring_buffer tx) (rg_ring_size tx),
      Heap (rg_table rx), Heap (rg_table tx), Fd (rg_sockfd rx), Fd (rg_sockfd tx)]"

text \<open>One round of \<open>tx_mmap_loop\<close>: the result of \<open>select\<close>, and the bytes the kernel was made to send.\<close>

definition tx_mmap_round :: "int \<Rightarrow> bool \<Rightarrow> bool \<Rightarrow> int \<Rightarrow> int c_result" where
  "tx_mmap_round ret eintr writable bytes_sent =
     (if ret < 0 \<and> eintr then Inr 0
      else if ret < 0 then Inl ExitFailure
      else if \<not> writable then Inr 0
      else if bytes_sent < 0 then Inl ExitFailure
      else Inr bytes_sent)"

text \<open>
  \<open>busy_wait\<close> over the readings of the clock after the first, which is \<open>start\<close>: how many of them it takes, if it
  returns on them.
\<close>

fun busy_wait_loop :: "u64 \<Rightarrow> timespec \<Rightarrow> u64 \<Rightarrow> timespec list \<Rightarrow> nat option" where
  "busy_wait_loop duration_ns start elapsed [] = (if elapsed < duration_ns then None else Some 0)"
| "busy_wait_loop duration_ns start elapsed (now # ts) =
     (if elapsed < duration_ns then map_option Suc (busy_wait_loop duration_ns start (word_of_int (elapsed_ns now start)) ts) else Some 0)"

definition busy_wait :: "u64 \<Rightarrow> timespec \<Rightarrow> timespec list \<Rightarrow> nat option" where
  "busy_wait duration_ns start ts = busy_wait_loop duration_ns start 0 ts"

subsection \<open>Interfaces, the tunnel and the packet generator\<close>

definition get_iface_ipv4_addr :: "int \<Rightarrow> iface_ioctls \<Rightarrow> string \<Rightarrow> u32 c_result" where
  "get_iface_ipv4_addr sockfd io dev =
     (if sockfd < 0 then Inl ExitFailure
      else if \<not> length dev < IFNAMSIZ then Inl ExitFailure
      else case SIOCGIFADDR io dev of None \<Rightarrow> Inl ExitFailure | Some addr \<Rightarrow> Inr addr)"

text \<open>
  \<open>allocate_tun\<close>: the descriptor of the clone device, and the answer of \<open>TUNSETIFF\<close> to the requested
  name, with the name that the kernel chose.  \<open>strncpy\<close> cuts the name, and an empty one is not copied.
\<close>

definition allocate_tun :: "int \<Rightarrow> (string \<Rightarrow> int \<times> string) \<Rightarrow> string \<Rightarrow> int \<times> string" where
  "allocate_tun fd tunsetiff dev =
     (if fd < 0 then (fd, dev)
      else let (err, name) = tunsetiff (take IFNAMSIZ dev) in
        if err < 0 then (err, dev) else (fd, name))"

text \<open>The tunnel header has its own copy of \<open>get_iface\<close>, line by line the one of \<open>activep4_netutils.h\<close>.\<close>

definition tunnel_get_iface :: "iface_ioctls \<Rightarrow> string \<Rightarrow> devinfo_t c_result" where
  "tunnel_get_iface io dev =
     (if \<not> length dev < IFNAMSIZ then Inl ExitFailure
      else case SIOCGIFINDEX io dev of None \<Rightarrow> Inl ExitFailure
      | Some index \<Rightarrow> (case SIOCGIFHWADDR io dev of None \<Rightarrow> Inl ExitFailure
      | Some hwaddr \<Rightarrow> (case SIOCGIFADDR io dev of None \<Rightarrow> Inl ExitFailure
      | Some addr \<Rightarrow> Inr \<lparr>dv_iface_index = index, dv_hwaddr = take 6 hwaddr, dv_ipv4addr = addr\<rparr>)))"

record tunnel_sys =
  ts_tun_fd :: int
  ts_tunsetiff :: "string \<Rightarrow> int \<times> string"
  ts_sockfd :: int
  ts_sock_tun :: int
  ts_bind :: "int \<Rightarrow> int"
  ts_ioctls :: iface_ioctls
  ts_arp_file :: "string option"

text \<open>
  The prologue of \<open>run_tunnel\<close>: the name is copied to an array of \<open>IFNAMSIZ\<close> characters.  \<open>stale\<close> and \<open>cache\<close> are what the
  variables of \<open>get_arp_cache\<close> and the table hold before.
\<close>

definition tunnel_start :: "tunnel_sys \<Rightarrow> arp_entry_t \<Rightarrow> arp_entry_t arr \<Rightarrow> string \<Rightarrow> string \<Rightarrow> tunnel_cfg c_result" where
  "tunnel_start sys stale cache tun_iface eth_iface =
     (if IFNAMSIZ \<le> length tun_iface then Inl OutOfBounds
      else if fst (allocate_tun (ts_tun_fd sys) (ts_tunsetiff sys) tun_iface) < 0 then Inl ExitFailure
      else if ts_sockfd sys < 0 then Inl ExitFailure
      else bind_result (tunnel_get_iface (ts_ioctls sys) eth_iface) (\<lambda>dev_info.
        if ts_sock_tun sys < 0 then Inl ExitFailure
        else bind_result (tunnel_get_iface (ts_ioctls sys) tun_iface) (\<lambda>tun_info.
             bind_result (get_arp_cache stale (ts_arp_file sys) cache eth_iface) (\<lambda>(arp, n).
               if ts_bind sys (dv_iface_index dev_info) = - 1 then Inl ExitFailure
               else Inr \<lparr>tn_hwaddr = dv_hwaddr dev_info, tn_ipv4addr = dv_ipv4addr tun_info, tn_arp = arp\<rparr>))))"

text \<open>
  The source address is copied as text, to an array of \<open>IPADDRSIZE\<close> characters.  The header relies on
  \<open>get_iface\<close> of the header included before it.
\<close>

definition rx_tx_init ::
  "iface_ioctls \<Rightarrow> (string \<Rightarrow> u32) \<Rightarrow> u16 \<Rightarrow> int \<Rightarrow> (int \<Rightarrow> int) \<Rightarrow> string \<Rightarrow> string \<Rightarrow> string \<Rightarrow> u8 list \<Rightarrow> pktgen c_result" where
  "rx_tx_init io inet_addr rand sockfd bnd eth_iface src_text dst_text eth_dstmac =
     (if 16 \<le> length src_text then Inl OutOfBounds
      else if sockfd < 0 then Inl ExitFailure
      else bind_result (get_iface io eth_iface) (\<lambda>dev_info.
        if bnd (dv_iface_index dev_info) = - 1 then Inl ExitFailure
        else Inr \<lparr>pg_hwaddr = dv_hwaddr dev_info, pg_eth_dst = take 6 eth_dstmac, pg_ipv4_src = inet_addr src_text,
               pg_ipv4_dst = inet_addr dst_text, pg_ip_id = rand\<rparr>))"

subsection \<open>The POSIX client\<close>

abbreviation (input) POSIX_MAX_APPS :: nat where "POSIX_MAX_APPS \<equiv> 1024"
abbreviation (input) DPORT :: nat where "DPORT \<equiv> 5678"

record posix_instance =
  pi_fid :: u16
  pi_sockfd :: int
  pi_addr :: u32
  pi_port :: u16
  pi_dist :: "u64 list"
  pi_rx_cpu :: nat
  pi_tx_cpu :: nat

record posix_sys =
  pp_socket :: "nat \<Rightarrow> int"
  pp_connect :: "nat \<Rightarrow> int"
  pp_rx_thread :: "nat \<Rightarrow> int"
  pp_tx_thread :: "nat \<Rightarrow> int"
  pp_monitor :: int

text \<open>One round of the loop that starts the instances.\<close>

definition posix_instance_start :: "posix_sys \<Rightarrow> u32 \<Rightarrow> u64 list \<Rightarrow> nat \<Rightarrow> posix_instance c_result" where
  "posix_instance_start sys addr dist i =
     (if pp_socket sys i < 0 then Inl ExitFailure
      else if pp_connect sys i < 0 then Inl ExitFailure
      else if pp_rx_thread sys i < 0 then Inl ExitFailure
      else if pp_tx_thread sys i < 0 then Inl ExitFailure
      else Inr \<lparr>pi_fid = of_nat (i + 1), pi_sockfd = pp_socket sys i, pi_addr = addr, pi_port = htons (of_nat (DPORT + i)), pi_dist = dist,
             pi_rx_cpu = i + 10 + 1, pi_tx_cpu = i + 10\<rparr>)"

fun posix_instances :: "posix_sys \<Rightarrow> u32 \<Rightarrow> u64 list \<Rightarrow> nat list \<Rightarrow> posix_instance list c_result" where
  "posix_instances sys addr dist [] = Inr []"
| "posix_instances sys addr dist (i # is) =
     bind_result (posix_instance_start sys addr dist i) (\<lambda>c. bind_result (posix_instances sys addr dist is) (\<lambda>cs. Inr (c # cs)))"

text \<open>\<open>main\<close> up to the point where it waits for its threads; the arguments without the name of the program.\<close>

definition posix_main :: "posix_sys \<Rightarrow> (string \<Rightarrow> u32) \<Rightarrow> (string \<Rightarrow> string option) \<Rightarrow> string list \<Rightarrow> posix_instance list c_result" where
  "posix_main sys inet_addr txt args =
     (if length args < 2 then Inl ExitFailure
      else let num_instances = (if 2 < length args then atoi (args ! 2) else 1);
               num_instances = (if int POSIX_MAX_APPS < num_instances then int POSIX_MAX_APPS else num_instances) in
        bind_result (read_dist (txt (args ! 1))) (\<lambda>dist.
          if pp_monitor sys < 0 then Inl ExitFailure
          else posix_instances sys (inet_addr (args ! 0)) dist [0..<nat num_instances]))"


subsection \<open>A ring is tiled by its blocks\<close>

lemma setup_ring_exact:
  assumes "setup_ring frame_size pagesize phys_pages = Inr (req, len)" "0 < frame_size" "0 < pagesize" "pagesize \<le> 2 ^ 24" "frame_size \<le> 2 ^ 24"
    and "phys_pages * pagesize < 2 ^ 32 * 128"
  shows "tp_block_nr req * tp_block_size req = len \<and> tp_frame_size req = frame_size \<and> frame_size \<le> tp_block_size req
    \<and> tp_frame_nr req = tp_block_size req div frame_size * tp_block_nr req"
proof -
  obtain B where B: "grow_block_size frame_size pagesize = Inr B" "frame_size \<le> B" "0 < B"
    using grow_block_size_ok [OF assms(3), of frame_size] assms(3) by auto
  have Bmax: "B < 2 ^ 25" using grow_block_size_le [OF B(1)] assms(4,5) by simp
  define nr where "nr = phys_pages * pagesize div (128 * B) mod 2 ^ 32"
  have "nr \<le> phys_pages * pagesize div (128 * B)" by (simp add: nr_def)
  then have "128 * B * nr \<le> phys_pages * pagesize" by (metis B(3) div_times_less_eq_dividend le_trans mult.commute mult_le_mono2)
  with assms(6) have "128 * (B * nr) < 128 * 2 ^ 32" by (simp add: mult.assoc)
  then have wrap: "B * nr < 2 ^ 32" by simp
  have "B div frame_size * nr \<le> B * nr" by (intro mult_le_mono1) simp
  then have "B div frame_size * nr < 2 ^ 32" using wrap by (rule le_less_trans)
  then show ?thesis
    using assms(1) B(1,2) Bmax wrap by (auto simp: setup_ring_def Let_def nr_def mult.commute)
qed

definition ring_tiled :: "ring_t \<Rightarrow> bool" where
  "ring_tiled r \<longleftrightarrow>
     (let req = rg_req r; n = tp_block_nr req; B = tp_block_size req; F = tp_frame_size req in
      length (rg_rd r) = n \<and> n * B = rg_ring_size r
      \<and> (\<forall>i<n. rg_rd r ! i = (rg_ring_buffer r + i * B, B))
      \<and> (\<forall>i<tp_frame_nr req. let b = i div (B div F) in b < n
           \<and> fst (rg_rd r ! b) \<le> rg_ring_buffer r + frame_offset req i
           \<and> rg_ring_buffer r + frame_offset req i + F \<le> fst (rg_rd r ! b) + snd (rg_rd r ! b)))"

lemma map_ring_tiled:
  assumes "map_ring sys req len = Inr r" "setup_ring frame_size pagesize phys_pages = Inr (req, len)" "0 < frame_size" "0 < pagesize"
    and "pagesize \<le> 2 ^ 24" "frame_size \<le> 2 ^ 24" "phys_pages * pagesize < 2 ^ 32 * 128"
  shows "ring_tiled r"
proof -
  note ex = setup_ring_exact [OF assms(2-7)]
  obtain buf where r: "rg_req r = req" "rg_ring_size r = len" "rg_ring_buffer r = buf" "rg_rd r = mmap_blocks buf (tp_block_size req) (tp_block_nr req)"
    using assms(1) by (auto simp: map_ring_def split: option.splits)
  define B n F where "B = tp_block_size req" and "n = tp_block_nr req" and "F = tp_frame_size req"
  have len: "len < 2 ^ 32" using assms(2) by (auto simp: setup_ring_def bind_result_Inr_iff Let_def)
  have wrapless: "i * B mod 2 ^ 32 = i * B" if "i < n" for i
  proof -
    have "i * B \<le> n * B" using that by simp
    also have "\<dots> < 2 ^ 32" using ex len by (simp add: B_def n_def)
    finally show ?thesis by (rule mod_less)
  qed
  have F: "0 < F" "F \<le> B" "0 < B div F" using ex assms(3) by (auto simp: F_def B_def div_greater_zero_iff)
  have frame: "i div (B div F) < n \<and> frame_offset req i = i div (B div F) * B + i mod (B div F) * F \<and> i mod (B div F) * F + F \<le> B"
    if "i < tp_frame_nr req" for i
  proof -
    have "i < n * (B div F)" using that ex by (simp add: F_def B_def n_def mult.commute)
    then have n: "i div (B div F) < n" using F(3) by (simp add: div_less_iff_less_mult)
    have "Suc (i mod (B div F)) * F \<le> B div F * F" using F(3) by (intro mult_le_mono1) (simp add: Suc_le_eq)
    also have "\<dots> \<le> B" by simp
    finally have "i mod (B div F) * F + F \<le> B" by simp
    with n show ?thesis by (simp add: frame_offset_def Let_def F_def B_def)
  qed
  have blocks: "rg_rd r = map (\<lambda>i. (buf + i * B, B)) [0..<n]"
    unfolding r mmap_blocks_def B_def [symmetric] n_def [symmetric] by (rule map_cong [OF refl]) (simp only: wrapless set_upt atLeastLessThan_iff)
  show ?thesis
    using ex frame blocks [unfolded r] unfolding ring_tiled_def Let_def r F_def [symmetric] B_def [symmetric] n_def [symmetric]
    by auto
qed



subsection \<open>Waiting\<close>

text \<open>The wait ends with the first reading of the clock at which enough time has passed, and only then.\<close>

lemma busy_wait_loop_returns:
  "(\<exists>n. busy_wait_loop d start e ts = Some n) \<longleftrightarrow> d \<le> e \<or> (\<exists>t\<in>set ts. d \<le> word_of_int (elapsed_ns t start))"
  by (induction ts arbitrary: e) (auto simp: not_less)

lemma busy_wait_loop_time:
  "busy_wait_loop d start e ts = Some n \<Longrightarrow> n \<le> length ts \<and> d \<le> (if n = 0 then e else word_of_int (elapsed_ns (ts ! (n - 1)) start))
     \<and> (\<forall>k<n. (if k = 0 then e else word_of_int (elapsed_ns (ts ! (k - 1)) start)) < d)"
proof (induction ts arbitrary: e n)
  case (Cons t ts)
  show ?case
  proof (cases "e < d")
    case True
    with Cons.prems obtain m where m: "n = Suc m" "busy_wait_loop d start (word_of_int (elapsed_ns t start)) ts = Some m" by auto
    note IH = Cons.IH [OF m(2)]
    have "(if k = 0 then e else word_of_int (elapsed_ns ((t # ts) ! (k - 1)) start)) < d" if "k < n" for k
      using IH that m(1) True by (cases k) (auto simp: nth_Cons' dest: spec [of _ "k - 1"])
    moreover have "n \<le> length (t # ts) \<and> d \<le> (if n = 0 then e else word_of_int (elapsed_ns ((t # ts) ! (n - 1)) start))"
      using IH m(1) by (auto simp: nth_Cons' split: if_splits)
    ultimately show ?thesis by blast
  qed (use Cons.prems in \<open>auto split: if_splits\<close>)
qed (auto split: if_splits simp: not_less)

lemma busy_wait_returns:
  "(\<exists>n. busy_wait d start ts = Some n) \<longleftrightarrow> d = 0 \<or> (\<exists>t\<in>set ts. d \<le> word_of_int (elapsed_ns t start))"
  unfolding busy_wait_def by (simp add: busy_wait_loop_returns)

lemma busy_wait_first:
  assumes "busy_wait d start ts = Some n" "0 < d"
  shows "0 < n \<and> n \<le> length ts \<and> d \<le> word_of_int (elapsed_ns (ts ! (n - 1)) start) \<and> (\<forall>k<n - 1. word_of_int (elapsed_ns (ts ! k) start) < d)"
proof -
  note t = busy_wait_loop_time [OF assms(1) [unfolded busy_wait_def]]
  have n: "0 < n" using t assms(2) by (cases n) auto
  have "word_of_int (elapsed_ns (ts ! k) start) < d" if "k < n - 1" for k using t that by (auto dest: spec [of _ "Suc k"])
  with n t show ?thesis by auto
qed

subsection \<open>The instances of the POSIX client\<close>

lemma posix_instances_ok:
  assumes "posix_instances sys addr dist is = Inr cs"
  shows "length cs = length is \<and> (\<forall>k<length is. posix_instance_start sys addr dist (is ! k) = Inr (cs ! k))"
  using assms
proof (induction "is" arbitrary: cs)
  case (Cons i "is")
  then show ?case by (fastforce simp: bind_result_Inr_iff nth_Cons' less_Suc_eq_0_disj)
qed simp

lemma posix_instance_start_fields:
  assumes "posix_instance_start sys addr dist i = Inr c"
  shows "pi_fid c = of_nat (i + 1)" "pi_port c = htons (of_nat (DPORT + i))" "pi_addr c = addr" "pi_dist c = dist" "pi_tx_cpu c = i + 10"
  using assms unfolding posix_instance_start_def by (simp_all only: split: if_splits) (simp_all only: sum.inject sum.distinct, auto)

text \<open>
  When the client starts, it has the number of instances asked for, one without a number and at most 1024;
  instance \<open>i\<close> has identifier \<open>i + 1\<close> and sends the keys of the file to port \<open>5678 + i\<close> of the given host, so no two share a port or an
  identifier.
\<close>

theorem posix_main_instances:
  assumes "posix_main sys inet_addr txt args = Inr cs"
  shows "length cs = nat (min (int POSIX_MAX_APPS) (if 2 < length args then atoi (args ! 2) else 1))
    \<and> (\<forall>i<length cs. unat (pi_fid (cs ! i)) = i + 1 \<and> unat (ntohs (pi_port (cs ! i))) = DPORT + i \<and> pi_addr (cs ! i) = inet_addr (args ! 0)
         \<and> Inr (pi_dist (cs ! i)) = read_dist (txt (args ! 1)) \<and> pi_tx_cpu (cs ! i) = i + 10)"
proof -
  let ?n = "nat (min (int POSIX_MAX_APPS) (if 2 < length args then atoi (args ! 2) else 1))"
  obtain dist where d: "read_dist (txt (args ! 1)) = Inr dist" "posix_instances sys (inet_addr (args ! 0)) dist [0..<?n] = Inr cs"
    using assms by (auto simp: posix_main_def Let_def bind_result_Inr_iff min_def split: if_splits)
  have cs: "length cs = ?n" "\<And>i. i < ?n \<Longrightarrow> posix_instance_start sys (inet_addr (args ! 0)) dist i = Inr (cs ! i)"
    using posix_instances_ok [OF d(2)] by auto
  have small: "unat (of_nat (i + 1) :: u16) = i + 1" "unat (of_nat (DPORT + i) :: u16) = DPORT + i" if "i < ?n" for i
  proof -
    have "i < 1024" using that by linarith
    then show "unat (of_nat (i + 1) :: u16) = i + 1" "unat (of_nat (DPORT + i) :: u16) = DPORT + i"
      unfolding unat_of_nat by (simp_all add: take_bit_nat_eq_self)
  qed
  have "unat (pi_fid (cs ! i)) = i + 1 \<and> unat (ntohs (pi_port (cs ! i))) = DPORT + i \<and> pi_addr (cs ! i) = inet_addr (args ! 0)
         \<and> Inr (pi_dist (cs ! i)) = read_dist (txt (args ! 1)) \<and> pi_tx_cpu (cs ! i) = i + 10" if "i < length cs" for i
  proof -
    have i: "i < ?n" using that cs(1) by simp
    note f = posix_instance_start_fields [OF cs(2) [OF i]]
    show ?thesis unfolding f using small [OF i] d(1) by (simp only: htons_htons simp_thms)
  qed
  with cs(1) show ?thesis by blast
qed

end
