(* ===== verification/Spec2Isabelle.thy ===== *)
theory Spec2Isabelle
  imports AP4_Queue AP4_Ping AP4_Resp AP4_Server AP4_Posix AP4_Pktgen AP4_Iface AP4_Port
    AP4_Faithful AP4_Parallel AP4_Report AP4_Start
begin

text \<open>
  A verification library for the C code of ActiveRMT, the runtime with which end hosts execute
  small programs (active programs) in the memory stages of a programmable switch.

  \<^bold>\<open>The system.\<close>  An application sends ordinary packets.  The runtime puts an active program and
  arguments in front of them (\<open>dpdk/encap.h\<close>), strips these headers from the packets that come back
  and interprets the switch's answers (\<open>dpdk/decap.h\<close>); a control thread (\<open>dpdk/control.h\<close>) requests
  memory on the switch, reads it out before it is taken away, and writes it when contents are to be
  installed.  The switch is free to place the accesses of a program in any stages; the runtime then
  moves the instructions of the program so that each access happens in its stage
  (\<open>mutate_active_program\<close> in \<open>common/activep4.h\<close>).  What an application is, is a table of callbacks
  in its context.  Two processes use this: the shim (\<open>shim/dpdk\<close>), which gives three applications to
  unmodified programs, and the key-value client (\<open>examples/kv_store/app/dpdk/client\<close>), which has its
  own threads.  \<open>common/activep4_netutils.h\<close>, \<open>activep4_tunnel.h\<close> and \<open>activep4_pktgen.h\<close> are the
  packet input and output of hosts without DPDK.

  \<^bold>\<open>Conventions.\<close>  A C function is a HOL function over explicit state: structs are records with the
  fields of the source, pointers into shared tables are indices, byte buffers are functions from
  positions to bytes, machine integers are words (\<open>u8\<close> to \<open>u64\<close>), \<open>int\<close> counters are \<open>int\<close> or \<open>nat\<close>
  where they cannot leave the range.  A function that can fail returns a \<open>c_result\<close>: failed
  assertions, process exits, accesses outside an array, null pointers, divisions by zero and loops
  that do not end are the values of \<open>c_error\<close>.  Code outside the repository is a parameter: the hash
  tables of uthash and DPDK, the CRC, the IPv4 checksum of DPDK, clocks and their conversion, MAC
  addresses, buffer allocation, file contents, the filters of the tunnel.  What a theorem needs of such a parameter is one of
  its hypotheses (\<open>uthash_sorts\<close>, \<open>rte_hash_ok\<close>), and witnesses give it a concrete value.

  \<^bold>\<open>The theories.\<close>

  \<^item> \<open>AP4_Prelude\<close>: results, C conversions, byte order, loads and stores of buffers and the collection
    \<open>buffer_simps\<close>.  \<open>AP4_Types\<close>: the data model (\<open>activep4.h\<close>, \<open>types.h\<close>).

  \<^item> \<open>AP4_Isa\<close> (\<open>activep4.h\<close>): loaders of instruction set and programs, with their round trips, and the
    constructors of the programs with which the control thread reads and writes switch memory.
    \<open>AP4_Mutate\<close>: the mutation of a program; for every feasible allocation the mutant keeps the
    instructions in order and executes each access in its stage.

  \<^item> \<open>AP4_Queue\<close> (\<open>activep4_netutils.h\<close>, \<open>activep4_pktgen.h\<close>): the two ring queues, both interpretations
    of the locale \<open>bounded_queue\<close>, refining a bounded FIFO queue.  \<open>AP4_Netutils\<close>: checksums, the parser
    of packet headers, the end-of-program scan, ring geometry.

  \<^item> \<open>AP4_Packet\<close> (\<open>dpdk/active.h\<close>): the control packets, byte by byte.  \<open>AP4_Encap\<close>, \<open>AP4_Decap\<close>: the
    packet filters; a packet that is encapsulated, executed and decapsulated is the original packet,
    a snapshot reply is stored where it was asked for, an allocation is installed, and packets move
    the control state only along the edges of the protocol.

  \<^item> \<open>AP4_Control\<close> (\<open>dpdk/control.h\<close>, \<open>memory.h\<close>): the control thread as a step function.  \<open>AP4_System\<close>:
    its interleaving with the filters (\<open>sys_step\<close>, \<open>sys_reach\<close>); snapshots are complete when the thread
    leaves their loop, remapping always ends, a snapshot ends once all words have arrived.  The locale
    \<open>active_application\<close> states what the control plane expects of an application, and derives that
    every application stays in the protocol.  \<open>AP4_App\<close>: the locale \<open>application_invariant\<close>, a
    predicate on the identifier and the private state of an application that all handlers keep, and
    its consequence for reachable states.

  \<^item> \<open>AP4_Parallel\<close> (\<open>dpdk/control.h\<close>, \<open>memory.h\<close>): the control thread of the \<open>CTRL_PARALLEL\<close> build, which
    makes one pass per visit.  A pass refines that of the sequential thread; when no buffer allocation
    fails a snapshot is complete when it is declared so, and otherwise it need not be.

  \<^item> \<open>AP4_Region\<close>, \<open>AP4_Cache\<close>, \<open>AP4_HH\<close>, \<open>AP4_LB\<close> (\<open>shim/dpdk/apps\<close>): the three applications.
    \<open>AP4_Config\<close> (\<open>dpdk/utils.h\<close>): the configuration files.  \<open>AP4_Shim\<close> (\<open>dpdk/common.h\<close>,
    \<open>shim/dpdk/main.c\<close>): the process, from its files to the running system, with the interpretations
    of both locales on the shim's handler table.  \<open>AP4_Faithful\<close>: the shim together with the memory of
    the switch.  The locale \<open>snapshot_application\<close> extends \<open>active_application\<close> by what a snapshot
    needs of the timer; the copy that the applications consume is the memory of the switch, and the heavy hitters
    reported are those of the switch.

  \<^item> \<open>AP4_KV\<close>, \<open>AP4_KvNet\<close> (\<open>examples/kv_store/app/dpdk/client\<close>): the key-value client, its cache and
    monitor, its threads, the protocol with deallocation, and the interpretation of
    \<open>application_invariant\<close> on its handlers.  \<open>AP4_Request\<close>: the packets that its generator shares with
    \<open>AP4_Ping\<close> (\<open>examples/ping/app/dpdk\<close>), whose samples are the round-trip times of the packets it sent.

  \<^item> \<open>AP4_Server\<close> (\<open>examples/kv_store/app/dpdk/server\<close>): the server that echoes requests, and the way of a
    request from the client through switch and server back to the counter of its sender.

  \<^item> \<open>AP4_Stats\<close> (\<open>common/stats.h\<close>): the counters that a monitor thread samples and resets, as a
    machine whose turns are the sections under the locks; which events are recorded, lost, or
    recorded twice.  \<open>AP4_Posix\<close> (\<open>examples/kv_store/app/posix\<close>): the client on plain sockets, its
    requests, its count of replies, and its requests seen by the shim's cache application.

  \<^item> \<open>AP4_Sockets\<close> (\<open>activep4_netutils.h\<close>): the frames of the transmit ring and the receive loops; what
    is put into the ring reaches the handler of the addressed host.  \<open>AP4_Arp\<close>: the readers of the ARP
    table.  \<open>AP4_Iface\<close>: interfaces, resolution of the peer, the layout of the mapped rings.  \<open>AP4_Tunnel\<close> (\<open>activep4_tunnel.h\<close>): packets of a TUN device in active frames, and back.
    \<open>AP4_Pktgen\<close> (\<open>activep4_pktgen.h\<close>): the generator, whose loop uses the locale of the queues.

  \<^item> \<open>AP4_Port\<close> (\<open>dpdk/common.h\<close>, \<open>main.c\<close> of the examples): the calls with which ports are set up, and the
    cores on which the threads run.

  \<^item> \<open>AP4_Start\<close>: how the programs without DPDK start and stop, the rings with all their resources, the
    tunnel, the packet generator and the instances of the POSIX client.  \<open>AP4_Report\<close>: the files that the processes
    write at shutdown, read back, the port statistics and the list of stages in the log.

  \<^item> \<open>AP4_Resp\<close> (\<open>common/payload_parser_resp.h\<close>): the parser of Redis messages; commands are read back as
    they were written, error replies are read out of bounds.

  \<^bold>\<open>Bounds and fuel.\<close>  Loops over arrays are recursion over index lists and need no fuel.  The
  end-of-program scan, whose loop is not bounded by the buffer, is a \<open>partial_function\<close>; the
  waiting loops of the control thread are steps of a machine, and their termination is a theorem
  about schedules (\<open>sched\<close>) with an explicit bound.  Array sizes are those of the source.

  \<^bold>\<open>Not modelled.\<close>  Printing of packets and log messages; the system calls
  and DPDK functions themselves, of which only results enter; the copy of the \<open>CTRL_PARALLEL\<close> branch in the
  key-value client, whose control state is declared nowhere; the builds
  \<open>CTRL_MULTICORE\<close> and \<open>RECIRC_ENABLED\<close>, which the repository does not select (the second uses a variable whose declaration
  is commented out).  The switch
  itself (P4) and its control plane (Python) are other programs: the theorems that involve them say
  what their answers look like.
\<close>

end
